(* ===== verification/Prelude.thy ===== *)
theory Prelude
  imports Complex_Main
begin

text \<open>
  Shared vocabulary of the development: JavaScript strings as lists of UTF-16 code units, the
  error-or-value results every fallible operation returns, ordered records (assoc lists in
  insertion order) and the string functions of the language that the sources call
  (\<open>trim\<close>, \<open>split\<close>, \<open>join\<close>, \<open>startsWith\<close>, \<open>includes\<close>, \<open>slice\<close>).
  The character classes are the ones of the regular expressions in the sources.
\<close>

named_theorems js_eval \<open>equations that unfold literals and character classes\<close>
named_theorems rsimps \<open>simplification rules for error-or-value results\<close>

section \<open>Strings\<close>

text \<open>A code unit is an integer from 0 to 65535; \<open>js\<close> reads an ASCII literal.\<close>

type_synonym jschar = int
type_synonym jsstr = "int list"

definition js :: "string \<Rightarrow> jsstr" where
  "js = map of_char"

lemma js_Nil [simp]: "js [] = []"
  by (simp add: js_def)

lemma js_Cons [js_eval]: "js (c # cs) = of_char c # js cs"
  by (simp add: js_def)

lemma js_append: "js (a @ b) = js a @ js b"
  by (simp add: js_def)

lemma length_js [simp]: "length (js s) = length s"
  by (simp add: js_def)

lemma js_eq_iff [simp]: "js a = js b \<longleftrightarrow> a = b"
  unfolding js_def by (rule inj_map_eq_map) (rule inj_of_char)

lemma js_eq_Nil_iff [simp]: "js a = [] \<longleftrightarrow> a = []" "[] = js a \<longleftrightarrow> a = []"
  by (auto simp: js_def)

lemma js_bound: "c \<in> set (js s) \<Longrightarrow> 0 \<le> c \<and> c < 256"
proof -
  have "0 \<le> (of_char d :: int) \<and> (of_char d :: int) < 256" for d
    by (subst (1 2) of_char_mod_256[symmetric]) (simp del: of_char_mod_256)
  then show "c \<in> set (js s) \<Longrightarrow> ?thesis" by (auto simp: js_def)
qed

abbreviation code :: "char \<Rightarrow> jschar" where
  "code c \<equiv> of_char c"

definition is_digit :: "jschar \<Rightarrow> bool" where
  "is_digit c \<longleftrightarrow> 48 \<le> c \<and> c \<le> 57"

definition is_hex :: "jschar \<Rightarrow> bool" where
  "is_hex c \<longleftrightarrow> is_digit c \<or> (65 \<le> c \<and> c \<le> 70) \<or> (97 \<le> c \<and> c \<le> 102)"

definition is_alpha :: "jschar \<Rightarrow> bool" where
  "is_alpha c \<longleftrightarrow> (65 \<le> c \<and> c \<le> 90) \<or> (97 \<le> c \<and> c \<le> 122)"

text \<open>The class \<open>[A-Za-z_]\<close> and the class \<open>\w\<close>.\<close>

definition is_name_start :: "jschar \<Rightarrow> bool" where
  "is_name_start c \<longleftrightarrow> is_alpha c \<or> c = 95"

definition is_word :: "jschar \<Rightarrow> bool" where
  "is_word c \<longleftrightarrow> is_alpha c \<or> is_digit c \<or> c = 95"

text \<open>The class \<open>\s\<close>, which is also what \<open>trim\<close> removes.\<close>

definition is_space :: "jschar \<Rightarrow> bool" where
  "is_space c \<longleftrightarrow> (9 \<le> c \<and> c \<le> 13) \<or> c = 32 \<or> c = 160 \<or> c = 5760 \<or>
     (8192 \<le> c \<and> c \<le> 8202) \<or> c = 8232 \<or> c = 8233 \<or> c = 8239 \<or> c = 8287 \<or>
     c = 12288 \<or> c = 65279"

lemmas char_class_defs [js_eval] =
  is_digit_def is_hex_def is_alpha_def is_name_start_def is_word_def is_space_def

lemma digit_not_space: "is_digit c \<Longrightarrow> \<not> is_space c"
  by (auto simp: char_class_defs)

lemma name_start_not_space: "is_name_start c \<Longrightarrow> \<not> is_space c"
  by (auto simp: char_class_defs)

lemma name_start_not_digit: "is_name_start c \<Longrightarrow> \<not> is_digit c"
  by (auto simp: char_class_defs)

lemma name_start_word: "is_name_start c \<Longrightarrow> is_word c"
  by (auto simp: char_class_defs)

definition trim_start :: "jsstr \<Rightarrow> jsstr" where
  "trim_start s = dropWhile is_space s"

definition trim_end :: "jsstr \<Rightarrow> jsstr" where
  "trim_end s = rev (dropWhile is_space (rev s))"

definition trim :: "jsstr \<Rightarrow> jsstr" where
  "trim s = trim_end (trim_start s)"

text \<open>Indices are integers; the sources slice with indices from 0 on only.\<close>

fun slen :: "'a list \<Rightarrow> int" where
  "slen [] = 0"
| "slen (x # xs) = 1 + slen xs"

fun idrop :: "int \<Rightarrow> 'a list \<Rightarrow> 'a list" where
  "idrop n [] = []"
| "idrop n (x # xs) = (if n \<le> 0 then x # xs else idrop (n - 1) xs)"

fun itake :: "int \<Rightarrow> 'a list \<Rightarrow> 'a list" where
  "itake n [] = []"
| "itake n (x # xs) = (if n \<le> 0 then [] else x # itake (n - 1) xs)"

definition slice :: "jsstr \<Rightarrow> int \<Rightarrow> int \<Rightarrow> jsstr" where
  "slice s i j = itake (j - i) (idrop i s)"

fun starts_with :: "jsstr \<Rightarrow> jsstr \<Rightarrow> bool" where
  "starts_with [] s = True"
| "starts_with (p # ps) [] = False"
| "starts_with (p # ps) (c # cs) = (p = c \<and> starts_with ps cs)"

text \<open>\<open>haystack.includes(needle)\<close>.\<close>

fun str_includes :: "jsstr \<Rightarrow> jsstr \<Rightarrow> bool" where
  "str_includes [] needle = (needle = [])"
| "str_includes (c # cs) needle = (starts_with needle (c # cs) \<or> str_includes cs needle)"

fun join :: "jsstr \<Rightarrow> jsstr list \<Rightarrow> jsstr" where
  "join sep [] = []"
| "join sep [x] = x"
| "join sep (x # y # xs) = x @ sep @ join sep (y # xs)"

text \<open>\<open>s.split(c)\<close> for a separator of one code unit.\<close>

fun split_on :: "jschar \<Rightarrow> jsstr \<Rightarrow> jsstr list" where
  "split_on c [] = [] # []"
| "split_on c (x # xs) =
     (if x = c then [] # split_on c xs
      else (case split_on c xs of [] \<Rightarrow> [x] # [] | p # ps \<Rightarrow> (x # p) # ps))"

definition to_lower :: "jschar \<Rightarrow> jschar" where
  "to_lower c = (if 65 \<le> c \<and> c \<le> 90 then c + 32 else c)"

subsection \<open>Facts about the string functions\<close>

lemma starts_with_iff: "starts_with p s \<longleftrightarrow> (\<exists>r. s = p @ r)"
  by (induction p s rule: starts_with.induct) auto

lemma starts_with_append [simp]: "starts_with p (p @ r)"
  by (auto simp: starts_with_iff)

lemma starts_with_take: "starts_with p s \<longleftrightarrow> take (length p) s = p"
  by (induction p s rule: starts_with.induct) auto

lemma str_includes_iff: "str_includes s t \<longleftrightarrow> (\<exists>a b. s = a @ t @ b)"
proof (induction s)
  case Nil
  then show ?case by auto
next
  case (Cons c s)
  have "(\<exists>a b. c # s = a @ t @ b) \<longleftrightarrow> (\<exists>b. c # s = t @ b) \<or> (\<exists>a b. s = a @ t @ b)"
    by (auto simp: Cons_eq_append_conv)
  with Cons show ?case by (auto simp: starts_with_iff)
qed

lemma dropWhile_prefix: "\<exists>a. s = a @ dropWhile P s \<and> (\<forall>c\<in>set a. P c)"
  by (rule exI[of _ "takeWhile P s"]) (auto dest: set_takeWhileD)

lemma trim_start_decomp: "\<exists>a. s = a @ trim_start s \<and> (\<forall>c\<in>set a. is_space c)"
  unfolding trim_start_def by (rule dropWhile_prefix)

lemma trim_end_decomp: "\<exists>b. s = trim_end s @ b \<and> (\<forall>c\<in>set b. is_space c)"
proof -
  obtain a where a: "rev s = a @ dropWhile is_space (rev s)" "\<forall>c\<in>set a. is_space c"
    using dropWhile_prefix[of "rev s" is_space] by (elim exE conjE)
  have "s = rev (dropWhile is_space (rev s)) @ rev a"
    using arg_cong[OF a(1), of rev] by (simp only: rev_rev_ident rev_append)
  with a(2) show ?thesis unfolding trim_end_def
    by (intro exI[of _ "rev a"] conjI) (assumption, simp only: set_rev)
qed

text \<open>Trimming removes white space at the two ends and nothing else.\<close>

lemma trim_decomp:
  "\<exists>a b. s = a @ trim s @ b \<and> (\<forall>c\<in>set a. is_space c) \<and> (\<forall>c\<in>set b. is_space c)"
proof -
  obtain a where a: "s = a @ trim_start s" "\<forall>c\<in>set a. is_space c"
    using trim_start_decomp[of s] by (elim exE conjE)
  obtain b where b: "trim_start s = trim s @ b" "\<forall>c\<in>set b. is_space c"
    using trim_end_decomp[of "trim_start s"] unfolding trim_def by (elim exE conjE)
  from a(1) b(1) have "s = a @ trim s @ b" by simp
  with a(2) b(2) show ?thesis by blast
qed

lemma trim_start_hd: "trim_start s = c # r \<Longrightarrow> \<not> is_space c"
  unfolding trim_start_def by (metis dropWhile_eq_Cons_conv)

lemma trim_end_last: "trim_end s \<noteq> [] \<Longrightarrow> \<not> is_space (last (trim_end s))"
  unfolding trim_end_def
  by (metis hd_dropWhile last_rev rev.simps(1))

lemma trim_last: "trim s \<noteq> [] \<Longrightarrow> \<not> is_space (last (trim s))"
  unfolding trim_def by (rule trim_end_last)

lemma trim_hd: "trim s \<noteq> [] \<Longrightarrow> \<not> is_space (hd (trim s))"
proof -
  assume ne: "trim s \<noteq> []"
  obtain b where b: "trim_start s = trim s @ b"
    using trim_end_decomp[of "trim_start s"] unfolding trim_def by (elim exE conjE)
  with ne have "trim_start s = hd (trim s) # tl (trim s) @ b"
    by (cases "trim s") auto
  then show ?thesis by (rule trim_start_hd)
qed

lemma dropWhile_hd: "s = [] \<or> \<not> P (hd s) \<Longrightarrow> dropWhile P s = s"
  by (cases s) auto

lemma trim_id: "s = [] \<or> (\<not> is_space (hd s) \<and> \<not> is_space (last s)) \<Longrightarrow> trim s = s"
  by (auto simp: trim_def trim_start_def trim_end_def dropWhile_hd hd_rev)

lemma trim_idem [simp]: "trim (trim s) = trim s"
  by (rule trim_id) (use trim_hd trim_last in blast)

lemma length_trim_le: "length (trim s) \<le> length s"
proof -
  obtain a b where "s = a @ trim s @ b" using trim_decomp[of s] by (elim exE conjE)
  then have "length s = length (a @ trim s @ b)" by (rule arg_cong)
  then show ?thesis by simp
qed

lemma trim_Nil [simp]: "trim [] = []"
  by (simp add: trim_def trim_start_def trim_end_def)

lemma split_on_not_Nil [simp]: "split_on c s \<noteq> []"
  by (induction s) (auto split: list.splits)

lemma join_Cons: "xs \<noteq> [] \<Longrightarrow> join sep (x # xs) = x @ sep @ join sep xs"
  by (cases xs) auto

text \<open>Splitting and joining on the same separator is the identity.\<close>

lemma join_split_on [simp]: "join [c] (split_on c s) = s"
proof (induction s)
  case (Cons x s)
  obtain p ps where p: "split_on c s = p # ps" by (cases "split_on c s") auto
  with Cons show ?case by (cases ps) auto
qed simp

lemma split_on_no_sep: "p \<in> set (split_on c s) \<Longrightarrow> c \<notin> set p"
proof (induction s arbitrary: p)
  case (Cons x s)
  obtain q qs where q: "split_on c s = q # qs" by (cases "split_on c s") auto
  with Cons show ?case by (auto split: if_splits)
qed simp

lemma split_on_id: "c \<notin> set p \<Longrightarrow> split_on c p = [p]"
  by (induction p) auto

lemma split_on_append_sep: "c \<notin> set p \<Longrightarrow> split_on c (p @ c # r) = p # split_on c r"
  by (induction p) auto

lemma split_on_join:
  "ps \<noteq> [] \<Longrightarrow> \<forall>p\<in>set ps. c \<notin> set p \<Longrightarrow> split_on c (join [c] ps) = ps"
proof (induction ps)
  case (Cons p ps)
  then show ?case by (cases ps) (auto simp: split_on_id split_on_append_sep)
qed simp

text \<open>A text is cut at its first separator in one way only.\<close>

lemma append_sep_inj:
  assumes "a @ c # x = b @ c # y" and "c \<notin> set a" and "c \<notin> set b"
  shows "a = b \<and> x = y"
  using assms by (induction a arbitrary: b) (auto simp: Cons_eq_append_conv)

lemma slen_length: "slen xs = int (length xs)"
  by (induction xs) auto

lemma slen_nonneg [simp]: "0 \<le> slen xs"
  by (simp add: slen_length)

lemma slen_append [simp]: "slen (xs @ ys) = slen xs + slen ys"
  by (simp add: slen_length)

lemma idrop_drop: "idrop n xs = drop (nat n) xs"
proof (induction n xs rule: idrop.induct)
  case (2 n x xs)
  then show ?case by (cases "n \<le> 0") (auto simp: nat_diff_distrib drop_Cons')
qed simp

lemma itake_take: "itake n xs = take (nat n) xs"
proof (induction n xs rule: itake.induct)
  case (2 n x xs)
  then show ?case by (cases "n \<le> 0") (auto simp: nat_diff_distrib take_Cons')
qed simp

lemma idrop_0 [simp]: "n \<le> 0 \<Longrightarrow> idrop n xs = xs"
  by (simp add: idrop_drop)

lemma itake_0 [simp]: "n \<le> 0 \<Longrightarrow> itake n xs = []"
  by (simp add: itake_take)

lemma slice_alt: "slice s i j = take (nat (j - i)) (drop (nat i) s)"
  by (simp add: slice_def idrop_drop itake_take)

lemma slice_full [simp]: "slice s 0 (slen s) = s"
  by (simp add: slice_alt slen_length)

lemma slen_slice: "0 \<le> i \<Longrightarrow> i \<le> j \<Longrightarrow> j \<le> slen s \<Longrightarrow> slen (slice s i j) = j - i"
  by (auto simp: slice_alt slen_length)

lemma slice_append_slice:
  assumes "0 \<le> i" "i \<le> j" "j \<le> k"
  shows "slice s i j @ slice s j k = slice s i k"
proof -
  from assms have d: "nat (k - i) = nat (j - i) + nat (k - j)" by simp
  from assms have e: "drop (nat (j - i)) (drop (nat i) s) = drop (nat j) s"
    by (simp add: nat_diff_distrib)
  show ?thesis unfolding slice_alt d take_add e ..
qed

section \<open>Results\<close>

text \<open>
  A fallible operation returns \<open>Inl e\<close> where the source throws and \<open>Inr v\<close> where it returns.
  \<open>rbind\<close> is sequencing: the first throw ends the computation.
\<close>

definition rbind :: "'e + 'a \<Rightarrow> ('a \<Rightarrow> 'e + 'b) \<Rightarrow> 'e + 'b" where
  "rbind m f = (case m of Inl e \<Rightarrow> Inl e | Inr v \<Rightarrow> f v)"

lemma rbind_simps [simp, rsimps]: "rbind (Inl e) f = Inl e" "rbind (Inr v) f = f v"
  by (simp_all add: rbind_def)

lemma rbind_eq_Inr [rsimps]: "rbind m f = Inr y \<longleftrightarrow> (\<exists>v. m = Inr v \<and> f v = Inr y)"
  by (cases m) auto

lemma rbind_eq_Inl [rsimps]:
  "rbind m f = Inl e \<longleftrightarrow> m = Inl e \<or> (\<exists>v. m = Inr v \<and> f v = Inl e)"
  by (cases m) auto

lemma rbind_InrE:
  assumes "rbind m f = Inr y"
  obtains v where "m = Inr v" "f v = Inr y"
  using assms by (auto simp: rbind_eq_Inr)

lemma rbind_split:
  "P (rbind m f) \<longleftrightarrow> (\<forall>e. m = Inl e \<longrightarrow> P (Inl e)) \<and> (\<forall>v. m = Inr v \<longrightarrow> P (f v))"
  by (cases m) auto

lemma rbind_assoc: "rbind (rbind m f) g = rbind m (\<lambda>x. rbind (f x) g)"
  by (cases m) auto

lemma rbind_cong [fundef_cong]:
  assumes "m = m'" and "\<And>v. m' = Inr v \<Longrightarrow> f v = g v"
  shows "rbind m f = rbind m' g"
  using assms by (cases m') auto

primrec is_ok :: "'e + 'a \<Rightarrow> bool" where
  "is_ok (Inl e) = False"
| "is_ok (Inr v) = True"

lemma is_ok_iff: "is_ok m \<longleftrightarrow> (\<exists>v. m = Inr v)"
  by (cases m) auto

section \<open>Ordered records\<close>

text \<open>
  A JavaScript object or \<open>Map\<close> with string keys is an association list in insertion order:
  setting an existing key keeps its place, setting a new key appends.
\<close>

type_synonym ('k, 'v) orec = "('k \<times> 'v) list"

fun orec_set :: "'k \<Rightarrow> 'v \<Rightarrow> ('k, 'v) orec \<Rightarrow> ('k, 'v) orec" where
  "orec_set k v [] = [(k, v)]"
| "orec_set k v ((k', v') # r) = (if k = k' then (k, v) # r else (k', v') # orec_set k v r)"

definition orec_keys :: "('k, 'v) orec \<Rightarrow> 'k list" where
  "orec_keys r = map fst r"

definition orec_has :: "('k, 'v) orec \<Rightarrow> 'k \<Rightarrow> bool" where
  "orec_has r k \<longleftrightarrow> k \<in> fst ` set r"

lemma map_of_orec_set: "map_of (orec_set k v r) = (map_of r)(k \<mapsto> v)"
  by (induction r) (auto simp: fun_upd_def fun_eq_iff)

lemma orec_has_map_of: "orec_has r k \<longleftrightarrow> map_of r k \<noteq> None"
  by (simp add: orec_has_def map_of_eq_None_iff)

lemma fst_set_orec_set: "fst ` set (orec_set k v r) = insert k (fst ` set r)"
proof (induction r)
  case (Cons p r)
  then show ?case by (cases p) (simp add: insert_commute)
qed simp

lemma orec_set_new: "k \<notin> fst ` set r \<Longrightarrow> orec_set k v r = r @ [(k, v)]"
  by (induction r) auto

lemma distinct_orec_set: "distinct (map fst r) \<Longrightarrow> distinct (map fst (orec_set k v r))"
proof (induction r)
  case (Cons p r)
  then show ?case by (cases p) (simp add: fst_set_orec_set)
qed simp

end
