(* ===== verification/Structure.thy ===== *)
theory Structure
  imports Prelude
begin

text \<open>
  The text-level helpers of \<open>billing-expression/structure.ts\<close>, which work on expressions outside
  the parsed grammar too: splitting at a top-level operator and removing enclosing parentheses.
\<close>

section \<open>Splitting at the top level\<close>

definition is_open :: "jschar \<Rightarrow> bool" where
  "is_open c \<longleftrightarrow> c \<in> {40, 91, 123}"

definition is_close :: "jschar \<Rightarrow> bool" where
  "is_close c \<longleftrightarrow> c \<in> {41, 93, 125}"

definition is_quote :: "jschar \<Rightarrow> bool" where
  "is_quote c \<longleftrightarrow> c = 34 \<or> c = 39"

text \<open>
  The loop of \<open>splitExpressionAtTopLevel\<close> on the text from index \<open>i\<close> on. \<open>Inl\<close> is the early
  return at a question mark. With an empty operator the index may stay where it is, so that the
  loop is a partial function, \<open>None\<close> where it does not return.
\<close>

partial_function (option) split_loop ::
  "jsstr \<Rightarrow> jsstr \<Rightarrow> jsstr \<Rightarrow> int \<Rightarrow> int \<Rightarrow> int \<Rightarrow> jschar option \<Rightarrow> jsstr list \<Rightarrow> (jsstr list + int \<times> jsstr list) option" where
  "split_loop source operator rest i start depth quote parts =
     (case rest of
        [] \<Rightarrow> Some (Inr (start, parts))
      | c # rest' \<Rightarrow>
          (case quote of
             Some q \<Rightarrow>
               if c = 92 then split_loop source operator (idrop 1 rest') (i + 2) start depth quote parts
               else split_loop source operator rest' (i + 1) start depth (if c = q then None else quote) parts
           | None \<Rightarrow>
               if is_quote c then split_loop source operator rest' (i + 1) start depth (Some c) parts
               else (let depth = (if is_open c then depth + 1 else if is_close c then depth - 1 else depth) in
                 if depth \<noteq> 0 then split_loop source operator rest' (i + 1) start depth None parts
                 else if c = 63 then Some (Inl [trim source])
                 else if starts_with operator (c # rest') then
                   split_loop source operator (idrop (slen operator) (c # rest')) (i + slen operator)
                     (i + slen operator) depth None (parts @ [trim (slice source start i)])
                 else split_loop source operator rest' (i + 1) start depth None parts)))"

lemma split_loop_Nil: "split_loop source operator [] i start depth quote parts = Some (Inr (start, parts))"
  by (subst split_loop.simps) simp

lemma split_loop_Cons:
  "split_loop source operator (c # rest) i start depth quote parts =
     (case quote of
        Some q \<Rightarrow>
          if c = 92 then split_loop source operator (idrop 1 rest) (i + 2) start depth quote parts
          else split_loop source operator rest (i + 1) start depth (if c = q then None else quote) parts
      | None \<Rightarrow>
          if is_quote c then split_loop source operator rest (i + 1) start depth (Some c) parts
          else (let depth = (if is_open c then depth + 1 else if is_close c then depth - 1 else depth) in
            if depth \<noteq> 0 then split_loop source operator rest (i + 1) start depth None parts
            else if c = 63 then Some (Inl [trim source])
            else if starts_with operator (c # rest) then
              split_loop source operator (idrop (slen operator) (c # rest)) (i + slen operator)
                (i + slen operator) depth None (parts @ [trim (slice source start i)])
            else split_loop source operator rest (i + 1) start depth None parts))"
  by (subst split_loop.simps) simp

lemmas split_loop_simps [simp, code] = split_loop_Nil split_loop_Cons

lemmas split_loop_induct = split_loop.raw_induct [rotated, consumes 1, case_names step]

definition splitExpressionAtTopLevel :: "jsstr \<Rightarrow> jsstr \<Rightarrow> jsstr list option" where
  "splitExpressionAtTopLevel source operator =
     map_option (\<lambda>r. case r of
         Inl whole \<Rightarrow> whole
       | Inr (start, parts) \<Rightarrow>
           filter (\<lambda>p. p \<noteq> []) (parts @ [trim (slice source start (slen source))]))
       (split_loop source operator source 0 0 0 None [])"

section \<open>Removing parentheses\<close>

text \<open>Whether the first position at depth 0 is the last one of the text.\<close>

function closes_at_end :: "jsstr \<Rightarrow> int \<Rightarrow> jschar option \<Rightarrow> bool" where
  "closes_at_end [] depth quote = False"
| "closes_at_end (c # rest) depth quote =
     (case quote of
        Some q \<Rightarrow>
          if c = 92 then closes_at_end (idrop 1 rest) depth quote
          else closes_at_end rest depth (if c = q then None else quote)
      | None \<Rightarrow>
          if is_quote c then closes_at_end rest depth (Some c)
          else (let depth = (if c = 40 then depth + 1 else if c = 41 then depth - 1 else depth) in
            if depth = 0 then rest = [] else closes_at_end rest depth None))"
  by pat_completeness auto
termination
  by (relation "measure (\<lambda>(r, d, q). length r)") (auto simp: idrop_drop)

definition wrapped :: "jsstr \<Rightarrow> bool" where
  "wrapped e \<longleftrightarrow> e \<noteq> [] \<and> hd e = 40 \<and> last e = 41 \<and> closes_at_end e 0 None"

function unwrap_loop :: "jsstr \<Rightarrow> jsstr" where
  "unwrap_loop e = (if wrapped e then unwrap_loop (trim (butlast (tl e))) else e)"
  by pat_completeness auto
termination
proof (relation "measure length", goal_cases)
  case (2 e)
  have "length (trim (butlast (tl e))) \<le> length (butlast (tl e))" by (rule length_trim_le)
  also have "\<dots> < length e" using 2 by (cases e) (auto simp: wrapped_def)
  finally show ?case by simp
qed simp

declare unwrap_loop.simps [simp del]

definition unwrapExpressionParens :: "jsstr \<Rightarrow> jsstr" where
  "unwrapExpressionParens source = unwrap_loop (trim source)"

section \<open>Facts\<close>

lemma unwrap_loop_not_wrapped: "\<not> wrapped (unwrap_loop e)"
proof (induction e rule: unwrap_loop.induct)
  case (1 e)
  then show ?case by (subst unwrap_loop.simps) simp
qed

lemma unwrap_loop_trim: "trim e = e \<Longrightarrow> trim (unwrap_loop e) = unwrap_loop e"
proof (induction e rule: unwrap_loop.induct)
  case (1 e)
  then show ?case by (subst (1 2) unwrap_loop.simps) simp
qed

lemma idrop_Suc:
  assumes "idrop i s = c # r" and "0 \<le> i" and "0 \<le> k"
  shows "idrop (i + 1 + k) s = idrop k r"
proof -
  have "nat (i + 1 + k) = nat k + 1 + nat i" using assms by simp
  moreover have "drop (nat i) s = c # r" using assms by (simp add: idrop_drop)
  ultimately show ?thesis
    by (simp only: idrop_drop drop_drop[symmetric]) (simp add: drop_drop[symmetric])
qed

text \<open>
  Nothing but the operator is lost: before trimming, the pieces found so far, each followed by the
  operator, are the text up to the current start.
\<close>

definition pieces :: "jsstr \<Rightarrow> jsstr \<Rightarrow> int \<Rightarrow> jsstr list \<Rightarrow> bool" where
  "pieces source operator start parts \<longleftrightarrow>
     (\<exists>segs. parts = map trim segs \<and> concat (map (\<lambda>s. s @ operator) segs) = itake start source)"

lemma pieces_step:
  assumes "pieces source operator start parts" and "idrop i source = operator @ r"
    and "0 \<le> start" "start \<le> i"
  shows "pieces source operator (i + slen operator) (parts @ [trim (slice source start i)])"
proof -
  obtain segs where segs: "parts = map trim segs"
    "concat (map (\<lambda>s. s @ operator) segs) = itake start source"
    using assms(1) by (auto simp: pieces_def)
  have "slice source i (i + slen operator) = operator"
    using assms by (simp add: slice_def itake_take slen_length)
  moreover have "itake start source = slice source 0 start" "itake (i + slen operator) source = slice source 0 (i + slen operator)"
    by (simp_all add: slice_def)
  ultimately have "itake start source @ slice source start i @ operator = itake (i + slen operator) source"
    using slice_append_slice[of 0 start i source] slice_append_slice[of 0 i "i + slen operator" source] assms(3,4)
    by (simp add: append_assoc[symmetric] del: append_assoc)
  with segs show ?thesis
    unfolding pieces_def by (intro exI[of _ "segs @ [slice source start i]"]) simp
qed

text \<open>
  The loop ends on every text exactly when its operator is not empty: an empty operator is found
  again and again at the first character outside brackets that is not a bracket itself.
\<close>

lemma split_loop_returns:
  "operator \<noteq> [] \<Longrightarrow> split_loop source operator rest i start depth quote parts \<noteq> None"
proof (induction rest arbitrary: i start depth quote parts rule: length_induct)
  case (1 rest)
  show ?case
  proof (cases rest)
    case (Cons c r)
    have "length (idrop 1 r) < length rest" "length (idrop (slen operator) rest) < length rest"
      using Cons 1(2) by (auto simp: idrop_drop slen_length)
    with 1 Cons show ?thesis by (auto simp: Let_def simp del: idrop.simps split: option.splits)
  qed simp
qed

lemma split_loop_stuck:
  "split_loop source operator rest i start depth quote parts = Some r \<Longrightarrow>
   \<not> (operator = [] \<and> quote = None \<and> depth = 0 \<and> (\<exists>t. rest = 97 # t))"
proof (induction rule: split_loop_induct)
  case (step f source operator rest i start depth quote parts r)
  have "False" if "f source [] (97 # t) j k 0 None ps = Some r" for t j k ps
    using step(1)[OF that] by simp
  then show ?case using step(2) by (auto simp: is_quote_def is_open_def is_close_def)
qed

lemma split_returns_iff: "(\<forall>source. splitExpressionAtTopLevel source operator \<noteq> None) \<longleftrightarrow> operator \<noteq> []"
proof
  assume "\<forall>source. splitExpressionAtTopLevel source operator \<noteq> None"
  then have "splitExpressionAtTopLevel [97] operator \<noteq> None" by blast
  then show "operator \<noteq> []"
    using split_loop_stuck[of "[97]" operator "[97]" 0 0 0 None "[]"]
    by (auto simp: splitExpressionAtTopLevel_def simp del: split_loop_simps)
qed (simp add: splitExpressionAtTopLevel_def split_loop_returns)

lemma split_loop_pieces:
  assumes "split_loop source operator rest i start depth quote parts = Some r" and "r = Inr (start', parts')"
    and "rest = idrop i source" and "0 \<le> start" "start \<le> i"
    and "pieces source operator start parts"
  shows "pieces source operator start' parts' \<and> 0 \<le> start'"
  using assms
proof (induction arbitrary: start' parts' rule: split_loop_induct)
  case (step f source operator rest i start depth quote parts r)
  note IH = step(1) and run = step(2)[unfolded step(3)] and prems = step(4-7)
  show ?case
  proof (cases rest)
    case Nil
    with run prems show ?thesis by simp
  next
    case (Cons c t)
    have t: "t = idrop (i + 1) source" "idrop 1 t = idrop (i + 2) source"
      using idrop_Suc[of i source c t 0] idrop_Suc[of i source c t 1] prems Cons
      by (auto simp: add.commute)
    have go: "pieces source operator start' parts' \<and> 0 \<le> start'"
      if "f source operator r' i' start d q parts = Some (Inr (start', parts'))" "r' = idrop i' source" "i \<le> i'"
      for r' i' d q
      using IH[OF that(1) refl that(2)] prems that(3) by simp
    show ?thesis
    proof (cases quote)
      case (Some q)
      with run Cons go[OF _ t(2)] go[OF _ t(1)] show ?thesis by (auto split: if_splits simp del: idrop.simps)
    next
      case None
      define d where "d = (if is_open c then depth + 1 else if is_close c then depth - 1 else depth)"
      let ?i = "i + slen operator"
      consider (step) q d' where "f source operator t (i + 1) start d' q parts = Some (Inr (start', parts'))"
        | (op) "starts_with operator (c # t)"
          "f source operator (idrop (slen operator) (c # t)) ?i ?i d None (parts @ [trim (slice source start i)])
            = Some (Inr (start', parts'))"
        using run Cons None by (auto simp: Let_def d_def[symmetric] simp del: idrop.simps split: if_splits)
      then show ?thesis
      proof cases
        case step
        from go[OF this t(1)] show ?thesis by simp
      next
        case op
        obtain u where u: "c # t = operator @ u" using op by (auto simp: starts_with_iff)
        have i: "idrop (slen operator) (c # t) = idrop ?i source"
          unfolding Cons[symmetric] prems(1) using prems(2,3) by (simp add: idrop_drop nat_add_distrib add.commute)
        have "pieces source operator ?i (parts @ [trim (slice source start i)])"
          using pieces_step[OF prems(4), of i u] u Cons prems(1-3) by simp
        from IH[OF op(2) refl i _ _ this] prems(2,3) show ?thesis by simp
      qed
    qed
  qed
qed

lemma split_loop_whole:
  "split_loop source operator rest i start depth quote parts = Some r \<Longrightarrow> r = Inl w \<Longrightarrow> w = [trim source]"
proof (induction arbitrary: w rule: split_loop_induct)
  case (step f source operator rest i start depth quote parts r)
  show ?case using step(2,3) by (auto simp: Let_def dest: step(1)[OF _ refl] split: list.splits option.splits if_splits)
qed

text \<open>Splitting loses only operators and white space around the pieces.\<close>

lemma split_top_level_pieces:
  assumes "splitExpressionAtTopLevel source operator = Some ps"
  shows "ps = [trim source] \<or>
    (\<exists>segs. join operator segs = source \<and> ps = filter (\<lambda>p. p \<noteq> []) (map trim segs))"
proof -
  have join: "join op (xs @ [x]) = concat (map (\<lambda>s. s @ op) xs) @ x" for op x and xs :: "jsstr list"
    by (induction xs) (auto simp: join_Cons)
  obtain r where r: "split_loop source operator source 0 0 0 None [] = Some r"
    "ps = (case r of Inl whole \<Rightarrow> whole
       | Inr (start, parts) \<Rightarrow> filter (\<lambda>p. p \<noteq> []) (parts @ [trim (slice source start (slen source))]))"
    using assms by (auto simp: splitExpressionAtTopLevel_def)
  show ?thesis
  proof (cases r)
    case (Inr q)
    then obtain start parts where q: "r = Inr (start, parts)" by (cases q) auto
    have "pieces source operator start parts \<and> 0 \<le> start"
      using split_loop_pieces[OF r(1) q] r(1) q
      by (simp add: pieces_def)
    then obtain segs where segs: "parts = map trim segs" "0 \<le> start"
      "concat (map (\<lambda>s. s @ operator) segs) = itake start source"
      by (auto simp: pieces_def)
    let ?segs = "segs @ [slice source start (slen source)]"
    have "itake start source @ slice source start (slen source) = source"
      by (simp add: slice_alt itake_take slen_length)
    then have "join operator ?segs = source" using segs by (simp add: join)
    moreover have "ps = filter (\<lambda>p. p \<noteq> []) (map trim ?segs)" using r(2) q segs by simp
    ultimately show ?thesis by blast
  next
    case (Inl w)
    with r split_loop_whole[OF r(1) Inl] show ?thesis by simp
  qed
qed

section \<open>Enclosing parentheses\<close>

text \<open>
  Texts whose parentheses and quotes match, as a grammar: \<open>quote_inner q\<close> are the bodies of a text
  quoted by \<open>q\<close>, in which a backslash takes the next character along, and \<open>matched\<close> are sequences
  of quoted texts, texts in parentheses and other characters.
\<close>

inductive quote_inner :: "jschar \<Rightarrow> jsstr \<Rightarrow> bool" where
  quoted_end: "quote_inner q []"
| quoted_char: "c \<noteq> q \<Longrightarrow> c \<noteq> 92 \<Longrightarrow> quote_inner q b \<Longrightarrow> quote_inner q (c # b)"
| quoted_escape: "quote_inner q b \<Longrightarrow> quote_inner q (92 # c # b)"

inductive matched :: "jsstr \<Rightarrow> bool" where
  matched_end: "matched []"
| matched_char: "\<not> is_quote c \<Longrightarrow> c \<noteq> 40 \<Longrightarrow> c \<noteq> 41 \<Longrightarrow> matched s \<Longrightarrow> matched (c # s)"
| matched_quote: "is_quote q \<Longrightarrow> quote_inner q b \<Longrightarrow> matched s \<Longrightarrow> matched (q # b @ q # s)"
| matched_parens: "matched a \<Longrightarrow> matched s \<Longrightarrow> matched (40 # a @ 41 # s)"

text \<open>What is left of a text when white space and enclosing parentheses are taken off.\<close>

inductive encloses :: "jsstr \<Rightarrow> jsstr \<Rightarrow> bool" where
  encloses_trim: "encloses e (trim e)"
| encloses_parens: "trim e = 40 # a @ [41] \<Longrightarrow> matched a \<Longrightarrow> encloses a u \<Longrightarrow> encloses e u"

lemma closes_quoted:
  "quote_inner q b \<Longrightarrow> q \<noteq> 92 \<Longrightarrow> closes_at_end (b @ q # r) d (Some q) = closes_at_end r d None"
  by (induction rule: quote_inner.induct) simp_all

lemma closes_matched: "matched a \<Longrightarrow> 1 \<le> d \<Longrightarrow> closes_at_end (a @ r) d None = closes_at_end r d None"
proof (induction arbitrary: d r rule: matched.induct)
  case (matched_quote q b s)
  then show ?case using closes_quoted[of q b "s @ r" d] by (auto simp: is_quote_def)
qed (simp_all add: is_quote_def)

lemma closes_quote_body:
  "closes_at_end s d (Some q) \<Longrightarrow> \<exists>b r. quote_inner q b \<and> s = b @ q # r \<and> closes_at_end r d None"
proof (induction s rule: length_induct)
  case (1 s)
  then obtain c t where s: "s = c # t" by (cases s) auto
  note IH = 1(1)[unfolded s, rule_format]
  consider (escape) x u where "c = 92" "t = x # u" "closes_at_end u d (Some q)"
    | (stop) "c = q" "c \<noteq> 92" "closes_at_end t d None"
    | (char) "c \<noteq> q" "c \<noteq> 92" "closes_at_end t d (Some q)"
    using 1(2) s by (cases t) (auto split: if_splits)
  then show ?case
  proof cases
    case escape
    with IH[of u] obtain b r where "quote_inner q b" "u = b @ q # r" "closes_at_end r d None" by auto
    with escape s quoted_escape[of q b x] show ?thesis by (intro exI[of _ "92 # x # b"] exI[of _ r]) simp
  next
    case stop
    with s quoted_end show ?thesis by (intro exI[of _ "[]"] exI[of _ t]) simp
  next
    case char
    with IH[of t] obtain b r where "quote_inner q b" "t = b @ q # r" "closes_at_end r d None" by auto
    with char s quoted_char[of c q b] show ?thesis by (intro exI[of _ "c # b"] exI[of _ r]) simp
  qed
qed

text \<open>A text that closes \<open>n\<close> parentheses more than it opens, the last one at its end.\<close>

fun closing :: "nat \<Rightarrow> jsstr \<Rightarrow> bool" where
  "closing 0 s \<longleftrightarrow> s = []"
| "closing (Suc n) s \<longleftrightarrow> (\<exists>a r. matched a \<and> s = a @ 41 # r \<and> closing n r)"

lemma closing_prefix:
  "closing (Suc n) r \<Longrightarrow> (\<And>a. matched a \<Longrightarrow> matched (p @ a)) \<Longrightarrow> closing (Suc n) (p @ r)"
  by (metis append_assoc closing.simps(2))

lemma closes_closing: "closes_at_end s (int (Suc n)) None \<Longrightarrow> closing (Suc n) s"
proof (induction s arbitrary: n rule: length_induct)
  case (1 s)
  then obtain c t where s: "s = c # t" by (cases s) auto
  note IH = 1(1)[unfolded s, rule_format]
  consider (quote) "is_quote c" | (open_paren) "c = 40" | (close_paren) "c = 41"
    | (char) "\<not> is_quote c" "c \<noteq> 40" "c \<noteq> 41" by blast
  then show ?case
  proof cases
    case quote
    with 1(2) s have "closes_at_end t (int (Suc n)) (Some c)" by simp
    from closes_quote_body[OF this] obtain b r
      where b: "quote_inner c b" "t = b @ c # r" "closes_at_end r (int (Suc n)) None" by blast
    have "matched ((c # b @ [c]) @ a)" if "matched a" for a
      using matched_quote[OF quote b(1) that] by simp
    from closing_prefix[OF IH[OF _ b(3)] this] b(2) s show ?thesis by simp
  next
    case open_paren
    with 1(2) s have "closes_at_end t (int (Suc (Suc n))) None" by (simp add: is_quote_def ac_simps)
    from IH[OF _ this] obtain a r where a: "matched a" "t = a @ 41 # r" "closing (Suc n) r" by auto
    have "matched ((40 # a @ [41]) @ b)" if "matched b" for b
      using matched_parens[OF a(1) that] by simp
    from closing_prefix[OF a(3) this] a(2) s open_paren show ?thesis by simp
  next
    case close_paren
    have "closing n t"
    proof (cases n)
      case 0
      with 1(2) s close_paren show ?thesis by (simp add: is_quote_def)
    next
      case (Suc m)
      with 1(2) s close_paren have "closes_at_end t (int (Suc m)) None" by (simp add: is_quote_def)
      from IH[OF _ this] Suc show ?thesis by simp
    qed
    with s close_paren matched_end have "matched []" "s = [] @ 41 # t" "closing n t" by simp_all
    then show ?thesis unfolding closing.simps by blast
  next
    case char
    with 1(2) s have "closes_at_end t (int (Suc n)) None" by simp
    from closing_prefix[OF IH[OF _ this], of "[c]"] s char matched_char show ?thesis by simp
  qed
qed

lemma wrapped_iff: "wrapped e \<longleftrightarrow> (\<exists>a. matched a \<and> e = 40 # a @ [41])"
proof
  assume "wrapped e"
  then obtain t where t: "e = 40 # t" "closes_at_end t (int (Suc 0)) None"
    by (cases e) (auto simp: wrapped_def is_quote_def)
  from closes_closing[OF t(2)] t(1) show "\<exists>a. matched a \<and> e = 40 # a @ [41]" by auto
next
  assume "\<exists>a. matched a \<and> e = 40 # a @ [41]"
  then show "wrapped e"
    using closes_matched[of _ 1 "[41]"] by (auto simp: wrapped_def is_quote_def)
qed

lemma encloses_unwrap_loop: "trim e = e \<Longrightarrow> encloses e (unwrap_loop e)"
proof (induction e rule: unwrap_loop.induct)
  case (1 e)
  show ?case
  proof (cases "wrapped e")
    case True
    then obtain a where a: "matched a" "e = 40 # a @ [41]" by (auto simp: wrapped_iff)
    with 1(1)[OF True] have "encloses (trim a) (unwrap_loop (trim a))" by simp
    moreover have "encloses a u" if "encloses (trim a) u" for u
      using that by (cases rule: encloses.cases) (auto intro: encloses.intros)
    ultimately have "encloses e (unwrap_loop (trim a))" using encloses_parens[OF _ a(1)] 1(2) a(2) by simp
    with True a(2) show ?thesis by (subst unwrap_loop.simps) simp
  next
    case False
    then show ?thesis using encloses_trim[of e] 1(2) by (subst unwrap_loop.simps) simp
  qed
qed

lemma unwrap_encloses:
  "encloses e u \<Longrightarrow> \<not> wrapped u \<Longrightarrow> unwrapExpressionParens e = u"
proof (induction rule: encloses.induct)
  case (encloses_trim e)
  then show ?case by (simp add: unwrapExpressionParens_def unwrap_loop.simps[of "trim e"])
next
  case (encloses_parens e a u)
  then have "wrapped (trim e)" by (auto simp: wrapped_iff)
  with encloses_parens show ?case
    by (simp add: unwrapExpressionParens_def unwrap_loop.simps[of "40 # a @ [41]"])
qed

lemma unwrap_iff:
  "unwrapExpressionParens e = u \<longleftrightarrow> encloses e u \<and> \<not> (\<exists>a. matched a \<and> u = 40 # a @ [41])"
proof -
  have "encloses e (unwrapExpressionParens e)"
    using encloses_unwrap_loop[of "trim e"] encloses_trim[of e]
    by (cases rule: encloses.cases[OF encloses_unwrap_loop[of "trim e"]])
      (auto simp: unwrapExpressionParens_def intro: encloses_parens)
  then show ?thesis
    using unwrap_encloses[of e u] unwrap_loop_not_wrapped[of "trim e"]
    by (auto simp: wrapped_iff unwrapExpressionParens_def)
qed

end
