(* ===== verification/JsNumber.thy ===== *)
theory JsNumber
  imports Prelude
begin

text \<open>
  The \<open>number\<close> type of the language: IEEE 754 binary64 with the operations the sources use.
  A finite value is the exact rational it denotes; the result of an arithmetic operation is the
  exact rational result rounded to the nearest double, ties to even. Negative zero, the two
  infinities and NaN are separate constructors. All operations compute. The lemmas show that
  rounding is exact on representable values and that every operation keeps values representable.
\<close>

section \<open>Rounding to binary64\<close>

datatype jsnum = NaN | PInf | NInf | NegZero | Fin rat

function int_bits :: "int \<Rightarrow> int" where
  "int_bits n = (if n \<le> 0 then 0 else 1 + int_bits (n div 2))"
  by pat_completeness auto
termination
  by (relation "measure nat") auto

declare int_bits.simps [simp del]

text \<open>Powers of two and ten with any integer exponent, and code equations over the integers.\<close>

definition pow2 :: "int \<Rightarrow> rat" where
  "pow2 k = 2 powi k"

definition pow10 :: "int \<Rightarrow> rat" where
  "pow10 k = 10 powi k"

lemma Fract_inverse_power: "Fract 1 (b ^ n) = inverse (of_int b :: rat) ^ n"
  by (simp add: Fract_of_int_quotient power_inverse inverse_eq_divide[symmetric])

lemma pow2_code [code]:
  "pow2 k = (if 0 \<le> k then of_int (2 ^ nat k) else Fract 1 (2 ^ nat (- k)))"
  by (simp add: pow2_def power_int_def Fract_inverse_power)

lemma pow10_code [code]:
  "pow10 k = (if 0 \<le> k then of_int (10 ^ nat k) else Fract 1 (10 ^ nat (- k)))"
  by (simp add: pow10_def power_int_def Fract_inverse_power)

text \<open>The binary exponent of a positive rational.\<close>

definition ilog2 :: "rat \<Rightarrow> int" where
  "ilog2 q = (let (n, d) = quotient_of q;
                  k = int_bits n - int_bits d
              in if pow2 k \<le> q then k else k - 1)"

definition round_half_even :: "rat \<Rightarrow> int" where
  "round_half_even q = (let f = \<lfloor>q\<rfloor>; r = q - of_int f in
     if r < 1 / 2 then f else if r > 1 / 2 then f + 1 else if even f then f else f + 1)"

definition ulp_exp :: "rat \<Rightarrow> int" where
  "ulp_exp q = max (ilog2 q - 52) (- 1074)"

definition round_mag :: "rat \<Rightarrow> rat" where
  "round_mag q = of_int (round_half_even (q / pow2 (ulp_exp q))) * pow2 (ulp_exp q)"

text \<open>Rounding an exact result; the flag is the sign of a zero result.\<close>

definition to_jsnum :: "bool \<Rightarrow> rat \<Rightarrow> jsnum" where
  "to_jsnum neg q =
     (if q = 0 then (if neg then NegZero else Fin 0)
      else let v = round_mag \<bar>q\<bar> in
        if pow2 1024 \<le> v then (if q < 0 then NInf else PInf)
        else if v = 0 then (if q < 0 then NegZero else Fin 0)
        else Fin (if q < 0 then - v else v))"

definition representable :: "rat \<Rightarrow> bool" where
  "representable q \<longleftrightarrow>
     (\<exists>m e. q = of_int m * 2 powi e \<and> \<bar>m\<bar> < 2 ^ 53 \<and> - 1074 \<le> e \<and> e \<le> 971)"

primrec wf_num :: "jsnum \<Rightarrow> bool" where
  "wf_num NaN = True"
| "wf_num PInf = True"
| "wf_num NInf = True"
| "wf_num NegZero = True"
| "wf_num (Fin q) = representable q"

section \<open>Operations\<close>

primrec is_finite :: "jsnum \<Rightarrow> bool" where
  "is_finite NaN = False"
| "is_finite PInf = False"
| "is_finite NInf = False"
| "is_finite NegZero = True"
| "is_finite (Fin q) = True"

primrec num_val :: "jsnum \<Rightarrow> rat" where
  "num_val NaN = 0"
| "num_val PInf = 0"
| "num_val NInf = 0"
| "num_val NegZero = 0"
| "num_val (Fin q) = q"

primrec sign_bit :: "jsnum \<Rightarrow> bool" where
  "sign_bit NaN = False"
| "sign_bit PInf = False"
| "sign_bit NInf = True"
| "sign_bit NegZero = True"
| "sign_bit (Fin q) = (q < 0)"

definition is_zero :: "jsnum \<Rightarrow> bool" where
  "is_zero a \<longleftrightarrow> is_finite a \<and> num_val a = 0"

definition is_infinite :: "jsnum \<Rightarrow> bool" where
  "is_infinite a \<longleftrightarrow> a = PInf \<or> a = NInf"

definition num_neg :: "jsnum \<Rightarrow> jsnum" where
  "num_neg a = (case a of NaN \<Rightarrow> NaN | PInf \<Rightarrow> NInf | NInf \<Rightarrow> PInf | NegZero \<Rightarrow> Fin 0
     | Fin q \<Rightarrow> if q = 0 then NegZero else Fin (- q))"

definition num_add :: "jsnum \<Rightarrow> jsnum \<Rightarrow> jsnum" where
  "num_add a b =
     (if a = NaN \<or> b = NaN then NaN
      else if is_infinite a then (if is_infinite b \<and> a \<noteq> b then NaN else a)
      else if is_infinite b then b
      else if a = NegZero \<and> b = NegZero then NegZero
      else to_jsnum False (num_val a + num_val b))"

definition num_sub :: "jsnum \<Rightarrow> jsnum \<Rightarrow> jsnum" where
  "num_sub a b = num_add a (num_neg b)"

definition num_mul :: "jsnum \<Rightarrow> jsnum \<Rightarrow> jsnum" where
  "num_mul a b =
     (let neg = (sign_bit a \<noteq> sign_bit b) in
      if a = NaN \<or> b = NaN \<or> (is_infinite a \<and> is_zero b) \<or> (is_zero a \<and> is_infinite b) then NaN
      else if is_infinite a \<or> is_infinite b then (if neg then NInf else PInf)
      else to_jsnum neg (num_val a * num_val b))"

definition num_div :: "jsnum \<Rightarrow> jsnum \<Rightarrow> jsnum" where
  "num_div a b =
     (let neg = (sign_bit a \<noteq> sign_bit b) in
      if a = NaN \<or> b = NaN \<or> (is_infinite a \<and> is_infinite b) \<or> (is_zero a \<and> is_zero b) then NaN
      else if is_infinite a \<or> is_zero b then (if neg then NInf else PInf)
      else if is_infinite b then (if neg then NegZero else Fin 0)
      else to_jsnum neg (num_val a / num_val b))"

definition rat_trunc :: "rat \<Rightarrow> int" where
  "rat_trunc q = (if q < 0 then - \<lfloor>- q\<rfloor> else \<lfloor>q\<rfloor>)"

text \<open>The remainder operator \<open>%\<close> takes the sign of its left operand.\<close>

definition num_rem :: "jsnum \<Rightarrow> jsnum \<Rightarrow> jsnum" where
  "num_rem a b =
     (if a = NaN \<or> b = NaN \<or> is_infinite a \<or> is_zero b then NaN
      else if is_infinite b \<or> is_zero a then a
      else to_jsnum (sign_bit a)
             (num_val a - num_val b * of_int (rat_trunc (num_val a / num_val b))))"

definition num_lt :: "jsnum \<Rightarrow> jsnum \<Rightarrow> bool" where
  "num_lt a b =
     (if a = NaN \<or> b = NaN then False
      else if a = PInf \<or> b = NInf then False
      else if a = NInf \<or> b = PInf then True
      else num_val a < num_val b)"

definition num_le :: "jsnum \<Rightarrow> jsnum \<Rightarrow> bool" where
  "num_le a b = (a \<noteq> NaN \<and> b \<noteq> NaN \<and> \<not> num_lt b a)"

text \<open>Strict equality \<open>===\<close> on numbers: NaN differs from itself, the two zeros are equal.\<close>

definition num_eq :: "jsnum \<Rightarrow> jsnum \<Rightarrow> bool" where
  "num_eq a b =
     (if a = NaN \<or> b = NaN then False
      else if is_finite a \<and> is_finite b then num_val a = num_val b
      else a = b)"

definition num_abs :: "jsnum \<Rightarrow> jsnum" where
  "num_abs a = (if sign_bit a then num_neg a else a)"

definition num_floor :: "jsnum \<Rightarrow> jsnum" where
  "num_floor a = (case a of Fin q \<Rightarrow> to_jsnum False (of_int \<lfloor>q\<rfloor>) | _ \<Rightarrow> a)"

definition num_ceil :: "jsnum \<Rightarrow> jsnum" where
  "num_ceil a = (case a of Fin q \<Rightarrow> to_jsnum (q < 0) (of_int \<lceil>q\<rceil>) | _ \<Rightarrow> a)"

definition num_min :: "jsnum \<Rightarrow> jsnum \<Rightarrow> jsnum" where
  "num_min a b =
     (if a = NaN \<or> b = NaN then NaN
      else if num_lt a b then a else if num_lt b a then b
      else if sign_bit a then a else b)"

definition num_max :: "jsnum \<Rightarrow> jsnum \<Rightarrow> jsnum" where
  "num_max a b =
     (if a = NaN \<or> b = NaN then NaN
      else if num_lt a b then b else if num_lt b a then a
      else if sign_bit a then b else a)"

definition is_integer :: "jsnum \<Rightarrow> bool" where
  "is_integer a \<longleftrightarrow> is_finite a \<and> of_int \<lfloor>num_val a\<rfloor> = num_val a"

definition is_safe_integer :: "jsnum \<Rightarrow> bool" where
  "is_safe_integer a \<longleftrightarrow> is_integer a \<and> \<bar>num_val a\<bar> \<le> 2 ^ 53 - 1"

definition num_of_int :: "int \<Rightarrow> jsnum" where
  "num_of_int n = to_jsnum False (of_int n)"

section \<open>Rounding is correct\<close>

declare pow2_def [simp] pow10_def [simp]

lemma powi_mono: "a \<le> b \<Longrightarrow> (2::rat) powi a \<le> 2 powi b"
  by (rule power_int_increasing) auto

lemma powi_less_imp: "(2::rat) powi a < 2 powi b \<Longrightarrow> a < b"
  using powi_mono[of b a] by linarith

lemma powi_pos [simp]: "(0::rat) < 2 powi k"
  by (rule zero_less_power_int) simp

lemma powi_not_zero [simp]: "(2::rat) powi k \<noteq> 0"
  using powi_pos[of k] by linarith

lemma powi_add: "(2::rat) powi (a + b) = 2 powi a * 2 powi b"
  by (rule power_int_add) simp

lemma powi_diff: "(2::rat) powi (a - b) = 2 powi a / 2 powi b"
  by (rule power_int_diff) simp

lemma powi_nat: "(2::rat) powi (int n) = 2 ^ n"
  by simp

lemma int_bits_bounds:
  "0 < n \<Longrightarrow> (2::rat) powi (int_bits n - 1) \<le> of_int n \<and> of_int n < (2::rat) powi int_bits n"
proof (induction n rule: int_bits.induct)
  case (1 n)
  show ?case
  proof (cases "n div 2 \<le> 0")
    case True
    with 1 have "n = 1" by auto
    then show ?thesis by (simp add: int_bits.simps)
  next
    case False
    define b where "b = int_bits (n div 2)"
    have IH: "(2::rat) powi (b - 1) \<le> of_int (n div 2)" "of_int (n div 2) < (2::rat) powi b"
      using 1 False by (auto simp: b_def)
    have bn: "int_bits n = b + 1" using 1(2) by (simp add: int_bits.simps[of n] b_def)
    have nn: "2 * (n div 2) \<le> n" "n < 2 * (n div 2) + 2" by auto
    have b1: "1 \<le> b"
    proof (rule ccontr)
      assume "\<not> 1 \<le> b"
      then have "(2::rat) powi b \<le> 2 powi 0" by (intro powi_mono) simp
      with IH(2) have "of_int (n div 2) < (1::rat)" by simp
      with False show False by simp
    qed
    have lo: "(2::rat) powi (int_bits n - 1) \<le> of_int n"
    proof -
      have "(2::rat) powi (int_bits n - 1) = 2 * 2 powi (b - 1)" using powi_add[of 1 "b - 1"] by (simp add: bn)
      also have "\<dots> \<le> of_int (2 * (n div 2))" using IH(1) by simp
      also have "\<dots> \<le> of_int n" using nn(1) by (simp only: of_int_le_iff)
      finally show ?thesis .
    qed
    have "(2::rat) powi b = of_int (2 ^ nat b)" using b1 by (simp add: power_int_def)
    with IH(2) have "n div 2 < 2 ^ nat b" by (simp only: of_int_less_iff)
    with nn have "n < 2 * 2 ^ nat b" by linarith
    then have "(of_int n :: rat) < of_int (2 * 2 ^ nat b)" by (simp only: of_int_less_iff)
    also have "\<dots> = 2 * 2 powi b" using b1 by (simp add: power_int_def)
    also have "\<dots> = 2 powi int_bits n" using powi_add[of 1 b] by (simp add: bn add.commute)
    finally show ?thesis using lo by simp
  qed
qed

lemma ilog2_bounds:
  assumes "0 < q"
  shows "2 powi ilog2 q \<le> q \<and> q < 2 powi (ilog2 q + 1)"
proof -
  obtain n d where nd: "quotient_of q = (n, d)" by (cases "quotient_of q")
  then have q: "q = of_int n / of_int d" and d: "0 < d"
    by (auto intro: quotient_of_div quotient_of_denom_pos)
  from assms q d have n: "0 < n" by (simp add: zero_less_divide_iff)
  define bn bd where "bn = int_bits n" and "bd = int_bits d"
  have rn: "(2::rat) powi (bn - 1) \<le> of_int n" "of_int n < (2::rat) powi bn"
    unfolding bn_def using int_bits_bounds[OF n] by auto
  have rd: "(2::rat) powi (bd - 1) \<le> of_int d" "of_int d < (2::rat) powi bd"
    unfolding bd_def using int_bits_bounds[OF d] by auto
  define k where "k = bn - bd"
  have lo: "2 powi (k - 1) \<le> q"
  proof -
    have "(2::rat) powi (k - 1) = 2 powi (bn - 1) / 2 powi bd"
      by (simp add: k_def powi_diff[symmetric] algebra_simps)
    also have "\<dots> \<le> of_int n / of_int d"
      using rn(1) rd(2) d n by (intro frac_le) auto
    finally show ?thesis using q by simp
  qed
  have hi: "q < 2 powi (k + 1)"
  proof -
    have "of_int n / of_int d < 2 powi bn / (2 powi (bd - 1) :: rat)"
      using rn(2) rd(1) d n by (intro frac_less) auto
    also have "\<dots> = (2::rat) powi (k + 1)"
      by (simp add: k_def powi_diff[symmetric] algebra_simps)
    finally show ?thesis using q by simp
  qed
  have "ilog2 q = (if 2 powi k \<le> q then k else k - 1)"
    by (simp add: ilog2_def nd k_def bn_def bd_def)
  with lo hi show ?thesis by auto
qed

lemma ilog2_less:
  assumes "0 < q" and "q < 2 powi k"
  shows "ilog2 q < k"
  using ilog2_bounds[OF assms(1)] assms(2) by (auto intro: powi_less_imp)

lemma round_half_even_int [simp]: "round_half_even (of_int n) = n"
  by (simp add: round_half_even_def)

lemma round_half_even_bounds: "\<lfloor>q\<rfloor> \<le> round_half_even q \<and> round_half_even q \<le> \<lfloor>q\<rfloor> + 1"
  by (auto simp: round_half_even_def Let_def)

lemma round_half_even_near: "\<bar>of_int (round_half_even q) - q\<bar> \<le> 1 / 2"
  by (auto simp: round_half_even_def Let_def abs_if field_simps; linarith)

lemma powi_int_part:
  assumes "a \<le> b"
  shows "(2::rat) powi b = of_int (2 ^ nat (b - a)) * 2 powi a"
proof -
  have "(2::rat) powi b = 2 powi ((b - a) + a)" by simp
  also have "\<dots> = 2 powi (b - a) * 2 powi a" by (rule powi_add)
  also have "(2::rat) powi (b - a) = of_int (2 ^ nat (b - a))"
    using assms by (simp add: power_int_def)
  finally show ?thesis .
qed

lemma round_mag_exact:
  assumes q: "q = of_int m * 2 powi e" and m: "\<bar>m\<bar> < 2 ^ 53" and e: "- 1074 \<le> e" and pos: "0 < q"
  shows "round_mag q = q"
proof -
  have "q < 2 powi 53 * 2 powi e"
  proof -
    have "of_int m < (of_int (2 ^ 53) :: rat)" using m by (subst of_int_less_iff) linarith
    then show ?thesis unfolding q by (intro mult_strict_right_mono) auto
  qed
  then have "ilog2 q < 53 + e" using ilog2_less[OF pos, of "53 + e"] by (simp add: powi_add)
  with e have le: "ulp_exp q \<le> e" by (simp add: ulp_exp_def)
  have "q = of_int (m * 2 ^ nat (e - ulp_exp q)) * 2 powi ulp_exp q"
    unfolding q using powi_int_part[OF le[unfolded q]] by simp
  then have "q / 2 powi ulp_exp q = of_int (m * 2 ^ nat (e - ulp_exp q))"
    by (metis nonzero_mult_div_cancel_right powi_not_zero)
  then have "round_mag q = of_int (m * 2 ^ nat (e - ulp_exp q)) * 2 powi ulp_exp q"
    unfolding round_mag_def pow2_def by (simp only: round_half_even_int)
  then show ?thesis using \<open>q = of_int (m * 2 ^ nat (e - ulp_exp q)) * 2 powi ulp_exp q\<close> by simp
qed

lemma representable_bound:
  assumes "representable q"
  shows "\<bar>q\<bar> < 2 ^ 1024"
proof -
  from assms obtain m e where q: "q = of_int m * 2 powi e" and m: "\<bar>m\<bar> < 2 ^ 53" and e: "e \<le> 971"
    by (auto simp: representable_def)
  have "\<bar>q\<bar> = of_int \<bar>m\<bar> * 2 powi e" by (simp add: q abs_mult)
  also have "\<dots> < of_int (2 ^ 53) * 2 powi e"
    using m by (intro mult_strict_right_mono) (simp_all only: of_int_less_iff powi_pos)
  also have "\<dots> \<le> of_int (2 ^ 53) * 2 powi 971"
    using powi_mono[OF e] by (intro mult_left_mono) auto
  also have "\<dots> = 2 ^ 1024" by simp
  finally show ?thesis .
qed

lemma representable_minus [simp]: "representable (- q) \<longleftrightarrow> representable q"
proof -
  have "representable (- q)" if "representable q" for q
  proof -
    from that obtain m e where "q = of_int m * 2 powi e" "\<bar>m\<bar> < 2 ^ 53" "- 1074 \<le> e" "e \<le> 971"
      by (auto simp: representable_def)
    then have "- q = of_int (- m) * 2 powi e \<and> \<bar>- m\<bar> < 2 ^ 53 \<and> - 1074 \<le> e \<and> e \<le> 971" by simp
    then show ?thesis unfolding representable_def by blast
  qed
  from this[of q] this[of "- q"] show ?thesis by auto
qed

lemma representable_abs [simp]: "representable \<bar>q\<bar> \<longleftrightarrow> representable q"
  by (simp add: abs_if)

text \<open>Rounding leaves representable values alone.\<close>

lemma round_mag_representable: "representable q \<Longrightarrow> 0 < q \<Longrightarrow> round_mag q = q"
  unfolding representable_def by (auto intro: round_mag_exact)

lemma to_jsnum_exact:
  assumes "representable q" and "q \<noteq> 0"
  shows "to_jsnum b q = Fin q"
proof -
  have "round_mag \<bar>q\<bar> = \<bar>q\<bar>" using assms by (intro round_mag_representable) auto
  moreover have "\<not> 2 ^ 1024 \<le> \<bar>q\<bar>" using representable_bound[OF assms(1)] by linarith
  ultimately show ?thesis using assms(2) by (simp add: to_jsnum_def abs_if)
qed

lemma representable_zero [simp]: "representable 0"
  unfolding representable_def by (rule exI[of _ 0], rule exI[of _ 0]) simp

lemma representable_int:
  assumes "\<bar>n\<bar> < 2 ^ 53"
  shows "representable (of_int n)"
  unfolding representable_def using assms by (intro exI[of _ n] exI[of _ 0]) simp

lemma num_of_int_exact: "\<bar>n\<bar> < 2 ^ 53 \<Longrightarrow> num_of_int n = Fin (of_int n)"
proof (cases "n = 0")
  case True
  then show ?thesis by (simp add: num_of_int_def to_jsnum_def)
next
  case False
  assume "\<bar>n\<bar> < 2 ^ 53"
  with False show ?thesis
    unfolding num_of_int_def by (intro to_jsnum_exact representable_int) auto
qed

text \<open>A rounded value is again representable, unless it overflows.\<close>

lemma round_half_even_less:
  assumes "q < of_int n"
  shows "round_half_even q \<le> n"
proof -
  from assms have "\<lfloor>q\<rfloor> < n" by (simp add: floor_less_iff)
  with round_half_even_bounds[of q] show ?thesis by linarith
qed

lemma round_half_even_ge:
  assumes "of_int n \<le> q"
  shows "n \<le> round_half_even q"
proof -
  from assms have "n \<le> \<lfloor>q\<rfloor>" by (simp add: le_floor_iff)
  with round_half_even_bounds[of q] show ?thesis by linarith
qed

lemma round_mag_rep:
  assumes pos: "0 < q" and ov: "round_mag q < 2 ^ 1024"
  shows "representable (round_mag q)"
proof -
  define e M where "e = ulp_exp q" and "M = round_half_even (q / 2 powi e)"
  have v: "round_mag q = of_int M * 2 powi e" by (simp add: round_mag_def e_def M_def)
  have e_ge: "- 1074 \<le> e" by (simp add: e_def ulp_exp_def)
  have "q < 2 powi (ilog2 q + 1)" using ilog2_bounds[OF pos] by simp
  also have "\<dots> \<le> 2 powi (53 + e)" by (rule powi_mono) (simp add: e_def ulp_exp_def)
  finally have "q / 2 powi e < of_int (2 ^ 53)" by (simp add: powi_add divide_less_eq)
  then have M_le: "M \<le> 2 ^ 53" unfolding M_def by (rule round_half_even_less)
  have M_ge: "0 \<le> M" unfolding M_def using pos by (intro round_half_even_ge) simp
  have big: "2 ^ 52 \<le> M" if "e \<noteq> - 1074"
  proof -
    from that have "e = ilog2 q - 52" by (auto simp: e_def ulp_exp_def max_def split: if_splits)
    then have "2 powi (52 + e) \<le> q" using ilog2_bounds[OF pos] by simp
    then have "of_int (2 ^ 52) \<le> q / 2 powi e" by (simp add: powi_add le_divide_eq)
    then show ?thesis unfolding M_def by (rule round_half_even_ge)
  qed
  have e_less: "52 + e < 1024" if "e \<noteq> - 1074"
  proof -
    have "2 powi (52 + e) \<le> round_mag q"
    proof -
      have "of_int (2 ^ 52) * 2 powi e \<le> of_int M * (2::rat) powi e"
        using big[OF that] by (intro mult_right_mono) (simp_all only: of_int_le_iff less_imp_le powi_pos)
      then show ?thesis by (simp add: v powi_add)
    qed
    also have "\<dots> < 2 powi 1024" using ov by simp
    finally show ?thesis by (rule powi_less_imp)
  qed
  show ?thesis
  proof (cases "M = 2 ^ 53")
    case False
    with M_le M_ge e_ge e_less show ?thesis
      unfolding representable_def v by (intro exI[of _ M] exI[of _ e]) force
  next
    case True
    have "of_int M * (2::rat) powi e = of_int (2 ^ 52) * 2 powi (e + 1)"
      by (simp add: True powi_add)
    moreover have "e + 1 \<le> 971"
    proof -
      have "2 powi (53 + e) = round_mag q" by (simp add: v True powi_add)
      also have "\<dots> < 2 powi 1024" using ov by simp
      finally have "53 + e < 1024" by (rule powi_less_imp)
      then show ?thesis by simp
    qed
    moreover have "\<bar>2 ^ 52 :: int\<bar> < 2 ^ 53" by simp
    moreover have "- 1074 \<le> e + 1" using e_ge by simp
    ultimately show ?thesis unfolding representable_def v by blast
  qed
qed

lemma wf_to_jsnum: "wf_num (to_jsnum b q)"
proof (cases "q = 0 \<or> 2 ^ 1024 \<le> round_mag \<bar>q\<bar>")
  case False
  then have "representable (round_mag \<bar>q\<bar>)" by (intro round_mag_rep) auto
  with False show ?thesis by (cases "q < 0") (auto simp: to_jsnum_def Let_def abs_if)
qed (auto simp: to_jsnum_def)

lemma wf_num_of_int [simp]: "wf_num (num_of_int n)"
  by (simp add: num_of_int_def wf_to_jsnum)

text \<open>Every arithmetic operation returns a binary64 value.\<close>

lemma wf_num_neg: "wf_num a \<Longrightarrow> wf_num (num_neg a)"
  by (cases a) (auto simp: num_neg_def)

lemma wf_num_ops:
  assumes "wf_num a" and "wf_num b"
  shows "wf_num (num_add a b)" "wf_num (num_sub a b)" "wf_num (num_mul a b)"
    "wf_num (num_div a b)" "wf_num (num_rem a b)" "wf_num (num_min a b)" "wf_num (num_max a b)"
    "wf_num (num_abs a)" "wf_num (num_floor a)" "wf_num (num_ceil a)"
  using assms wf_num_neg[OF assms(1)] wf_num_neg[OF assms(2)]
  by (auto simp: num_add_def num_sub_def num_mul_def num_div_def num_rem_def num_min_def
      num_max_def num_abs_def num_floor_def num_ceil_def Let_def wf_to_jsnum split: jsnum.splits)

section \<open>Signs and order\<close>

lemma round_mag_nonneg: "0 \<le> q \<Longrightarrow> 0 \<le> round_mag q"
  unfolding round_mag_def by (intro mult_nonneg_nonneg) (auto intro!: round_half_even_ge)

text \<open>A number is a possible price or count when it is finite and not below zero.\<close>

definition nonneg :: "jsnum \<Rightarrow> bool" where
  "nonneg a \<longleftrightarrow> is_finite a \<and> 0 \<le> num_val a"

lemma num_le_zero_iff: "is_finite a \<Longrightarrow> num_lt a (Fin 0) \<longleftrightarrow> num_val a < 0"
  by (cases a) (auto simp: num_lt_def)

lemma nonneg_iff: "nonneg a \<longleftrightarrow> is_finite a \<and> \<not> num_lt a (Fin 0)"
  by (auto simp: nonneg_def num_le_zero_iff)

lemma to_jsnum_nonneg: "0 \<le> q \<Longrightarrow> to_jsnum b q = PInf \<or> nonneg (to_jsnum b q)"
  using round_mag_nonneg[of q] by (auto simp: to_jsnum_def Let_def nonneg_def)

lemma num_add_nonneg:
  assumes "nonneg a" and "nonneg b"
  shows "num_add a b = PInf \<or> nonneg (num_add a b)"
proof -
  from assms have "is_finite a" "is_finite b" and le: "0 \<le> num_val a + num_val b"
    by (auto simp: nonneg_def)
  then have "num_add a b = NegZero \<or> num_add a b = to_jsnum False (num_val a + num_val b)"
    by (cases a; cases b) (auto simp: num_add_def is_infinite_def)
  with to_jsnum_nonneg[OF le, of False] show ?thesis by (auto simp: nonneg_def)
qed

lemma num_mul_nonneg:
  assumes "nonneg a" and "nonneg b"
  shows "num_mul a b = PInf \<or> nonneg (num_mul a b)"
proof -
  from assms have fin: "is_finite a" "is_finite b" and le: "0 \<le> num_val a * num_val b"
    by (auto simp: nonneg_def)
  from fin have "num_mul a b = to_jsnum (sign_bit a \<noteq> sign_bit b) (num_val a * num_val b)"
    by (cases a; cases b) (auto simp: num_mul_def is_infinite_def)
  with to_jsnum_nonneg[OF le] show ?thesis by auto
qed

lemma num_lt_irrefl [simp]: "\<not> num_lt a a"
  by (cases a) (auto simp: num_lt_def)

lemma num_lt_trans: "num_lt a b \<Longrightarrow> num_lt b c \<Longrightarrow> num_lt a c"
  by (cases a; cases b; cases c) (auto simp: num_lt_def)

lemma num_lt_linear: "a \<noteq> NaN \<Longrightarrow> b \<noteq> NaN \<Longrightarrow> num_lt a b \<or> num_eq a b \<or> num_lt b a"
  by (cases a; cases b) (auto simp: num_lt_def num_eq_def)

lemma num_eq_refl [simp]: "num_eq a a \<longleftrightarrow> a \<noteq> NaN"
  by (cases a) (auto simp: num_eq_def)

lemma num_eq_sym: "num_eq a b \<longleftrightarrow> num_eq b a"
  by (cases a; cases b) (auto simp: num_eq_def)

end
