(* ===== verification/JsText.thy ===== *)
theory JsText
  imports JsNumber
begin

text \<open>
  Numbers as text and strings as JSON literals: the numeric regular expressions of the sources,
  \<open>Number(text)\<close> on text they accept, \<open>String(number)\<close> with the shortest digits that read back
  as the same number, \<open>toExponential\<close>, and \<open>JSON.stringify\<close> of a string. The lemmas end in the
  round trip from a finite number through its text.
\<close>

section \<open>Decimal text\<close>

definition digits_val :: "jsstr \<Rightarrow> int" where
  "digits_val ds = foldl (\<lambda>a c. 10 * a + (c - 48)) 0 ds"

function show_nat :: "int \<Rightarrow> jsstr" where
  "show_nat n = (if n < 10 then [48 + n] else show_nat (n div 10) @ [48 + n mod 10])"
  by pat_completeness auto
termination
  by (relation "measure nat") auto

declare show_nat.simps [simp del]

function dec_len :: "int \<Rightarrow> int" where
  "dec_len n = (if n \<le> 0 then 0 else 1 + dec_len (n div 10))"
  by pat_completeness auto
termination
  by (relation "measure nat") auto

declare dec_len.simps [simp del]

definition show_int :: "int \<Rightarrow> jsstr" where
  "show_int n = (if n < 0 then [45] @ show_nat (- n) else show_nat n)"

definition decimal_value :: "jsstr \<Rightarrow> jsstr \<Rightarrow> int \<Rightarrow> rat" where
  "decimal_value ip fp e = of_int (digits_val (ip @ fp)) * pow10 (e - int (length fp))"

subsection \<open>The numeric expressions\<close>

text \<open>
  The expression \<open>(?:\d+(?:\.\d*)?|\.\d+)(?:[eE][+-]?\d+)?\<close> at the front of a text: the matched
  text, its exact value and what follows it.
\<close>

definition scan_mantissa :: "jsstr \<Rightarrow> (jsstr \<times> jsstr \<times> jsstr) option" where
  "scan_mantissa s =
     (let ip = takeWhile is_digit s; r = dropWhile is_digit s in
      case r of
        [] \<Rightarrow> if ip = [] then None else Some (ip, [], [])
      | c # r' \<Rightarrow>
          if c = 46 \<and> (ip \<noteq> [] \<or> takeWhile is_digit r' \<noteq> [])
          then Some (ip, takeWhile is_digit r', dropWhile is_digit r')
          else if ip = [] then None else Some (ip, [], r))"

definition scan_exponent :: "jsstr \<Rightarrow> (int \<times> jsstr) option" where
  "scan_exponent s =
     (case s of
        [] \<Rightarrow> None
      | c # r \<Rightarrow>
          if c = 101 \<or> c = 69 then
            let neg = (r \<noteq> [] \<and> hd r = 45);
                r' = (if r \<noteq> [] \<and> (hd r = 45 \<or> hd r = 43) then tl r else r);
                ds = takeWhile is_digit r'
            in if ds = [] then None
               else Some (if neg then - digits_val ds else digits_val ds,
                          dropWhile is_digit r')
          else None)"

definition match_number :: "jsstr \<Rightarrow> (jsstr \<times> rat \<times> jsstr) option" where
  "match_number s =
     (case scan_mantissa s of
        None \<Rightarrow> None
      | Some (ip, fp, r) \<Rightarrow>
          (let (e, r') = (case scan_exponent r of None \<Rightarrow> (0, r) | Some p \<Rightarrow> p)
           in Some (take (length s - length r') s, decimal_value ip fp e, r')))"

text \<open>The whole text is one numeric literal: the anchored expression \<open>^...$\<close>.\<close>

definition parse_unsigned :: "jsstr \<Rightarrow> rat option" where
  "parse_unsigned s =
     (case match_number s of Some (t, v, []) \<Rightarrow> Some v | _ \<Rightarrow> None)"

text \<open>\<open>Number(text)\<close> for such a text.\<close>

definition number_of_text :: "jsstr \<Rightarrow> jsnum option" where
  "number_of_text s = map_option (to_jsnum False) (parse_unsigned s)"

section \<open>Numbers to text\<close>

definition dec_exp :: "rat \<Rightarrow> int" where
  "dec_exp x = (if 1 \<le> x then dec_len \<lfloor>x\<rfloor>
                else 1 - dec_len (\<lceil>1 / x\<rceil> - 1))"

definition reads_back :: "rat \<Rightarrow> int \<Rightarrow> nat \<Rightarrow> int \<Rightarrow> bool" where
  "reads_back x n k s \<longleftrightarrow> 0 < s \<and> to_jsnum False (of_int s * pow10 (n - int k)) = Fin x"

text \<open>
  The search of \<open>Number::toString\<close>: the least number of digits \<open>k\<close> for which some \<open>k\<close>-digit
  \<open>s\<close> reads back as the number, taking the closer of the two neighbours. A double has at most
  1383 significant decimal digits, so the bound is never reached.
\<close>

definition max_digits :: nat where
  "max_digits = 1400"

function shortest :: "rat \<Rightarrow> int \<Rightarrow> nat \<Rightarrow> int \<times> nat" where
  "shortest x n k =
     (let u = pow10 (n - int k); lo = \<lfloor>x / u\<rfloor>;
          up = reads_back x n k (lo + 1); down = reads_back x n k lo
      in if max_digits \<le> k then (lo, k)
         else if down \<and> (\<not> up \<or> x - of_int lo * u \<le> of_int (lo + 1) * u - x) then (lo, k)
         else if up then (lo + 1, k)
         else shortest x n (Suc k))"
  by pat_completeness auto
termination
  by (relation "measure (\<lambda>(x, n, k). max_digits - k)") auto

declare shortest.simps [simp del]

text \<open>Digits and decimal exponent of a positive number: \<open>s\<close> has exactly \<open>k\<close> digits.\<close>

definition decimal_digits :: "rat \<Rightarrow> jsstr \<times> int" where
  "decimal_digits x =
     (let n = dec_exp x; (s, k) = shortest x n 1
      in if s = 10 ^ k then (show_nat (s div 10), n + 1) else (show_nat s, n))"

definition exp_text :: "jsstr \<Rightarrow> int \<Rightarrow> jsstr" where
  "exp_text ds e =
     (if length ds = 1 then ds else take 1 ds @ [46] @ drop 1 ds) @ [101] @
     [if e < 0 then 45 else 43] @ show_nat \<bar>e\<bar>"

definition layout_digits :: "jsstr \<Rightarrow> int \<Rightarrow> jsstr" where
  "layout_digits ds n =
     (let k = int (length ds) in
      if k \<le> n \<and> n \<le> 21 then ds @ replicate (nat (n - k)) 48
      else if 0 < n \<and> n \<le> 21 then take (nat n) ds @ [46] @ drop (nat n) ds
      else if - 6 < n \<and> n \<le> 0 then [48, 46] @ replicate (nat (- n)) 48 @ ds
      else exp_text ds (n - 1))"

definition show_pos :: "rat \<Rightarrow> jsstr" where
  "show_pos x = (let (ds, n) = decimal_digits x in layout_digits ds n)"

definition num_to_string :: "jsnum \<Rightarrow> jsstr" where
  "num_to_string a =
     (case a of NaN \<Rightarrow> js ''NaN'' | PInf \<Rightarrow> js ''Infinity'' | NInf \<Rightarrow> js ''-Infinity''
      | NegZero \<Rightarrow> js ''0''
      | Fin q \<Rightarrow> if q = 0 then js ''0'' else if q < 0 then [45] @ show_pos (- q) else show_pos q)"

section \<open>JSON string literals\<close>

definition hex_digit :: "int \<Rightarrow> jschar" where
  "hex_digit d = (if d < 10 then 48 + d else 87 + d)"

definition hex4 :: "int \<Rightarrow> jsstr" where
  "hex4 c = [hex_digit (c div 4096 mod 16), hex_digit (c div 256 mod 16),
             hex_digit (c div 16 mod 16), hex_digit (c mod 16)]"

definition is_high_surrogate :: "jschar \<Rightarrow> bool" where
  "is_high_surrogate c \<longleftrightarrow> 55296 \<le> c \<and> c \<le> 56319"

definition is_low_surrogate :: "jschar \<Rightarrow> bool" where
  "is_low_surrogate c \<longleftrightarrow> 56320 \<le> c \<and> c \<le> 57343"

definition quote_char :: "jschar \<Rightarrow> jsstr" where
  "quote_char c =
     (if c = 34 then [92, 34] else if c = 92 then [92, 92]
      else if c = 8 then [92, 98] else if c = 9 then [92, 116] else if c = 10 then [92, 110]
      else if c = 12 then [92, 102] else if c = 13 then [92, 114]
      else if c < 32 then [92, 117] @ hex4 c
      else [c])"

fun quote_body :: "jsstr \<Rightarrow> jsstr" where
  "quote_body [] = []"
| "quote_body [c] =
     (if is_high_surrogate c \<or> is_low_surrogate c then [92, 117] @ hex4 c else quote_char c)"
| "quote_body (c # d # s) =
     (if is_high_surrogate c \<and> is_low_surrogate d then c # d # quote_body s
      else if is_high_surrogate c \<or> is_low_surrogate c then [92, 117] @ hex4 c @ quote_body (d # s)
      else quote_char c @ quote_body (d # s))"

text \<open>\<open>JSON.stringify(s)\<close> for a string \<open>s\<close>.\<close>

definition json_quote :: "jsstr \<Rightarrow> jsstr" where
  "json_quote s = [34] @ quote_body s @ [34]"

section \<open>Reading decimal digits\<close>

definition all_digits :: "jsstr \<Rightarrow> bool" where
  "all_digits ds \<longleftrightarrow> list_all is_digit ds"

lemma all_digits_simps [simp]:
  "all_digits []" "all_digits (c # s) \<longleftrightarrow> is_digit c \<and> all_digits s"
  "all_digits (a @ b) \<longleftrightarrow> all_digits a \<and> all_digits b"
  "all_digits (replicate n 48)"
  by (auto simp: all_digits_def list_all_iff is_digit_def)

lemma all_digits_takeWhile [simp]: "all_digits (takeWhile is_digit s)"
  by (auto simp: all_digits_def list_all_iff dest: set_takeWhileD)

lemma all_digits_take_drop [simp]:
  "all_digits ds \<Longrightarrow> all_digits (take k ds)" "all_digits ds \<Longrightarrow> all_digits (drop k ds)"
  by (auto simp: all_digits_def list_all_iff dest: in_set_takeD in_set_dropD)

lemma takeWhile_digits [simp]:
  assumes "all_digits ds"
  shows "takeWhile is_digit (ds @ r) = ds @ takeWhile is_digit r"
    "dropWhile is_digit (ds @ r) = dropWhile is_digit r"
  using assms by (induction ds) auto

lemma takeWhile_all_digits [simp]:
  assumes "all_digits ds"
  shows "takeWhile is_digit ds = ds" "dropWhile is_digit ds = []"
  using takeWhile_digits[OF assms, of "[]"] by auto

lemma digits_val_append: "digits_val (a @ b) = digits_val a * 10 ^ length b + digits_val b"
proof (induction b rule: rev_induct)
  case Nil
  then show ?case by (simp add: digits_val_def)
next
  case (snoc c b)
  have "digits_val (a @ b @ [c]) = 10 * digits_val (a @ b) + (c - 48)"
    by (simp add: digits_val_def)
  moreover have "digits_val (b @ [c]) = 10 * digits_val b + (c - 48)"
    by (simp add: digits_val_def)
  ultimately show ?case using snoc by (simp add: algebra_simps)
qed

lemma digits_val_single [simp]: "digits_val [c] = c - 48"
  by (simp add: digits_val_def)

lemma digits_val_Nil [simp]: "digits_val [] = 0"
  by (simp add: digits_val_def)

lemma digits_val_zeros [simp]: "digits_val (replicate k 48) = 0"
  by (induction k) (auto simp: digits_val_append[of "[48]", simplified])

lemma show_nat_digits [simp]: "0 \<le> n \<Longrightarrow> all_digits (show_nat n)"
proof (induction n rule: show_nat.induct)
  case (1 n)
  then show ?case by (subst show_nat.simps) (auto simp: is_digit_def)
qed

lemma digits_val_show_nat [simp]: "0 \<le> n \<Longrightarrow> digits_val (show_nat n) = n"
proof (induction n rule: show_nat.induct)
  case (1 n)
  then show ?case by (subst show_nat.simps) (auto simp: digits_val_append)
qed

lemma show_nat_not_Nil [simp]: "show_nat n \<noteq> []"
  by (subst show_nat.simps) auto

lemma length_show_nat:
  assumes "10 ^ k \<le> n" and "n < 10 ^ Suc k"
  shows "length (show_nat n) = Suc k"
  using assms
proof (induction k arbitrary: n)
  case 0
  then show ?case by (subst show_nat.simps) auto
next
  case (Suc k)
  have "10 ^ k \<le> n div 10" using Suc.prems(1) by (simp add: less_eq_div_iff_mult_less_eq)
  moreover have "n div 10 < 10 ^ Suc k" using Suc.prems(2) by (simp add: less_mult_imp_div_less)
  ultimately have "length (show_nat (n div 10)) = Suc k" by (rule Suc.IH)
  moreover have "\<not> n < 10"
  proof -
    have "(10::int) ^ 1 \<le> 10 ^ Suc k" by (rule power_increasing) auto
    also note Suc.prems(1)
    finally show ?thesis by simp
  qed
  ultimately show ?case by (subst show_nat.simps) simp
qed

lemma hd_not_digit_takeWhile: "r = [] \<or> \<not> is_digit (hd r) \<Longrightarrow> takeWhile is_digit r = []"
  by (cases r) auto

lemma hd_not_digit_dropWhile: "r = [] \<or> \<not> is_digit (hd r) \<Longrightarrow> dropWhile is_digit r = r"
  by (cases r) auto

lemmas no_digit = hd_not_digit_takeWhile hd_not_digit_dropWhile

lemma parse_unsigned_int:
  assumes "all_digits ds" and "ds \<noteq> []"
  shows "parse_unsigned ds = Some (decimal_value ds [] 0)"
  using assms
  by (simp add: parse_unsigned_def match_number_def scan_mantissa_def scan_exponent_def)

lemma parse_unsigned_point:
  assumes "all_digits ip" and "all_digits fp" and "ip \<noteq> []"
  shows "parse_unsigned (ip @ [46] @ fp) = Some (decimal_value ip fp 0)"
  using assms
  by (simp add: parse_unsigned_def match_number_def scan_mantissa_def scan_exponent_def is_digit_def)

lemma parse_unsigned_exp:
  assumes ip: "all_digits ip" "ip \<noteq> []" and fp: "all_digits fp" and ds: "all_digits ds" "ds \<noteq> []"
    and sg: "sg = 43 \<or> sg = 45" and m: "m = (if fp = [] then ip else ip @ [46] @ fp)"
  shows "parse_unsigned (m @ [101, sg] @ ds) =
    Some (decimal_value ip fp (if sg = 45 then - digits_val ds else digits_val ds))"
proof -
  have ne: "\<not> is_digit 101" "\<not> is_digit 46" by (auto simp: is_digit_def)
  have "scan_mantissa (m @ [101, sg] @ ds) = Some (ip, fp, [101, sg] @ ds)"
    using ip fp ne by (auto simp: scan_mantissa_def m)
  moreover have "scan_exponent ([101, sg] @ ds) =
    Some (if sg = 45 then - digits_val ds else digits_val ds, [])"
    using sg ds by (auto simp: scan_exponent_def)
  ultimately show ?thesis by (simp add: parse_unsigned_def match_number_def)
qed

lemma decimal_value_shift:
  "decimal_value ip fp e = of_int (digits_val (ip @ fp)) * 10 powi (e - int (length fp))"
  by (simp add: decimal_value_def)

lemma exp_text_reads:
  assumes "all_digits ds" and "ds \<noteq> []"
  shows "parse_unsigned (exp_text ds e) = Some (of_int (digits_val ds) * 10 powi (e + 1 - int (length ds)))"
proof -
  define ip fp where "ip = take 1 ds" and "fp = drop 1 ds"
  have l: "length fp = length ds - 1" by (simp add: fp_def)
  have d: "ip @ fp = ds" by (simp add: ip_def fp_def)
  have ln: "0 < length ds" using assms(2) by simp
  have "exp_text ds e = (if fp = [] then ip else ip @ [46] @ fp) @ [101, if e < 0 then 45 else 43] @
      show_nat \<bar>e\<bar>"
    using assms(2) ln by (cases ds) (auto simp: exp_text_def ip_def fp_def)
  then have "parse_unsigned (exp_text ds e) = Some (decimal_value ip fp
      (if (if e < 0 then 45 else 43 :: int) = 45 then - digits_val (show_nat \<bar>e\<bar>)
       else digits_val (show_nat \<bar>e\<bar>)))"
    using assms parse_unsigned_exp[of ip fp "show_nat \<bar>e\<bar>" "if e < 0 then 45 else 43"]
    by (simp add: ip_def fp_def)
  also have "\<dots> = Some (decimal_value ip fp e)" by simp
  also have "\<dots> = Some (of_int (digits_val ds) * 10 powi (e + 1 - int (length ds)))"
  proof -
    have "e - int (length fp) = e + 1 - int (length ds)" using ln l by linarith
    then show ?thesis by (simp only: decimal_value_shift d)
  qed
  finally show ?thesis .
qed

lemma layout_digits_reads:
  assumes ds: "all_digits ds" "ds \<noteq> []"
  shows "parse_unsigned (layout_digits ds n) =
    Some (of_int (digits_val ds) * 10 powi (n - int (length ds)))"
proof -
  consider (a) "int (length ds) \<le> n" "n \<le> 21"
    | (b) "\<not> int (length ds) \<le> n" "0 < n" "n \<le> 21"
    | (c) "\<not> int (length ds) \<le> n" "- 6 < n" "n \<le> 0"
    | (d) "layout_digits ds n = exp_text ds (n - 1)"
    by (cases "int (length ds) \<le> n"; cases "n \<le> 21"; cases "0 < n"; cases "- 6 < n")
      (simp_all add: layout_digits_def Let_def)
  then show ?thesis
  proof cases
    case a
    let ?z = "replicate (nat (n - int (length ds))) 48"
    have "layout_digits ds n = ds @ ?z" using a by (simp add: layout_digits_def)
    moreover have "parse_unsigned (ds @ ?z) = Some (decimal_value (ds @ ?z) [] 0)"
      using ds by (intro parse_unsigned_int) auto
    ultimately show ?thesis
      using a by (simp add: decimal_value_def digits_val_append power_int_def)
  next
    case b
    have "layout_digits ds n = take (nat n) ds @ [46] @ drop (nat n) ds"
      using b by (simp add: layout_digits_def)
    moreover have "parse_unsigned (take (nat n) ds @ [46] @ drop (nat n) ds) =
        Some (decimal_value (take (nat n) ds) (drop (nat n) ds) 0)"
      using ds b by (intro parse_unsigned_point) auto
    ultimately show ?thesis
      using b by (simp add: decimal_value_def of_nat_diff)
  next
    case c
    let ?z = "replicate (nat (- n)) 48"
    have "layout_digits ds n = [48] @ [46] @ (?z @ ds)"
      using c by (simp add: layout_digits_def)
    moreover have "parse_unsigned ([48] @ [46] @ (?z @ ds)) = Some (decimal_value [48] (?z @ ds) 0)"
      using ds by (intro parse_unsigned_point) (auto simp: is_digit_def)
    moreover have "digits_val ([48] @ ?z @ ds) = digits_val ds"
      by (simp add: digits_val_append[of "[48]", simplified] digits_val_append)
    ultimately show ?thesis
      using c by (simp add: decimal_value_def)
  next
    case d
    then show ?thesis using exp_text_reads[OF ds, of "n - 1"] by simp
  qed
qed

section \<open>The shortest digits exist\<close>

lemma powi10_pos [simp]: "(0::rat) < 10 powi k"
  by (rule zero_less_power_int) simp

lemma powi10_not_zero [simp]: "(10::rat) powi k \<noteq> 0"
  using powi10_pos[of k] by linarith

lemma powi10_add: "(10::rat) powi (a + b) = 10 powi a * 10 powi b"
  by (rule power_int_add) simp

lemma powi10_diff: "(10::rat) powi (a - b) = 10 powi a / 10 powi b"
  by (rule power_int_diff) simp

lemma powi10_mono: "a \<le> b \<Longrightarrow> (10::rat) powi a \<le> 10 powi b"
  by (rule power_int_increasing) auto

lemma powi10_less_imp: "(10::rat) powi a < 10 powi b \<Longrightarrow> a < b"
  using powi10_mono[of b a] by linarith

lemma dec_len_bounds: "0 < n \<Longrightarrow> 1 \<le> dec_len n \<and> 10 ^ nat (dec_len n - 1) \<le> n \<and> n < 10 ^ nat (dec_len n)"
proof (induction n rule: dec_len.induct)
  case (1 n)
  show ?case
  proof (cases "n div 10 \<le> 0")
    case True
    then have "dec_len n = 1" using 1(2) by (simp add: dec_len.simps[of n] dec_len.simps[of "n div 10"] dec_len.simps[of 0])
    with True 1(2) show ?thesis by auto
  next
    case False
    then have IH: "10 ^ nat (dec_len (n div 10) - 1) \<le> n div 10" "n div 10 < 10 ^ nat (dec_len (n div 10))"
      "1 \<le> dec_len (n div 10)" using 1 by auto
    define b where "b = nat (dec_len (n div 10) - 1)"
    have b: "dec_len (n div 10) = 1 + int b" using IH(3) by (simp add: b_def)
    have "dec_len n = 2 + int b" using 1(2) b by (simp add: dec_len.simps[of n])
    then have "nat (dec_len n - 1) = Suc b" "nat (dec_len n) = Suc (Suc b)" "1 \<le> dec_len n" by auto
    moreover have "10 ^ b \<le> n div 10" "n div 10 < 10 * 10 ^ b"
      using IH(1,2) by (simp_all add: b nat_add_distrib)
    ultimately show ?thesis by auto
  qed
qed

lemma dec_len_rat:
  assumes "0 < m"
  shows "(10::rat) powi (dec_len m - 1) \<le> of_int m" and "of_int (m + 1) \<le> (10::rat) powi dec_len m"
proof -
  note b = dec_len_bounds[OF assms]
  have "(of_int (10 ^ nat (dec_len m - 1)) :: rat) \<le> of_int m" using b by (simp only: of_int_le_iff)
  then show "(10::rat) powi (dec_len m - 1) \<le> of_int m" using b by (simp add: power_int_def)
  have "m + 1 \<le> 10 ^ nat (dec_len m)" using b by linarith
  then have "(of_int (m + 1) :: rat) \<le> of_int (10 ^ nat (dec_len m))" by (simp only: of_int_le_iff)
  then show "of_int (m + 1) \<le> (10::rat) powi dec_len m" using b by (simp add: power_int_def)
qed

lemma dec_exp_bounds:
  assumes "0 < x"
  shows "10 powi (dec_exp x - 1) \<le> x \<and> x < 10 powi dec_exp x"
proof (cases "1 \<le> x")
  case True
  define m where "m = \<lfloor>x\<rfloor>"
  have m0: "0 < m" using True by (simp add: m_def)
  have x: "of_int m \<le> x" "x < of_int (m + 1)" using floor_correct[of x] by (auto simp: m_def)
  have e: "dec_exp x = dec_len m" using True by (simp add: dec_exp_def m_def)
  show ?thesis using dec_len_rat[OF m0] x unfolding e by linarith
next
  case False
  define y where "y = 1 / x"
  have y: "1 < y" and xy: "x = 1 / y" using assms False by (auto simp: y_def)
  define m where "m = \<lceil>y\<rceil> - 1"
  have m0: "0 < m" using y by (simp add: m_def)
  have m: "of_int m < y" "y \<le> of_int (m + 1)" by (auto simp: m_def; linarith)+
  have e: "dec_exp x = 1 - dec_len m" using False by (simp add: dec_exp_def m_def y_def)
  have hi: "y \<le> 10 powi dec_len m" and lo: "10 powi (dec_len m - 1) < y"
    using dec_len_rat[OF m0] m by linarith+
  have "10 powi (dec_exp x - 1) = 1 / (10::rat) powi dec_len m"
    by (simp add: e power_int_minus_divide)
  also have "\<dots> \<le> 1 / y" using hi y by (intro divide_left_mono) auto
  finally have 1: "10 powi (dec_exp x - 1) \<le> x" using xy by simp
  have "1 / y < 1 / (10 powi (dec_len m - 1) :: rat)"
    using lo y by (intro divide_strict_left_mono) auto
  also have "\<dots> = 10 powi dec_exp x"
    by (simp add: e power_int_minus_divide[symmetric])
  finally have "x < 10 powi dec_exp x" using xy by simp
  with 1 show ?thesis by simp
qed

text \<open>No double needs more decimal places than this.\<close>

definition frac_digits :: nat where
  "frac_digits = 1074"

lemma pow10_split: "(10::rat) ^ n = of_int (2 ^ n) * of_int (5 ^ n)"
  by (simp add: power_mult_distrib[symmetric])

lemma representable_scaled_int:
  assumes "representable x"
  shows "of_int \<lfloor>x * 10 ^ frac_digits\<rfloor> = x * 10 ^ frac_digits"
proof -
  from assms obtain m e where x: "x = of_int m * 2 powi e" and e: "- int frac_digits \<le> e"
    by (auto simp: representable_def frac_digits_def)
  have "(2::rat) powi e * of_int (2 ^ frac_digits) = 2 powi (e + int frac_digits)"
    by (simp add: powi_add)
  also have "\<dots> = of_int (2 ^ nat (e + int frac_digits))" using e by (simp add: power_int_def)
  finally have p: "(2::rat) powi e * of_int (2 ^ frac_digits) = of_int (2 ^ nat (e + int frac_digits))" .
  have "x * 10 ^ frac_digits = of_int m * (2 powi e * of_int (2 ^ frac_digits)) * of_int (5 ^ frac_digits)"
    unfolding x pow10_split by (simp only: ac_simps)
  also have "\<dots> = of_int (m * 2 ^ nat (e + int frac_digits) * 5 ^ frac_digits)"
    unfolding p by (simp only: of_int_mult)
  finally show ?thesis by (simp only: floor_of_int)
qed

lemma representable_pos_bounds:
  assumes "representable x" and "0 < x"
  shows "2 powi (- 1074) \<le> x"
proof -
  from assms obtain m e where x: "x = of_int m * 2 powi e" and e: "- 1074 \<le> e"
    by (auto simp: representable_def)
  have "0 < m"
  proof (rule ccontr)
    assume "\<not> 0 < m"
    then have "of_int m * (2::rat) powi e \<le> 0"
      by (intro mult_nonpos_nonneg) (simp_all add: less_imp_le)
    with assms(2) x show False by simp
  qed
  then have "(1::rat) \<le> of_int m" by simp
  then have "1 * 2 powi (- 1074) \<le> of_int m * (2::rat) powi e"
    using powi_mono[OF e] by (intro mult_mono) (auto simp: less_imp_le)
  then show ?thesis by (simp add: x)
qed

lemma dec_exp_range:
  assumes "representable x" and "0 < x"
  shows "- 323 \<le> dec_exp x \<and> dec_exp x \<le> 309"
proof -
  note b = dec_exp_bounds[OF assms(2)]
  have "(1::rat) / 10 ^ 324 < 1 / 2 ^ 1074" by (intro divide_strict_left_mono) simp_all
  then have "(10::rat) powi (- 324) < 2 powi (- 1074)" by (simp add: power_int_minus_divide)
  also have "\<dots> \<le> x" by (rule representable_pos_bounds[OF assms])
  also have "\<dots> < 10 powi dec_exp x" using b by simp
  finally have "- 324 < dec_exp x" by (rule powi10_less_imp)
  moreover have "dec_exp x - 1 < 309"
  proof (rule powi10_less_imp)
    have "10 powi (dec_exp x - 1) \<le> x" using b by simp
    also have "x < 2 ^ 1024" using representable_bound[OF assms(1)] assms(2) by simp
    also have "\<dots> \<le> (10::rat) powi 309" by simp
    finally show "10 powi (dec_exp x - 1) < (10::rat) powi 309" .
  qed
  ultimately show ?thesis by linarith
qed

text \<open>The search stops, and the digits it returns read back as the number.\<close>

lemma shortest_reads_back:
  assumes "reads_back x n K \<lfloor>x / 10 powi (n - int K)\<rfloor>" and "k \<le> K" and "K < max_digits"
  shows "case shortest x n k of (s, k') \<Rightarrow> reads_back x n k' s \<and> k \<le> k' \<and>
    (s = \<lfloor>x / 10 powi (n - int k')\<rfloor> \<or> s = \<lfloor>x / 10 powi (n - int k')\<rfloor> + 1)"
  using assms(2)
proof (induction "K - k" arbitrary: k)
  case 0
  then have "k = K" by simp
  with assms(1,3) show ?case by (subst shortest.simps) (auto simp: Let_def)
next
  case (Suc d)
  let ?lo = "\<lfloor>x / 10 powi (n - int k)\<rfloor>"
  show ?case
  proof (cases "reads_back x n k ?lo \<or> reads_back x n k (?lo + 1)")
    case True
    with Suc.prems assms(3) show ?thesis by (subst shortest.simps) (auto simp: Let_def)
  next
    case False
    have "shortest x n k = shortest x n (Suc k)"
      using False Suc.prems assms(3) by (subst shortest.simps) (simp add: Let_def)
    moreover have "d = K - Suc k" "Suc k \<le> K" using Suc.hyps(2) by auto
    ultimately show ?thesis using Suc.hyps(1)[of "Suc k"] by (auto split: prod.splits)
  qed
qed

lemma show_pos_reads:
  assumes rep: "representable x" and pos: "0 < x"
  shows "number_of_text (show_pos x) = Some (Fin x)"
proof -
  define n where "n = dec_exp x"
  have n: "- 323 \<le> n" "n \<le> 309" using dec_exp_range[OF assms] by (auto simp: n_def)
  have xb: "10 powi (n - 1) \<le> x" "x < 10 powi n" using dec_exp_bounds[OF pos] by (auto simp: n_def)
  define K where "K = nat (n + 1074)"
  have K: "1 \<le> K" "K < max_digits" using n by (auto simp: K_def max_digits_def)
  have u: "(10::rat) powi (n - int K) = 1 / 10 ^ frac_digits"
  proof -
    have "n - int K = - int frac_digits" using n by (simp add: K_def frac_digits_def)
    then show ?thesis by (simp only: power_int_minus_divide power_int_of_nat)
  qed
  have "of_int \<lfloor>x / 10 powi (n - int K)\<rfloor> = x / (10::rat) powi (n - int K)"
    unfolding u using representable_scaled_int[OF rep] by simp
  then have ex: "of_int \<lfloor>x / 10 powi (n - int K)\<rfloor> * (10::rat) powi (n - int K) = x"
    by (simp del: of_int_floor_cancel)
  moreover have "0 < \<lfloor>x / 10 powi (n - int K)\<rfloor>"
  proof (rule ccontr)
    assume "\<not> ?thesis"
    then have "of_int \<lfloor>x / 10 powi (n - int K)\<rfloor> \<le> (0::rat)" by simp
    then have "of_int \<lfloor>x / 10 powi (n - int K)\<rfloor> * (10::rat) powi (n - int K) \<le> 0"
      by (intro mult_nonpos_nonneg) (simp_all add: less_imp_le)
    with ex pos show False by simp
  qed
  ultimately have "reads_back x n K \<lfloor>x / 10 powi (n - int K)\<rfloor>"
    unfolding reads_back_def using to_jsnum_exact[OF rep] pos by simp
  from shortest_reads_back[OF this K] obtain s k where sh: "shortest x n 1 = (s, k)"
    and rb: "reads_back x n k s" and k: "1 \<le> k"
    and s: "s = \<lfloor>x / 10 powi (n - int k)\<rfloor> \<or> s = \<lfloor>x / 10 powi (n - int k)\<rfloor> + 1"
    by (auto split: prod.splits)
  have s0: "0 \<le> s" "0 \<le> s div 10" using rb by (auto simp: reads_back_def)
  have sh': "shortest x n (Suc 0) = (s, k)" using sh by simp
  have "x / 10 powi (n - int k) < 10 ^ k"
    using xb(2) by (simp add: powi10_diff field_simps)
  then have "x / 10 powi (n - int k) < of_int (10 ^ k)" by simp
  then have hi: "\<lfloor>x / 10 powi (n - int k)\<rfloor> < 10 ^ k" by (simp only: floor_less_iff)
  obtain j where j: "k = Suc j" using k by (cases k) auto
  have "of_int (10 ^ j) \<le> x / 10 powi (n - int k)"
    using xb(1) by (simp add: j powi10_diff powi10_add field_simps)
  then have lo: "10 ^ j \<le> \<lfloor>x / 10 powi (n - int k)\<rfloor>" by (simp only: le_floor_iff)
  from s lo hi have sb: "10 ^ j \<le> s" "s \<le> 10 ^ k" by auto
  have val: "to_jsnum False (of_int s * 10 powi (n - int k)) = Fin x"
    using rb by (simp add: reads_back_def)
  show ?thesis
  proof (cases "s = 10 ^ k")
    case True
    have len: "length (show_nat (s div 10)) = k"
      unfolding j by (rule length_show_nat) (auto simp: True j)
    have "show_pos x = layout_digits (show_nat (s div 10)) (n + 1)"
      using True by (simp add: show_pos_def decimal_digits_def n_def[symmetric] sh')
    then have "parse_unsigned (show_pos x) =
        Some (of_int (s div 10) * 10 powi (n + 1 - int k))"
      using layout_digits_reads[of "show_nat (s div 10)" "n + 1"] len s0 by simp
    also have "of_int (s div 10) * (10::rat) powi (n + 1 - int k) = of_int s * 10 powi (n - int k)"
      by (simp add: True j powi10_diff powi10_add field_simps)
    finally show ?thesis using val by (simp add: number_of_text_def)
  next
    case False
    have len: "length (show_nat s) = k"
      unfolding j using sb False by (intro length_show_nat) (auto simp: j)
    have "show_pos x = layout_digits (show_nat s) n"
      using False by (simp add: show_pos_def decimal_digits_def n_def[symmetric] sh')
    then have "parse_unsigned (show_pos x) = Some (of_int s * 10 powi (n - int k))"
      using layout_digits_reads[of "show_nat s" n] len s0 by simp
    then show ?thesis using val by (simp add: number_of_text_def)
  qed
qed

text \<open>A finite number at least zero is read back from its text unchanged.\<close>

lemma number_roundtrip:
  assumes "representable q" and "0 \<le> q"
  shows "number_of_text (num_to_string (Fin q)) = Some (Fin q)"
proof (cases "q = 0")
  case True
  have "parse_unsigned [48] = Some (decimal_value [48] [] 0)"
    by (rule parse_unsigned_int) (auto simp: is_digit_def)
  then have "parse_unsigned (js ''0'') = Some 0" by (simp add: js_eval decimal_value_def)
  with True show ?thesis by (simp add: num_to_string_def number_of_text_def to_jsnum_def)
next
  case False
  with assms show ?thesis by (simp add: num_to_string_def show_pos_reads)
qed

end
