(* ===== verification/ExprTypes.thy ===== *)
theory ExprTypes
  imports JsText
begin

text \<open>
  The billing expression language as \<open>billing-expression/types.ts\<close> has it: the name tables, the
  syntax tree with its source spans, diagnostics and how a thrown error becomes a failure
  result, the bounded stack traversal \<open>visitExpression\<close> and the dependency scan built on it.
  The traversal is shown equal to a recursive postorder walk for every tree within the depth
  bound, and to stop with the depth diagnostic or a visitor's error otherwise.
\<close>

section \<open>Names\<close>

definition token_variables :: "jsstr list" where
  "token_variables = [js ''p'', js ''c'', js ''len'', js ''cr'', js ''cc'', js ''cc1h'', js ''img'',
     js ''img_cr'', js ''img_o'', js ''ai'', js ''ao'']"

definition billing_variables :: "jsstr list" where
  "billing_variables = token_variables @ [js ''image_count'']"

definition time_functions :: "jsstr list" where
  "time_functions = [js ''hour'', js ''minute'', js ''weekday'', js ''month'', js ''day'']"

definition billing_functions :: "(jsstr, nat) orec" where
  "billing_functions =
     [(js ''tier'', 2), (js ''fixed'', 1), (js ''param'', 1), (js ''header'', 1), (js ''has'', 2),
      (js ''u'', 1), (js ''hour'', 1), (js ''minute'', 1), (js ''weekday'', 1), (js ''month'', 1),
      (js ''day'', 1), (js ''min'', 2), (js ''max'', 2), (js ''abs'', 1), (js ''ceil'', 1),
      (js ''floor'', 1)]"

section \<open>Syntax trees\<close>

datatype literal = LNull | LBool bool | LNum jsnum | LStr jsstr

text \<open>
  Every node carries the half-open source span it was read from. The flag of a literal is the
  optional field \<open>integer\<close>, absent being false. Two nodes of one parsed tree have different
  spans or different shapes, so the sources' identity test \<open>===\<close> on nodes is equality here.
\<close>

datatype node =
    Lit (lit: literal) (lit_integer: bool) (nstart: int) (nend: int)
  | Var (vname: jsstr) (nstart: int) (nend: int)
  | Call (fname: jsstr) (args: "node list") (nstart: int) (nend: int)
  | Unary (uop: jsstr) (operand: node) (nstart: int) (nend: int)
  | Binary (bop: jsstr) (left: node) (right: node) (nstart: int) (nend: int)
  | Cond (ccond: node) (yes: node) (no: node) (nstart: int) (nend: int)

fun children :: "node \<Rightarrow> node list" where
  "children (Call f as i j) = as"
| "children (Unary op a i j) = [a]"
| "children (Binary op a b i j) = [a, b]"
| "children (Cond c a b i j) = [c, a, b]"
| "children _ = []"

section \<open>Diagnostics\<close>

datatype diagnostic_code = CSyntax | CUnsupported | CMissingContext | CType | CNumber | CLimit

record diagnostic =
  dcode :: diagnostic_code
  detail :: jsstr
  position :: "int option"

text \<open>
  What a computation throws: a \<open>BillingExpressionError\<close>, or an error of the engine such as a
  \<open>TypeError\<close>, with its message.
\<close>

datatype expr_error = BillingError diagnostic | NativeError jsstr

abbreviation fail_at :: "diagnostic_code \<Rightarrow> jsstr \<Rightarrow> int \<Rightarrow> expr_error" where
  "fail_at c d p \<equiv> BillingError \<lparr>dcode = c, detail = d, position = Some p\<rparr>"

abbreviation fail :: "diagnostic_code \<Rightarrow> jsstr \<Rightarrow> expr_error" where
  "fail c d \<equiv> BillingError \<lparr>dcode = c, detail = d, position = None\<rparr>"

datatype failure_status = SUnsupported | SInvalid | SMissingContext

record expression_failure =
  fstatus :: failure_status
  fdiagnostic :: diagnostic

definition expressionFailure :: "expr_error \<Rightarrow> expression_failure" where
  "expressionFailure e =
     (let d = (case e of BillingError d \<Rightarrow> d
               | NativeError m \<Rightarrow> \<lparr>dcode = CSyntax, detail = m, position = None\<rparr>);
          st = (if dcode d = CMissingContext then SMissingContext else SInvalid);
          st' = (if dcode d = CUnsupported \<or> dcode d = CLimit then SUnsupported else st)
      in \<lparr>fstatus = st', fdiagnostic = d\<rparr>)"

section \<open>Traversal\<close>

fun node_weight :: "node \<Rightarrow> nat" where
  "node_weight (Lit l b i j) = 2"
| "node_weight (Var v i j) = 2"
| "node_weight (Call f as i j) = 2 + sum_list (map node_weight as)"
| "node_weight (Unary op a i j) = 2 + node_weight a"
| "node_weight (Binary op a b i j) = 2 + node_weight a + node_weight b"
| "node_weight (Cond c a b i j) = 2 + node_weight c + node_weight a + node_weight b"

lemma node_weight_children: "node_weight n = 2 + sum_list (map node_weight (children n))"
  by (cases n) auto

text \<open>
  The loop of \<open>visitExpression\<close>: the head of the list is the top of the stack, the flag says
  that the children of the entry were pushed before.
\<close>

type_synonym stack_entry = "node \<times> bool \<times> int"

definition entry_weight :: "stack_entry \<Rightarrow> nat" where
  "entry_weight e = (case e of (n, visited, d) \<Rightarrow> if visited then 1 else node_weight n)"

function visit_loop ::
  "(node \<Rightarrow> 's \<Rightarrow> expr_error + 's) \<Rightarrow> stack_entry list \<Rightarrow> 's \<Rightarrow> expr_error + 's" where
  "visit_loop v [] s = Inr s"
| "visit_loop v ((n, visited, d) # st) s =
     (if 256 < d then Inl (fail CLimit (js ''expression depth''))
      else if visited then rbind (v n s) (\<lambda>s'. visit_loop v st s')
      else visit_loop v (map (\<lambda>c. (c, False, d + 1)) (children n) @ (n, True, d) # st) s)"
  by pat_completeness auto
termination
proof (relation "measure (\<lambda>(v, st, s). sum_list (map entry_weight st))", goal_cases)
  case (3 v n visited d st s)
  have "sum_list (map entry_weight (map (\<lambda>c. (c, False, d + 1)) (children n))) =
    sum_list (map node_weight (children n))"
    by (simp add: entry_weight_def o_def)
  with 3 show ?case by (simp add: entry_weight_def node_weight_children[of n])
qed (auto simp: entry_weight_def)

definition visitExpression ::
  "node \<Rightarrow> (node \<Rightarrow> 's \<Rightarrow> expr_error + 's) \<Rightarrow> 's \<Rightarrow> expr_error + 's" where
  "visitExpression n v s = visit_loop v [(n, False, 0)] s"

text \<open>A \<open>Set\<close> is the list of its elements in insertion order.\<close>

definition set_add :: "'a \<Rightarrow> 'a list \<Rightarrow> 'a list" where
  "set_add x xs = (if x \<in> set xs then xs else xs @ [x])"

record dependencies =
  dep_variables :: "jsstr list"
  dep_functions :: "jsstr list"

definition dependency_visitor :: "node \<Rightarrow> dependencies \<Rightarrow> expr_error + dependencies" where
  "dependency_visitor n s =
     Inr (case n of
            Var v i j \<Rightarrow> s\<lparr>dep_variables := set_add v (dep_variables s)\<rparr>
          | Call f as i j \<Rightarrow> s\<lparr>dep_functions := set_add f (dep_functions s)\<rparr>
          | _ \<Rightarrow> s)"

definition expressionDependencies :: "node \<Rightarrow> expr_error + dependencies" where
  "expressionDependencies n =
     visitExpression n dependency_visitor \<lparr>dep_variables = [], dep_functions = []\<rparr>"

section \<open>The traversal is a postorder walk\<close>

fun postorder :: "node \<Rightarrow> node list" where
  "postorder (Lit l b i j) = [Lit l b i j]"
| "postorder (Var v i j) = [Var v i j]"
| "postorder (Call f as i j) = concat (map postorder as) @ [Call f as i j]"
| "postorder (Unary op a i j) = postorder a @ [Unary op a i j]"
| "postorder (Binary op a b i j) = postorder a @ postorder b @ [Binary op a b i j]"
| "postorder (Cond c a b i j) = postorder c @ postorder a @ postorder b @ [Cond c a b i j]"

lemma postorder_children: "postorder n = concat (map postorder (children n)) @ [n]"
  by (cases n) auto

fun height :: "node \<Rightarrow> nat" where
  "height (Lit l b i j) = 0"
| "height (Var v i j) = 0"
| "height (Call f as i j) = (if as = [] then 0 else Suc (Max (set (map height as))))"
| "height (Unary op a i j) = Suc (height a)"
| "height (Binary op a b i j) = Suc (max (height a) (height b))"
| "height (Cond c a b i j) = Suc (max (height c) (max (height a) (height b)))"

lemma height_children: "c \<in> set (children n) \<Longrightarrow> height c < height n"
proof (cases n)
  case (Call f as i j)
  assume "c \<in> set (children n)"
  with Call have c: "c \<in> set as" by simp
  then have "height c \<le> Max (set (map height as))" by (intro Max_ge) auto
  moreover have "as \<noteq> []" using c by auto
  ultimately show ?thesis using Call by (simp add: less_Suc_eq_le)
qed auto

text \<open>Running a visitor over a list of nodes in order.\<close>

fun run_visitor :: "(node \<Rightarrow> 's \<Rightarrow> expr_error + 's) \<Rightarrow> node list \<Rightarrow> 's \<Rightarrow> expr_error + 's" where
  "run_visitor v [] s = Inr s"
| "run_visitor v (n # ns) s = rbind (v n s) (run_visitor v ns)"

lemma run_visitor_append:
  "run_visitor v (xs @ ys) s = rbind (run_visitor v xs s) (run_visitor v ys)"
proof (induction xs arbitrary: s)
  case (Cons x xs)
  then have "run_visitor v (xs @ ys) = (\<lambda>s. rbind (run_visitor v xs s) (run_visitor v ys))" by blast
  then show ?case by (simp add: rbind_assoc)
qed simp

lemma node_children_induct [case_names node]:
  assumes "\<And>n. (\<And>c. c \<in> set (children n) \<Longrightarrow> P c) \<Longrightarrow> P n"
  shows "P n"
proof (induction "node_weight n" arbitrary: n rule: less_induct)
  case less
  show ?case
  proof (rule assms)
    fix c
    assume "c \<in> set (children n)"
    then have "node_weight c \<le> sum_list (map node_weight (children n))"
      by (simp add: member_le_sum_list)
    then have "node_weight c < node_weight n" by (simp add: node_weight_children[of n])
    then show "P c" by (rule less)
  qed
qed

lemma visit_loop_children:
  assumes "\<And>c st s. c \<in> set cs \<Longrightarrow> visit_loop v ((c, False, d) # st) s =
    rbind (run_visitor v (postorder c) s) (visit_loop v st)"
  shows "visit_loop v (map (\<lambda>c. (c, False, d)) cs @ st) s =
    rbind (run_visitor v (concat (map postorder cs)) s) (visit_loop v st)"
  using assms
proof (induction cs arbitrary: s)
  case (Cons c cs)
  have "visit_loop v (map (\<lambda>c. (c, False, d)) cs @ st) =
      (\<lambda>s. rbind (run_visitor v (concat (map postorder cs)) s) (visit_loop v st))"
    using Cons by (intro ext) simp
  then show ?case
    using Cons.prems[of c] by (simp add: run_visitor_append rbind_assoc del: visit_loop.simps)
qed simp

lemma visit_loop_postorder:
  "d + int (height n) \<le> 256 \<Longrightarrow>
   visit_loop v ((n, False, d) # st) s = rbind (run_visitor v (postorder n) s) (visit_loop v st)"
proof (induction n arbitrary: d st s rule: node_children_induct)
  case (node n)
  have "visit_loop v (map (\<lambda>c. (c, False, d + 1)) (children n) @ (n, True, d) # st) s =
      rbind (run_visitor v (concat (map postorder (children n))) s) (visit_loop v ((n, True, d) # st))"
    using height_children[of _ n] node
    by (intro visit_loop_children) (fastforce simp del: visit_loop.simps)
  moreover have "visit_loop v ((n, True, d) # st) = (\<lambda>s. rbind (v n s) (visit_loop v st))"
    using node.prems by (intro ext) simp
  ultimately show ?case
    using node.prems by (subst postorder_children) (simp add: run_visitor_append rbind_assoc)
qed

lemma height_child_deep:
  assumes "0 < height n"
  shows "\<exists>c \<in> set (children n). height n = Suc (height c)"
proof (cases n)
  case (Call f as i j)
  with assms have "as \<noteq> []" by auto
  then have "Max (height ` set as) \<in> height ` set as" by (intro Max_in) auto
  then obtain c where "c \<in> set as" "Max (height ` set as) = height c" by blast
  with Call \<open>as \<noteq> []\<close> show ?thesis by auto
qed (use assms in \<open>auto simp: max_def\<close>)

text \<open>Below the bound of 256 levels no entry is visited: the loop ends in an error.\<close>

lemma visit_loop_deep:
  "256 < d + int (height n) \<Longrightarrow> \<exists>e. visit_loop v ((n, False, d) # st) s = Inl e"
proof (induction n arbitrary: d st s rule: node_children_induct)
  case (node n)
  show ?case
  proof (cases "256 < d")
    case False
    with node.prems obtain c where c: "c \<in> set (children n)" "256 < d + 1 + int (height c)"
      using height_child_deep[of n] by auto
    then obtain as b bs where split: "children n = as @ b # bs" "256 < d + 1 + int (height b)"
      "\<forall>a \<in> set as. \<not> 256 < d + 1 + int (height a)"
      using split_list_first_prop[of "children n" "\<lambda>c. 256 < d + 1 + int (height c)"] by blast
    let ?st = "map (\<lambda>c. (c, False, d + 1)) bs @ (n, True, d) # st"
    have "visit_loop v ((n, False, d) # st) s =
        visit_loop v (map (\<lambda>c. (c, False, d + 1)) as @ (b, False, d + 1) # ?st) s"
      using False split by simp
    also have "\<dots> = rbind (run_visitor v (concat (map postorder as)) s)
        (visit_loop v ((b, False, d + 1) # ?st))"
      using split(3) by (intro visit_loop_children visit_loop_postorder) auto
    finally have "visit_loop v ((n, False, d) # st) s =
      rbind (run_visitor v (concat (map postorder as)) s) (visit_loop v ((b, False, d + 1) # ?st))" .
    then show ?thesis
      using node.IH[of b "d + 1" ?st] split
      by (cases "run_visitor v (concat (map postorder as)) s") (auto simp del: visit_loop.simps)
  qed simp
qed

text \<open>Within the depth bound the traversal runs the visitor in postorder and never fails itself.\<close>

lemma visitExpression_postorder:
  assumes "height n \<le> 256"
  shows "visitExpression n v s = run_visitor v (postorder n) s"
proof -
  have "visitExpression n v s = rbind (run_visitor v (postorder n) s) (visit_loop v [])"
    unfolding visitExpression_def using assms by (subst visit_loop_postorder) auto
  also have "\<dots> = run_visitor v (postorder n) s"
    by (cases "run_visitor v (postorder n) s") auto
  finally show ?thesis .
qed

lemma visitExpression_Inr_iff:
  "visitExpression n v s = Inr s' \<longleftrightarrow> height n \<le> 256 \<and> run_visitor v (postorder n) s = Inr s'"
proof (cases "height n \<le> 256")
  case False
  then show ?thesis
    using visit_loop_deep[of 0 n v "[]" s] by (auto simp: visitExpression_def simp del: visit_loop.simps)
qed (simp add: visitExpression_postorder)

lemma self_in_postorder [simp]: "n \<in> set (postorder n)"
  by (subst postorder_children) simp

lemma child_in_postorder: "c \<in> set (children n) \<Longrightarrow> c \<in> set (postorder n)"
proof -
  assume "c \<in> set (children n)"
  then have "c \<in> (\<Union>x \<in> set (children n). set (postorder x))" by (rule UN_I) simp
  then show ?thesis by (subst postorder_children) simp
qed

lemma postorder_trans: "m \<in> set (postorder n) \<Longrightarrow> k \<in> set (postorder m) \<Longrightarrow> k \<in> set (postorder n)"
proof (induction n rule: node_children_induct)
  case (node n)
  show ?case
  proof (cases "m = n")
    case False
    with node.prems(1) obtain c where c: "c \<in> set (children n)" "m \<in> set (postorder c)"
      by (subst (asm) postorder_children) auto
    with node.IH[OF c node.prems(2)] show ?thesis by (subst postorder_children) auto
  qed (use node.prems in simp)
qed

section \<open>The dependency scan is exact\<close>

lemma set_set_add [simp]: "set (set_add x xs) = insert x (set xs)"
  by (auto simp: set_add_def)

lemma run_dependencies:
  "run_visitor dependency_visitor ns s = Inr d \<Longrightarrow>
   set (dep_variables d) = set (dep_variables s) \<union> {v. \<exists>i j. Var v i j \<in> set ns} \<and>
   set (dep_functions d) = set (dep_functions s) \<union> {f. \<exists>as i j. Call f as i j \<in> set ns}"
proof (induction ns arbitrary: s)
  case (Cons n ns)
  then obtain s1 where s1: "dependency_visitor n s = Inr s1" "run_visitor dependency_visitor ns s1 = Inr d"
    by (auto simp: rsimps)
  show ?case
  proof (cases n)
    case (Var v i j)
    then have "{w. \<exists>i j. Var w i j \<in> set (n # ns)} = insert v {w. \<exists>i j. Var w i j \<in> set ns}"
      "{f. \<exists>as i j. Call f as i j \<in> set (n # ns)} = {f. \<exists>as i j. Call f as i j \<in> set ns}"
      by auto
    with Cons.IH[OF s1(2)] s1(1) Var show ?thesis
      by (auto simp: dependency_visitor_def)
  next
    case (Call g as i j)
    then have "{w. \<exists>i j. Var w i j \<in> set (n # ns)} = {w. \<exists>i j. Var w i j \<in> set ns}"
      "{f. \<exists>as i j. Call f as i j \<in> set (n # ns)} = insert g {f. \<exists>as i j. Call f as i j \<in> set ns}"
      by auto
    with Cons.IH[OF s1(2)] s1(1) Call show ?thesis
      by (auto simp: dependency_visitor_def)
  qed (use Cons.IH[OF s1(2)] s1(1) in \<open>auto simp: dependency_visitor_def\<close>)
qed simp

lemma dependencies_sets:
  assumes "expressionDependencies n = Inr d"
  shows "set (dep_variables d) = {v. \<exists>i j. Var v i j \<in> set (postorder n)}"
    and "set (dep_functions d) = {f. \<exists>as i j. Call f as i j \<in> set (postorder n)}"
proof -
  have "run_visitor dependency_visitor (postorder n) \<lparr>dep_variables = [], dep_functions = []\<rparr> = Inr d"
    using assms by (simp add: expressionDependencies_def visitExpression_Inr_iff)
  from run_dependencies[OF this]
  show "set (dep_variables d) = {v. \<exists>i j. Var v i j \<in> set (postorder n)}"
    "set (dep_functions d) = {f. \<exists>as i j. Call f as i j \<in> set (postorder n)}" by simp_all
qed

end
