(* ===== verification/Lexer.thy ===== *)
theory Lexer
  imports ExprTypes
begin

text \<open>
  The lexical half of the class \<open>BillingParser\<close> of \<open>billing-expression/parser.ts\<close>: lexemes, the
  parser's state, its constructor with the version prefix, \<open>next\<close>, \<open>take\<close>, \<open>is\<close> and \<open>expect\<close>.
  The lemmas show that a lexeme is exactly the text between its two positions, that only white
  space is skipped, that the lexeme counter bounds every run, and that a string written by
  \<open>JSON.stringify\<close> is read back unchanged.
\<close>

section \<open>Lexemes and the parser's state\<close>

text \<open>The optional value of a lexeme is \<open>LNull\<close> where the source leaves it out.\<close>

datatype lexeme_kind = KNumber | KString | KSymbol | KName | KEnd

record lexeme =
  ltext :: jsstr
  lstart :: int
  lend :: int
  lvalue :: literal
  linteger :: bool
  lkind :: lexeme_kind

definition PRECEDENCE :: "(jsstr, int) orec" where
  "PRECEDENCE =
     [(js ''||'', 1), (js ''&&'', 2), (js ''=='', 3), (js ''!='', 3), (js ''<'', 4), (js ''<='', 4),
      (js ''>'', 4), (js ''>='', 4), (js ''+'', 5), (js ''-'', 5), (js ''*'', 6), (js ''/'', 6),
      (js ''%'', 6)]"

text \<open>
  The fields of the class. \<open>source\<close> never changes and is an argument of the operations.
\<close>

record parser =
  pcursor :: int
  pcount :: int
  pdepth :: int
  pcurrent :: lexeme

definition end_lexeme :: "int \<Rightarrow> lexeme" where
  "end_lexeme i =
     \<lparr>ltext = [], lstart = i, lend = i, lvalue = LNull, linteger = False, lkind = KEnd\<rparr>"

section \<open>The scanner\<close>

text \<open>The loop that skips white space, on the text from the cursor on.\<close>

fun skip_spaces :: "jsstr \<Rightarrow> int \<Rightarrow> int" where
  "skip_spaces [] i = i"
| "skip_spaces (c # cs) i = (if is_space c then skip_spaces cs (i + 1) else i)"

definition escapes :: "(jschar, jschar) orec" where
  "escapes = [(code CHR ''n'', 10), (code CHR ''r'', 13), (code CHR ''t'', 9), (code CHR ''b'', 8),
     (code CHR ''f'', 12), (code CHR ''v'', 11), (92, 92), (34, 34), (39, 39), (47, 47)]"

definition hex_val :: "jschar \<Rightarrow> int" where
  "hex_val c = (if is_digit c then c - 48 else if c \<le> 70 then c - 55 else c - 87)"

definition parse_hex :: "jsstr \<Rightarrow> int" where
  "parse_hex s = foldl (\<lambda>a c. 16 * a + hex_val c) 0 s"

text \<open>
  The loop over the body of a string literal, on the text from the cursor on. Leaving it by
  \<open>break\<close> or at the end of the source reports the unterminated literal at its opening quote.
\<close>

function scan_string :: "int \<Rightarrow> jschar \<Rightarrow> jsstr \<Rightarrow> int \<Rightarrow> jsstr \<Rightarrow> expr_error + jsstr \<times> int" where
  "scan_string start quote [] cursor val =
     Inl (fail_at CSyntax (js ''unterminated string'') start)"
| "scan_string start quote (ch # rest) cursor val =
     (if ch = quote then Inr (val, cursor + 1)
      else if ch = 10 \<or> ch = 13 then Inl (fail_at CSyntax (js ''unterminated string'') start)
      else if ch \<noteq> 92 then scan_string start quote rest (cursor + 1) (val @ [ch])
      else (case rest of
          [] \<Rightarrow> Inl (fail_at CUnsupported (js ''string escape'') (cursor + 1))
        | escaped # rest' \<Rightarrow>
            (case map_of escapes escaped of
               Some v \<Rightarrow> scan_string start quote rest' (cursor + 2) (val @ [v])
             | None \<Rightarrow>
                 if escaped = code CHR ''u'' \<or> escaped = code CHR ''x'' then
                   (let len = (if escaped = code CHR ''u'' then 4 else 2); hex = itake len rest' in
                    if slen hex \<noteq> len \<or> \<not> list_all is_hex hex
                    then Inl (fail_at CSyntax (js ''unterminated string'') start)
                    else scan_string start quote (idrop len rest') (cursor + 2 + len)
                           (val @ [parse_hex hex]))
                 else Inl (fail_at CUnsupported (js ''string escape'') (cursor + 1)))))"
  by pat_completeness auto
termination
  by (relation "measure (\<lambda>(s, q, r, c, v). length r)") (auto simp: idrop_drop)

definition two_char_operators :: "jsstr list" where
  "two_char_operators = [js ''&&'', js ''||'', js ''=='', js ''!='', js ''<='', js ''>='']"

definition one_char_operators :: jsstr where
  "one_char_operators = js ''+-*/%<>()!?:,''"

definition match_operator :: "jsstr \<Rightarrow> jsstr option" where
  "match_operator s =
     (case find (\<lambda>p. starts_with p s) two_char_operators of
        Some p \<Rightarrow> Some p
      | None \<Rightarrow> (case s of [] \<Rightarrow> None
                | c # cs \<Rightarrow> if c \<in> set one_char_operators then Some [c] else None))"

definition match_name :: "jsstr \<Rightarrow> jsstr option" where
  "match_name s = (case s of [] \<Rightarrow> None
     | c # cs \<Rightarrow> if is_name_start c then Some (c # takeWhile is_word cs) else None)"

text \<open>One lexeme of the non-empty text \<open>rest\<close> that starts at \<open>start\<close>, and the cursor after it.\<close>

definition lex_number :: "int \<Rightarrow> jsstr \<Rightarrow> rat \<Rightarrow> expr_error + lexeme" where
  "lex_number start text v =
     (let val = to_jsnum False v;
          int_text = \<not> list_ex (\<lambda>c. c = 46 \<or> c = 101 \<or> c = 69) text
      in if \<not> is_finite val then Inl (fail_at CNumber text start)
         else if int_text \<and> \<not> is_safe_integer val
         then Inl (fail_at CUnsupported (js ''integer precision'') start)
         else Inr \<lparr>ltext = text, lstart = start, lend = start + slen text, lvalue = LNum val,
                   linteger = int_text, lkind = KNumber\<rparr>)"

definition lex_string :: "jsstr \<Rightarrow> int \<Rightarrow> jsstr \<Rightarrow> expr_error + lexeme" where
  "lex_string source start rest =
     rbind (scan_string start (hd rest) (tl rest) (start + 1) []) (\<lambda>(val, cursor).
       Inr \<lparr>ltext = slice source start cursor, lstart = start, lend = cursor,
            lvalue = LStr val, linteger = False, lkind = KString\<rparr>)"

definition lex_plain :: "lexeme_kind \<Rightarrow> int \<Rightarrow> jsstr \<Rightarrow> lexeme" where
  "lex_plain k start text =
     \<lparr>ltext = text, lstart = start, lend = start + slen text, lvalue = LNull, linteger = False,
      lkind = k\<rparr>"

definition lex_one :: "jsstr \<Rightarrow> int \<Rightarrow> jsstr \<Rightarrow> expr_error + lexeme" where
  "lex_one source start rest =
     (case match_number rest of
        Some (text, v, r) \<Rightarrow> lex_number start text v
      | None \<Rightarrow>
          if hd rest = 34 \<or> hd rest = 39 then lex_string source start rest
          else (case match_name rest of
              Some name \<Rightarrow> Inr (lex_plain KName start name)
            | None \<Rightarrow> (case match_operator rest of
                  Some op \<Rightarrow> Inr (lex_plain KSymbol start op)
                | None \<Rightarrow> Inl (fail_at CUnsupported [hd rest] start))))"

definition next_lexeme :: "jsstr \<Rightarrow> parser \<Rightarrow> expr_error + lexeme \<times> parser" where
  "next_lexeme source p =
     (let count = pcount p + 1 in
      if 10000 < count then Inl (fail CLimit (js ''expression tokens''))
      else (let start = skip_spaces (idrop (pcursor p) source) (pcursor p);
                rest = idrop start source;
                q = p\<lparr>pcursor := start, pcount := count\<rparr>
            in if rest = [] then Inr (end_lexeme start, q)
               else rbind (lex_one source start rest) (\<lambda>l. Inr (l, q\<lparr>pcursor := lend l\<rparr>))))"

definition take_lexeme :: "jsstr \<Rightarrow> parser \<Rightarrow> expr_error + lexeme \<times> parser" where
  "take_lexeme source p =
     rbind (next_lexeme source p) (\<lambda>(l, q). Inr (pcurrent p, q\<lparr>pcurrent := l\<rparr>))"

definition is_text :: "parser \<Rightarrow> jsstr \<Rightarrow> bool" where
  "is_text p text \<longleftrightarrow> ltext (pcurrent p) = text"

definition expect :: "jsstr \<Rightarrow> jsstr \<Rightarrow> parser \<Rightarrow> expr_error + lexeme \<times> parser" where
  "expect source text p =
     (if ltext (pcurrent p) \<noteq> text
      then Inl (fail_at CSyntax (js ''expected '' @ text) (lstart (pcurrent p)))
      else take_lexeme source p)"

text \<open>The version prefix \<open>^\s*v(\d+):\<close>, matched text and digits.\<close>

definition match_version :: "jsstr \<Rightarrow> (jsstr \<times> jsstr) option" where
  "match_version s =
     (let sp = takeWhile is_space s; r = dropWhile is_space s in
      case r of
        [] \<Rightarrow> None
      | c # r' \<Rightarrow>
          (let ds = takeWhile is_digit r'; t = dropWhile is_digit r' in
           if c = code CHR ''v'' \<and> ds \<noteq> [] \<and> t \<noteq> [] \<and> hd t = 58
           then Some (sp @ [c] @ ds @ [58], ds) else None))"

definition new_parser :: "jsstr \<Rightarrow> expr_error + parser" where
  "new_parser source =
     (if 65536 < slen source then Inl (fail CLimit (js ''expression length''))
      else (let version = match_version source;
                fresh = (\<lambda>c. \<lparr>pcursor = c, pcount = 0, pdepth = 0, pcurrent = end_lexeme 0\<rparr>);
                start = (\<lambda>c. rbind (next_lexeme source (fresh c))
                               (\<lambda>(l, q). Inr (q\<lparr>pcurrent := l\<rparr>)))
            in case version of
                 None \<Rightarrow> start 0
               | Some (text, ds) \<Rightarrow>
                   if ds \<noteq> js ''1'' then Inl (fail CUnsupported text) else start (slen text)))"

section \<open>What a lexeme is\<close>

text \<open>
  A lexeme is the non-empty text between its two positions (empty only at the end of the source)
  and carries the value its kind promises.
\<close>

definition lexeme_ok :: "jsstr \<Rightarrow> lexeme \<Rightarrow> bool" where
  "lexeme_ok source l \<longleftrightarrow>
     0 \<le> lstart l \<and> lend l \<le> slen source \<and> ltext l = slice source (lstart l) (lend l) \<and>
     (if lkind l = KEnd then lend l = lstart l else lstart l < lend l) \<and>
     (case lkind l of
        KNumber \<Rightarrow> (\<exists>x. lvalue l = LNum x \<and> nonneg x \<and> wf_num x \<and> (linteger l \<longrightarrow> is_safe_integer x))
      | KString \<Rightarrow> (\<exists>t. lvalue l = LStr t)
      | _ \<Rightarrow> True)"

lemma skip_spaces_takeWhile: "skip_spaces s i = i + slen (takeWhile is_space s)"
  by (induction s i rule: skip_spaces.induct) auto

lemma slice_prefix:
  assumes "idrop i s = t @ r" and "0 \<le> i"
  shows "slice s i (i + slen t) = t"
  using assms by (simp add: slice_def itake_take slen_length)

lemma idrop_bound:
  assumes "idrop i s = t @ r" and "0 \<le> i" and "t \<noteq> []"
  shows "i + slen t \<le> slen s"
proof -
  have "drop (nat i) s = t @ r" using assms by (simp add: idrop_drop)
  then have "length s - nat i = length t + length r"
    by (metis length_append length_drop)
  with assms show ?thesis by (cases t) (auto simp: slen_length)
qed

lemma scan_exponent_suffix: "scan_exponent s = Some (e, r) \<Longrightarrow> \<exists>t. s = t @ r"
proof -
  assume a: "scan_exponent s = Some (e, r)"
  then obtain c s' where s: "s = c # s'" by (cases s) (auto simp: scan_exponent_def)
  define r' where "r' = (if s' \<noteq> [] \<and> (hd s' = 45 \<or> hd s' = 43) then tl s' else s')"
  have "r = dropWhile is_digit r'"
    using a s by (auto simp: scan_exponent_def Let_def r'_def split: if_splits)
  moreover obtain u where "r' = u @ dropWhile is_digit r'"
    using dropWhile_prefix[of r' is_digit] by blast
  moreover have "\<exists>w. s' = w @ r'"
  proof (cases "s' \<noteq> [] \<and> (hd s' = 45 \<or> hd s' = 43)")
    case True
    then have "s' = [hd s'] @ r'" by (simp add: r'_def)
    then show ?thesis by blast
  qed (auto simp: r'_def)
  then obtain w where "s' = w @ r'" by blast
  ultimately have "s = (c # w @ u) @ r" using s by simp
  then show ?thesis by blast
qed

lemma scan_mantissa_suffix:
  assumes "scan_mantissa s = Some (ip, fp, r)"
  shows "\<exists>t. t \<noteq> [] \<and> s = t @ r"
proof -
  let ?d = "dropWhile is_digit s"
  have s: "s = takeWhile is_digit s @ ?d" by simp
  show ?thesis
  proof (cases ?d)
    case Nil
    with assms s show ?thesis
      by (auto simp: scan_mantissa_def Let_def split: if_splits)
  next
    case (Cons c d)
    show ?thesis
    proof (cases "c = 46 \<and> (takeWhile is_digit s \<noteq> [] \<or> takeWhile is_digit d \<noteq> [])")
      case True
      with assms Cons have "r = dropWhile is_digit d" by (auto simp: scan_mantissa_def Let_def)
      then have "s = (takeWhile is_digit s @ c # takeWhile is_digit d) @ r"
        using s Cons by simp
      then show ?thesis by blast
    next
      case False
      with assms Cons have "takeWhile is_digit s \<noteq> []" "r = ?d"
        by (auto simp: scan_mantissa_def Let_def split: if_splits)
      with s show ?thesis by metis
    qed
  qed
qed

lemma match_number_split:
  assumes "match_number s = Some (t, v, r)"
  shows "s = t @ r" and "t \<noteq> []"
proof -
  obtain ip fp r1 where m: "scan_mantissa s = Some (ip, fp, r1)"
    using assms by (auto simp: match_number_def split: option.splits)
  then obtain t1 where t1: "t1 \<noteq> []" "s = t1 @ r1" using scan_mantissa_suffix by blast
  obtain t2 where "r1 = t2 @ r"
    using assms m scan_exponent_suffix[of r1]
    by (auto simp: match_number_def split: option.splits)
  with t1 have s: "s = (t1 @ t2) @ r" by simp
  have "t = take (length s - length r) s"
    using assms m by (auto simp: match_number_def split: option.splits)
  with s have "t = t1 @ t2" by simp
  with s t1 show "s = t @ r" "t \<noteq> []" by simp_all
qed

lemma digits_val_nonneg: "all_digits ds \<Longrightarrow> 0 \<le> digits_val ds"
  by (induction ds rule: rev_induct) (auto simp: digits_val_append is_digit_def)

lemma match_number_nonneg:
  assumes "match_number s = Some (t, v, r)"
  shows "0 \<le> v"
proof -
  obtain ip fp r1 where m: "scan_mantissa s = Some (ip, fp, r1)"
    using assms by (auto simp: match_number_def split: option.splits)
  then have "all_digits ip" "all_digits fp"
    by (auto simp: scan_mantissa_def Let_def split: list.splits if_splits)
  moreover obtain e where "v = decimal_value ip fp e"
    using assms m by (auto simp: match_number_def split: option.splits)
  ultimately show ?thesis by (simp add: decimal_value_shift digits_val_nonneg)
qed

lemma match_operator_split: "match_operator s = Some t \<Longrightarrow> t \<noteq> [] \<and> (\<exists>r. s = t @ r)"
proof (cases "find (\<lambda>p. starts_with p s) two_char_operators")
  case (Some p)
  then have "p \<in> set two_char_operators" "starts_with p s"
    by (auto simp: find_Some_iff dest: nth_mem)
  moreover assume "match_operator s = Some t"
  ultimately show ?thesis
    using Some by (auto simp: match_operator_def starts_with_iff two_char_operators_def)
qed (auto simp: match_operator_def split: list.splits if_splits)

lemma match_name_split: "match_name s = Some t \<Longrightarrow> t \<noteq> [] \<and> (\<exists>r. s = t @ r)"
  by (auto simp: match_name_def split: list.splits if_splits)
    (metis takeWhile_dropWhile_id)

lemma scan_string_cursor:
  "scan_string start quote r c v = Inr (t, c') \<Longrightarrow> c < c' \<and> c' \<le> c + slen r"
proof (induction start quote r c v rule: scan_string.induct)
  case (2 start quote ch rest cursor val)
  have len: "slen (idrop n xs) \<le> slen xs - n" if "slen (itake n xs) = n" for n and xs :: jsstr
    using that by (auto simp: slen_length idrop_drop itake_take)
  from 2 show ?case
    by (auto simp: Let_def split: if_splits list.splits option.splits) (use len in fastforce)+
qed simp

lemma lex_one_ok:
  assumes rest: "rest = idrop start source" "rest \<noteq> []" and start: "0 \<le> start"
    and lex: "lex_one source start rest = Inr l"
  shows "lexeme_ok source l \<and> lstart l = start \<and> lkind l \<noteq> KEnd"
proof -
  have bound: "start + slen t \<le> slen source \<and> slice source start (start + slen t) = t \<and> 0 < slen t"
    if "rest = t @ r" "t \<noteq> []" for t r
    using idrop_bound[of start source t r] slice_prefix[of start source t r] that rest start
    by (cases t) (auto simp: add_pos_nonneg)
  show ?thesis
  proof (cases "match_number rest")
    case (Some m)
    then obtain t v r where m: "match_number rest = Some (t, v, r)" by (cases m) auto
    with lex have n: "lex_number start t v = Inr l" by (simp add: lex_one_def)
    have "to_jsnum False v = PInf \<or> nonneg (to_jsnum False v)"
      using match_number_nonneg[OF m] by (rule to_jsnum_nonneg)
    with bound[OF match_number_split[OF m]] n start show ?thesis
      by (auto simp: lex_number_def Let_def lexeme_ok_def wf_to_jsnum split: if_splits)
  next
    case None
    show ?thesis
    proof (cases "hd rest = 34 \<or> hd rest = 39")
      case True
      with None lex have "lex_string source start rest = Inr l" by (simp add: lex_one_def)
      then obtain v c where sc: "scan_string start (hd rest) (tl rest) (start + 1) [] = Inr (v, c)"
        and l: "l = \<lparr>ltext = slice source start c, lstart = start, lend = c, lvalue = LStr v,
          linteger = False, lkind = KString\<rparr>"
        by (auto simp: lex_string_def rsimps)
      have "rest = rest @ []" by simp
      with rest bound[of rest "[]"] have "start + slen rest \<le> slen source" by simp
      moreover have "slen rest = 1 + slen (tl rest)" using rest(2) by (cases rest) auto
      ultimately show ?thesis
        using l start scan_string_cursor[OF sc] by (auto simp: lexeme_ok_def)
    next
      case False
      then consider t where "match_name rest = Some t" "l = lex_plain KName start t"
        | t where "match_operator rest = Some t" "l = lex_plain KSymbol start t"
        using None lex by (auto simp: lex_one_def split: option.splits)
      then show ?thesis
      proof cases
        case 1
        then show ?thesis using match_name_split[of rest] bound start
          by (auto simp: lex_plain_def lexeme_ok_def)
      next
        case 2
        then show ?thesis using match_operator_split[of rest] bound start
          by (auto simp: lex_plain_def lexeme_ok_def)
      qed
    qed
  qed
qed

text \<open>
  Taking a lexeme: only white space lies between the cursor and its first position, the cursor
  moves to its end, and the end lexeme comes only when nothing is left.
\<close>

lemma next_lexeme_ok:
  assumes c: "0 \<le> pcursor p" "pcursor p \<le> slen source" and n: "next_lexeme source p = Inr (l, q)"
  shows "lexeme_ok source l" and "pcursor p \<le> lstart l" and "pcursor q = lend l"
    and "list_all is_space (slice source (pcursor p) (lstart l))"
    and "lkind l = KEnd \<longleftrightarrow> lstart l = slen source"
proof -
  let ?r = "idrop (pcursor p) source"
  let ?sp = "takeWhile is_space ?r"
  define start where "start = skip_spaces ?r (pcursor p)"
  have start: "start = pcursor p + slen ?sp" by (simp add: start_def skip_spaces_takeWhile)
  have "slen ?r = slen source - pcursor p" using c by (simp add: slen_length idrop_drop)
  moreover have "slen ?sp \<le> slen ?r" by (simp add: slen_length length_takeWhile_le)
  ultimately have le: "start \<le> slen source" using start by simp
  have ge: "pcursor p \<le> start" using start by simp
  have sl: "slice source (pcursor p) start = ?sp"
    using slice_prefix[of "pcursor p" source ?sp "dropWhile is_space ?r"] c start by simp
  then have sp: "list_all is_space (slice source (pcursor p) start)"
    by (auto simp: list_all_iff dest: set_takeWhileD)
  have "lexeme_ok source l \<and> lstart l = start \<and> pcursor q = lend l \<and>
      (lkind l = KEnd \<longleftrightarrow> lstart l = slen source)"
  proof (cases "idrop start source = []")
    case True
    then have "slen source \<le> start" using c ge by (simp add: idrop_drop slen_length)
    with True n c ge le show ?thesis
      by (auto simp: next_lexeme_def Let_def start_def[symmetric] end_lexeme_def lexeme_ok_def
          slice_def itake_take split: if_splits)
  next
    case False
    then have "start < slen source" using c ge by (simp add: idrop_drop slen_length)
    moreover from False n have "lex_one source start (idrop start source) = Inr l" "pcursor q = lend l"
      by (auto simp: next_lexeme_def Let_def start_def[symmetric] rsimps split: if_splits)
    ultimately show ?thesis
      using lex_one_ok[of "idrop start source" start source l] False c ge by auto
  qed
  with sp ge show "lexeme_ok source l" "pcursor p \<le> lstart l" "pcursor q = lend l"
    "list_all is_space (slice source (pcursor p) (lstart l))"
    "lkind l = KEnd \<longleftrightarrow> lstart l = slen source"
    by auto
qed

text \<open>The parser's invariant: the current lexeme is one, and the cursor stands at its end.\<close>

definition parser_inv :: "jsstr \<Rightarrow> parser \<Rightarrow> bool" where
  "parser_inv source p \<longleftrightarrow> lexeme_ok source (pcurrent p) \<and> pcursor p = lend (pcurrent p)"

lemma parser_inv_depth [simp]: "parser_inv source (p\<lparr>pdepth := d\<rparr>) = parser_inv source p"
  by (simp add: parser_inv_def)

lemma lexeme_ok_le: "lexeme_ok source l \<Longrightarrow> 0 \<le> lstart l \<and> lstart l \<le> lend l \<and> lend l \<le> slen source"
  by (auto simp: lexeme_ok_def split: if_splits)

lemma next_lexeme_fields:
  "next_lexeme source p = Inr (l, q) \<Longrightarrow>
   pcount q = pcount p + 1 \<and> pcount q \<le> 10000 \<and> pdepth q = pdepth p"
  by (auto simp: next_lexeme_def Let_def rsimps split: if_splits)

lemma take_lexeme_inv:
  assumes "parser_inv source p" and "take_lexeme source p = Inr (t, q)"
  shows "parser_inv source q \<and> t = pcurrent p \<and> lend t \<le> lstart (pcurrent q) \<and>
    pcount q = pcount p + 1 \<and> pdepth q = pdepth p"
proof -
  obtain l q' where n: "next_lexeme source p = Inr (l, q')" "t = pcurrent p" "q = q'\<lparr>pcurrent := l\<rparr>"
    using assms by (auto simp: take_lexeme_def rsimps)
  have "0 \<le> pcursor p" "pcursor p \<le> slen source" "pcursor p = lend (pcurrent p)"
    using assms(1) lexeme_ok_le[of source "pcurrent p"] by (auto simp: parser_inv_def)
  with n next_lexeme_ok[OF _ _ n(1)] next_lexeme_fields[OF n(1)] show ?thesis
    by (simp add: parser_inv_def)
qed

lemma expect_inv:
  assumes "parser_inv source p" and "expect source text p = Inr (t, q)"
  shows "parser_inv source q \<and> t = pcurrent p \<and> ltext t = text \<and> lend t \<le> lstart (pcurrent q) \<and>
    pcount q = pcount p + 1 \<and> pdepth q = pdepth p"
proof -
  from assms(2) have "take_lexeme source p = Inr (t, q)" "ltext (pcurrent p) = text"
    by (auto simp: expect_def split: if_splits)
  with take_lexeme_inv[OF assms(1)] show ?thesis by auto
qed

lemma match_version_prefix: "match_version s = Some (t, ds) \<Longrightarrow> \<exists>r. s = t @ r"
proof -
  assume a: "match_version s = Some (t, ds)"
  let ?d = "dropWhile is_space s"
  obtain c r where d: "?d = c # r" using a by (cases ?d) (auto simp: match_version_def)
  let ?t = "dropWhile is_digit r"
  from a d have t: "?t \<noteq> []" "hd ?t = 58" "t = takeWhile is_space s @ [c] @ takeWhile is_digit r @ [58]"
    by (auto simp: match_version_def Let_def split: if_splits)
  have "s = takeWhile is_space s @ c # takeWhile is_digit r @ ?t" using d by (metis takeWhile_dropWhile_id)
  moreover have "?t = 58 # tl ?t" using t by (metis list.collapse)
  ultimately have "s = t @ tl ?t" using t(3) by simp
  then show ?thesis by blast
qed

lemma new_parser_inv:
  assumes "new_parser source = Inr p"
  shows "parser_inv source p \<and> pcount p = 1 \<and> pdepth p = 0 \<and> slen source \<le> 65536"
proof -
  define fresh where "fresh = (\<lambda>c. \<lparr>pcursor = c, pcount = 0, pdepth = 0, pcurrent = end_lexeme 0\<rparr>)"
  obtain c l q where c: "0 \<le> c" "c \<le> slen source" "slen source \<le> 65536"
    and n: "next_lexeme source (fresh c) = Inr (l, q)" and p: "p = q\<lparr>pcurrent := l\<rparr>"
  proof (cases "match_version source")
    case None
    with assms that[of 0] show ?thesis
      by (auto simp: new_parser_def Let_def rsimps fresh_def split: if_splits)
  next
    case (Some m)
    then obtain t ds where m: "match_version source = Some (t, ds)" by (cases m) auto
    then obtain r where "source = t @ r" using match_version_prefix by blast
    then have "slen t \<le> slen source" by simp
    with assms m that[of "slen t"] show ?thesis
      by (auto simp: new_parser_def Let_def rsimps fresh_def split: if_splits)
  qed
  have "pcursor (fresh c) = c" "pcount (fresh c) = 0" "pdepth (fresh c) = 0"
    by (simp_all add: fresh_def)
  with c p next_lexeme_ok[OF _ _ n] next_lexeme_fields[OF n] show ?thesis
    by (simp add: parser_inv_def)
qed

section \<open>Strings written as JSON are read back\<close>

definition valid_text :: "jsstr \<Rightarrow> bool" where
  "valid_text s \<longleftrightarrow> list_all (\<lambda>c. 0 \<le> c \<and> c < 65536) s"

lemma hex_digit_hex: "0 \<le> d \<Longrightarrow> d < 16 \<Longrightarrow> is_hex (hex_digit d) \<and> hex_val (hex_digit d) = d"
  by (auto simp: hex_digit_def hex_val_def is_hex_def is_digit_def)

lemma hex4_hex: "list_all is_hex (hex4 c)"
  by (simp add: hex4_def hex_digit_hex)

lemma slen_hex4 [simp]: "slen (hex4 c) = 4"
  by (simp add: hex4_def)

lemma horner4:
  "(c::int) = 16 * x + a \<Longrightarrow> x = 16 * y + b \<Longrightarrow> y = 16 * z + d \<Longrightarrow>
   16 * (16 * (16 * z + d) + b) + a = c"
  by simp

lemma parse_hex4: "0 \<le> c \<Longrightarrow> c < 65536 \<Longrightarrow> parse_hex (hex4 c) = c"
proof -
  assume c: "0 \<le> c" "c < 65536"
  define x y z where "x = c div 16" and "y = x div 16" and "z = y div 16"
  have "c div 256 = y" "c div 4096 = z"
    by (simp_all add: x_def y_def z_def zdiv_zmult2_eq[symmetric])
  moreover have "z mod 16 = z" using c by (simp add: x_def y_def z_def)
  moreover have "c = 16 * x + c mod 16" "x = 16 * y + x mod 16" "y = 16 * z + y mod 16"
    by (simp_all add: x_def y_def z_def)
  then have "16 * (16 * (16 * z + y mod 16) + x mod 16) + c mod 16 = c" by (rule horner4)
  ultimately have
    "16 * (16 * (16 * (c div 4096 mod 16) + c div 256 mod 16) + c div 16 mod 16) + c mod 16 = c"
    by (simp only: x_def)
  moreover have "parse_hex (hex4 c) =
    16 * (16 * (16 * (c div 4096 mod 16) + c div 256 mod 16) + c div 16 mod 16) + c mod 16"
    by (simp add: parse_hex_def hex4_def hex_digit_hex)
  ultimately show ?thesis by (rule trans[rotated])
qed

lemma scan_hex4:
  assumes "0 \<le> c" and "c < 65536"
  shows "scan_string st 34 (92 # 117 # hex4 c @ r) cur v = scan_string st 34 r (cur + 6) (v @ [c])"
proof -
  have "itake 4 (hex4 c @ r) = hex4 c" "idrop 4 (hex4 c @ r) = r"
    by (simp_all add: hex4_def)
  then show ?thesis using assms by (simp add: escapes_def hex4_hex parse_hex4 add.commute)
qed

lemma scan_quote_char:
  assumes "0 \<le> c" and "c < 65536"
  shows "scan_string st 34 (quote_char c @ r) cur v =
    scan_string st 34 r (cur + slen (quote_char c)) (v @ [c])"
proof (cases "c < 32 \<and> c \<notin> {8, 9, 10, 12, 13}")
  case True
  then show ?thesis
    using assms by (auto simp: quote_char_def scan_hex4 simp del: scan_string.simps)
next
  case False
  then show ?thesis using assms by (auto simp: quote_char_def escapes_def)
qed

lemma scan_quote_body:
  "valid_text s \<Longrightarrow> scan_string st 34 (quote_body s @ 34 # r) cur v =
     Inr (v @ s, cur + slen (quote_body s) + 1)"
proof (induction s arbitrary: cur v rule: quote_body.induct)
  case (2 c)
  have e: "scan_string st 34 (34 # r) cur v = Inr (v, cur + 1)" for cur v by simp
  from 2 show ?case
    by (auto simp: valid_text_def scan_hex4 scan_quote_char e simp del: scan_string.simps)
next
  case (3 c d s)
  have e: "scan_string st 34 (c # d # s') cur v = scan_string st 34 s' (cur + 2) (v @ [c, d])"
    if "is_high_surrogate c" "is_low_surrogate d" for s' cur v
    using that by (simp add: is_high_surrogate_def is_low_surrogate_def add.commute)
  from 3 show ?case
    by (auto simp: valid_text_def scan_hex4 scan_quote_char e simp del: scan_string.simps)
qed simp

lemma match_number_quote: "c = 34 \<or> c = 39 \<Longrightarrow> match_number (c # s) = None"
  by (auto simp: match_number_def scan_mantissa_def is_digit_def)

text \<open>The lexeme of \<open>JSON.stringify(s)\<close> has the value \<open>s\<close>.\<close>

lemma lex_json_quote:
  assumes "valid_text s" and "idrop i source = json_quote s @ r" and "0 \<le> i"
  shows "lex_one source i (json_quote s @ r) =
    Inr \<lparr>ltext = json_quote s, lstart = i, lend = i + slen (json_quote s), lvalue = LStr s,
         linteger = False, lkind = KString\<rparr>"
proof -
  have q: "json_quote s @ r = 34 # quote_body s @ 34 # r" by (simp add: json_quote_def)
  have "slice source i (i + slen (json_quote s)) = json_quote s"
    using slice_prefix[OF assms(2,3)] .
  then show ?thesis
    using scan_quote_body[OF assms(1), of i r "i + 1" "[]"]
    by (simp add: lex_one_def q match_number_quote lex_string_def json_quote_def algebra_simps)
qed

end
