(* ===== verification/Parser.thy ===== *)
theory Parser
  imports Lexer
begin

text \<open>
  The syntactic half of \<open>BillingParser\<close> in \<open>billing-expression/parser.ts\<close>: precedence climbing in
  \<open>expression\<close>, \<open>primary\<close>, and \<open>parse\<close>. The four loops are mutually recursive; they end because
  every round takes a lexeme and the scanner refuses the lexeme after the ten thousandth.
\<close>

section \<open>The parser\<close>

fun with_span :: "node \<Rightarrow> int \<Rightarrow> int \<Rightarrow> node" where
  "with_span (Lit l b i j) i' j' = Lit l b i' j'"
| "with_span (Var v i j) i' j' = Var v i' j'"
| "with_span (Call f as i j) i' j' = Call f as i' j'"
| "with_span (Unary op a i j) i' j' = Unary op a i' j'"
| "with_span (Binary op a b i j) i' j' = Binary op a b i' j'"
| "with_span (Cond c a b i j) i' j' = Cond c a b i' j'"

type_synonym 'a parse_result = "expr_error + 'a \<times> parser"

definition primary_leaf :: "parser \<Rightarrow> lexeme \<Rightarrow> node parse_result" where
  "primary_leaf p token =
     (let s = lstart token; e = lend token in
      if lkind token \<noteq> KName then Inl (fail_at CSyntax (ltext token) s)
      else if ltext token = js ''nil'' then Inr (Lit LNull False s e, p)
      else if ltext token = js ''true'' \<or> ltext token = js ''false''
      then Inr (Lit (LBool (ltext token = js ''true'')) False s e, p)
      else if ltext token \<notin> set billing_variables then Inl (fail_at CUnsupported (ltext token) s)
      else Inr (Var (ltext token) s e, p))"

definition starts_call :: "parser \<Rightarrow> lexeme \<Rightarrow> bool" where
  "starts_call p token \<longleftrightarrow>
     lkind token = KName \<and> ltext token \<notin> {js ''nil'', js ''true'', js ''false''} \<and>
     ltext (pcurrent p) = js ''(''"

text \<open>Lexemes left to take, with a rank among the calls that take none in between.\<close>

fun parser_measure ::
  "(jsstr \<times> int \<times> parser + jsstr \<times> int \<times> node \<times> parser) +
   (jsstr \<times> int \<times> node \<times> parser + jsstr \<times> parser + jsstr \<times> node list \<times> parser) \<Rightarrow> nat" where
  "parser_measure (Inl (Inl (s, m, p))) = 6 * nat (10001 - pcount p) + 3"
| "parser_measure (Inl (Inr (s, m, l, p))) = 6 * nat (10001 - pcount p) + 1"
| "parser_measure (Inr (Inl (s, m, l, p))) = 6 * nat (10001 - pcount p) + 1"
| "parser_measure (Inr (Inr (Inl (s, p)))) = 6 * nat (10001 - pcount p) + 2"
| "parser_measure (Inr (Inr (Inr (s, as, p)))) = 6 * nat (10001 - pcount p) + 4"

function (sequential) expression :: "jsstr \<Rightarrow> int \<Rightarrow> parser \<Rightarrow> node parse_result"
  and conditional :: "jsstr \<Rightarrow> int \<Rightarrow> node \<Rightarrow> parser \<Rightarrow> node parse_result"
  and climb :: "jsstr \<Rightarrow> int \<Rightarrow> node \<Rightarrow> parser \<Rightarrow> node parse_result"
  and primary :: "jsstr \<Rightarrow> parser \<Rightarrow> node parse_result"
  and call_args :: "jsstr \<Rightarrow> node list \<Rightarrow> parser \<Rightarrow> node list parse_result" where
  "expression source minimum p =
     (let p = p\<lparr>pdepth := pdepth p + 1\<rparr> in
      if 128 < pdepth p then Inl (fail CLimit (js ''expression depth''))
      else rbind (primary source p) (\<lambda>(l, p).
           rbind (climb source minimum l p) (\<lambda>(l, p).
           rbind (conditional source minimum l p) (\<lambda>(l, p).
             Inr (l, p\<lparr>pdepth := pdepth p - 1\<rparr>)))))"
| "conditional source minimum l p =
     (if minimum = 0 \<and> is_text p (js ''?'')
      then rbind (take_lexeme source p) (\<lambda>(t, p).
           rbind (expression source 0 p) (\<lambda>(y, p).
           rbind (expect source (js '':'') p) (\<lambda>(t, p).
           rbind (expression source 0 p) (\<lambda>(n, p).
             Inr (Cond l y n (nstart l) (nend n), p)))))
      else Inr (l, p))"
| "climb source minimum l p =
     (case map_of PRECEDENCE (ltext (pcurrent p)) of
        None \<Rightarrow> Inr (l, p)
      | Some prec \<Rightarrow>
          if prec < minimum then Inr (l, p)
          else rbind (take_lexeme source p) (\<lambda>(t, p).
               rbind (expression source (prec + 1) p) (\<lambda>(r, p).
                 climb source minimum (Binary (ltext t) l r (nstart l) (nend r)) p)))"
| "primary source p =
     rbind (take_lexeme source p) (\<lambda>(token, p).
       let s = lstart token in
       if lkind token = KNumber
       then Inr (Lit (lvalue token) (linteger token) s (lend token), p)
       else if lkind token = KString then Inr (Lit (lvalue token) False s (lend token), p)
       else if ltext token = js ''('' then
           rbind (expression source 0 p) (\<lambda>(e, p).
           rbind (expect source (js '')'') p) (\<lambda>(t, p).
             Inr (with_span e s (lend t), p)))
       else if ltext token \<in> {js ''!'', js ''+'', js ''-''} then
           rbind (expression source 7 p) (\<lambda>(a, p).
             Inr (Unary (ltext token) a s (nend a), p))
       else if \<not> starts_call p token then primary_leaf p token
       else (case map_of billing_functions (ltext token) of
             None \<Rightarrow> Inl (fail_at CUnsupported (ltext token) s)
           | Some arity \<Rightarrow>
               rbind (take_lexeme source p) (\<lambda>(t, p).
               rbind (call_args source [] p) (\<lambda>(as, p).
               rbind (expect source (js '')'') p) (\<lambda>(t, p).
                 if length as \<noteq> arity then Inl (fail_at CType (ltext token) s)
                 else Inr (Call (ltext token) as s (lend t), p))))))"
| "call_args source as p =
     (if is_text p (js '')'') then Inr (as, p)
      else rbind (expression source 0 p) (\<lambda>(a, p).
        if \<not> is_text p (js '','') then Inr (as @ [a], p)
        else rbind (take_lexeme source p) (\<lambda>(t, p). call_args source (as @ [a]) p)))"
  by pat_completeness auto

subsection \<open>Termination\<close>

lemma next_lexeme_count:
  "next_lexeme source p = Inr (l, q) \<Longrightarrow> pcount q = pcount p + 1 \<and> pcount q \<le> 10000 \<and> pdepth q = pdepth p"
  by (auto simp: next_lexeme_def Let_def rsimps split: if_splits)

lemma take_lexeme_count:
  "take_lexeme source p = Inr (l, q) \<Longrightarrow> pcount q = pcount p + 1 \<and> pcount q \<le> 10000 \<and> pdepth q = pdepth p"
  unfolding take_lexeme_def by (auto simp: rsimps dest: next_lexeme_count)

lemma expect_count:
  "expect source t p = Inr (l, q) \<Longrightarrow> pcount q = pcount p + 1 \<and> pcount q \<le> 10000 \<and> pdepth q = pdepth p"
  by (auto simp: expect_def dest: take_lexeme_count split: if_splits)

lemma primary_leaf_state: "primary_leaf p t = Inr (n, q) \<Longrightarrow> q = p"
  by (auto simp: primary_leaf_def Let_def split: if_splits)

lemma rbind2_Inr:
  "rbind m f = Inr y \<longleftrightarrow> (\<exists>a p. m = Inr (a, p) \<and> f (a, p) = Inr y)"
  by (cases m) auto

lemmas parser_count_dests = take_lexeme_count expect_count

lemma parser_count_mono:
  "expression_conditional_climb_primary_call_args_dom (Inl (Inl (source, m, p))) \<Longrightarrow>
     (\<And>n q. expression source m p = Inr (n, q) \<Longrightarrow> pcount p < pcount q)"
  "expression_conditional_climb_primary_call_args_dom (Inl (Inr (source, m, l, p))) \<Longrightarrow>
     (\<And>n q. conditional source m l p = Inr (n, q) \<Longrightarrow> pcount p \<le> pcount q)"
  "expression_conditional_climb_primary_call_args_dom (Inr (Inl (source, m, l, p))) \<Longrightarrow>
     (\<And>n q. climb source m l p = Inr (n, q) \<Longrightarrow> pcount p \<le> pcount q)"
  "expression_conditional_climb_primary_call_args_dom (Inr (Inr (Inl (source, p)))) \<Longrightarrow>
     (\<And>n q. primary source p = Inr (n, q) \<Longrightarrow> pcount p < pcount q)"
  "expression_conditional_climb_primary_call_args_dom (Inr (Inr (Inr (source, as, p)))) \<Longrightarrow>
     (\<And>n q. call_args source as p = Inr (n, q) \<Longrightarrow> pcount p \<le> pcount q)"
proof (induction rule: expression_conditional_climb_primary_call_args.pinduct)
  case (1 source m p)
  from 1(1,5) show ?case
    by (auto simp: expression.psimps Let_def rbind2_Inr split: if_splits)
      (use 1(2-4) in fastforce)
next
  case (2 source m l p)
  from 2(1,4) show ?case
    by (auto simp: conditional.psimps Let_def rbind2_Inr split: if_splits)
      (use 2(2,3) in \<open>fastforce dest: parser_count_dests primary_leaf_state\<close>)+
next
  case (3 source m l p)
  from 3(1,4) show ?case
    by (auto simp: climb.psimps rbind2_Inr split: if_splits option.splits)
      (use 3(2,3) in \<open>fastforce dest: parser_count_dests primary_leaf_state\<close>)+
next
  case (4 source p)
  from 4(1,5) show ?case
    by (auto simp: primary.psimps Let_def rbind2_Inr split: if_splits option.splits)
      (use 4(2-4) in \<open>fastforce dest: parser_count_dests primary_leaf_state\<close>)+
next
  case (5 source as p)
  from 5(1,4) show ?case
    by (auto simp: call_args.psimps rbind2_Inr split: if_splits)
      (use 5(2,3) in \<open>fastforce dest: parser_count_dests primary_leaf_state\<close>)+
qed

termination expression
  by (relation "measure parser_measure") (auto dest!: parser_count_dests parser_count_mono)

declare expression.simps [simp del] conditional.simps [simp del] climb.simps [simp del]
  primary.simps [simp del] call_args.simps [simp del]

definition parse :: "jsstr \<Rightarrow> expr_error + node" where
  "parse source =
     rbind (new_parser source) (\<lambda>p.
     rbind (expression source 0 p) (\<lambda>(n, p).
       if lkind (pcurrent p) \<noteq> KEnd
       then Inl (fail_at CUnsupported (ltext (pcurrent p)) (lstart (pcurrent p)))
       else Inr n))"

section \<open>Well-formed trees\<close>

text \<open>
  Spans lie inside the source, children lie inside their parent one after the other, every name
  is in its table, a call has the arity of its function and a number literal is finite and not negative.
\<close>

fun chain :: "int \<Rightarrow> node list \<Rightarrow> int \<Rightarrow> bool" where
  "chain i [] j = (i \<le> j)"
| "chain i (n # ns) j = (i \<le> nstart n \<and> nstart n < nend n \<and> chain (nend n) ns j)"

definition node_ok :: "node \<Rightarrow> bool" where
  "node_ok n =
     (case n of
        Lit l b i j \<Rightarrow> (case l of LNum x \<Rightarrow> nonneg x \<and> wf_num x \<and> (b \<longrightarrow> is_safe_integer x) | _ \<Rightarrow> \<not> b)
      | Var v i j \<Rightarrow> v \<in> set billing_variables
      | Call f as i j \<Rightarrow> map_of billing_functions f = Some (length as)
      | Unary op a i j \<Rightarrow> op \<in> {js ''!'', js ''+'', js ''-''}
      | Binary op a b i j \<Rightarrow> op \<in> fst ` set PRECEDENCE
      | Cond c a b i j \<Rightarrow> True)"

inductive wf_node :: "int \<Rightarrow> node \<Rightarrow> bool" for len where
  wf_node: "node_ok n \<Longrightarrow> 0 \<le> nstart n \<Longrightarrow> nstart n < nend n \<Longrightarrow> nend n \<le> len \<Longrightarrow>
     chain (nstart n) (children n) (nend n) \<Longrightarrow> (\<And>c. c \<in> set (children n) \<Longrightarrow> wf_node len c) \<Longrightarrow>
     wf_node len n"

inductive_simps wf_node_iff: "wf_node len n"

lemma chain_mono: "chain i ns j \<Longrightarrow> i' \<le> i \<Longrightarrow> j \<le> j' \<Longrightarrow> chain i' ns j'"
  by (induction ns arbitrary: i i') auto

lemma chain_le: "chain i ns j \<Longrightarrow> i \<le> j"
  by (induction ns arbitrary: i) fastforce+

lemma chain_snoc:
  "chain i ns j \<Longrightarrow> j \<le> nstart n \<Longrightarrow> nstart n < nend n \<Longrightarrow> nend n \<le> k \<Longrightarrow> chain i (ns @ [n]) k"
  by (induction ns arbitrary: i) auto

lemma with_span_simps [simp]:
  "nstart (with_span n i j) = i" "nend (with_span n i j) = j"
  "children (with_span n i j) = children n" "node_ok (with_span n i j) = node_ok n"
  by (cases n; simp add: node_ok_def)+

lemma wf_with_span:
  assumes "wf_node len n" and "0 \<le> i" "i \<le> nstart n" "nend n \<le> j" "j \<le> len"
  shows "wf_node len (with_span n i j)"
  using assms chain_mono[of "nstart n" "children n" "nend n" i j]
  by (subst wf_node_iff) (auto simp: wf_node_iff[of len n])

lemma wf_node_span: "wf_node len n \<Longrightarrow> 0 \<le> nstart n \<and> nstart n < nend n \<and> nend n \<le> len"
  by (auto elim: wf_node.cases)

lemma wf_Cond:
  assumes "wf_node len c" "wf_node len a" "wf_node len b" and "nend c \<le> nstart a" "nend a \<le> nstart b"
  shows "wf_node len (Cond c a b (nstart c) (nend b))"
  by (rule wf_node.wf_node) (use assms assms(1-3)[THEN wf_node_span] in \<open>auto simp: node_ok_def\<close>)

lemma wf_Binary:
  assumes "wf_node len a" "wf_node len b" and "nend a \<le> nstart b" and "op \<in> fst ` set PRECEDENCE"
  shows "wf_node len (Binary op a b (nstart a) (nend b))"
  by (rule wf_node.wf_node) (use assms assms(1,2)[THEN wf_node_span] in \<open>auto simp: node_ok_def\<close>)

lemma wf_Unary:
  assumes "wf_node len a" and "0 \<le> i" "i \<le> nstart a" and "op \<in> {js ''!'', js ''+'', js ''-''}"
  shows "wf_node len (Unary op a i (nend a))"
  by (rule wf_node.wf_node) (use assms assms(1)[THEN wf_node_span] in \<open>auto simp: node_ok_def\<close>)

lemma wf_Call:
  assumes "\<forall>a \<in> set as. wf_node len a" "chain i as j" and "0 \<le> i" "i < j" "j \<le> len"
    and "map_of billing_functions f = Some (length as)"
  shows "wf_node len (Call f as i j)"
  by (rule wf_node.wf_node) (use assms in \<open>auto simp: node_ok_def\<close>)

text \<open>What a successful call of each parsing operation guarantees.\<close>

definition parsed :: "jsstr \<Rightarrow> int \<Rightarrow> node \<Rightarrow> parser \<Rightarrow> parser \<Rightarrow> bool" where
  "parsed source i n p q \<longleftrightarrow>
     parser_inv source q \<and> wf_node (slen source) n \<and> nstart n = i \<and> nend n \<le> lstart (pcurrent q) \<and>
     pdepth q = pdepth p"

lemma wf_leaf:
  assumes "node_ok n" and "children n = []" and "0 \<le> nstart n" "nstart n < nend n" "nend n \<le> len"
  shows "wf_node len n"
  by (rule wf_node.wf_node) (use assms in auto)

lemma primary_leaf_parsed:
  assumes p: "parser_inv source p" and t: "lexeme_ok source t" "lend t \<le> lstart (pcurrent p)"
    and leaf: "primary_leaf p t = Inr (n, q)"
  shows "parsed source (lstart t) n p q"
proof -
  from leaf have n: "q = p" "node_ok n" "children n = []" "nstart n = lstart t" "nend n = lend t"
    "lkind t = KName"
    by (auto simp: primary_leaf_def Let_def node_ok_def split: if_splits)
  moreover have "0 \<le> lstart t" "lstart t < lend t" "lend t \<le> slen source"
    using t(1) n by (simp_all add: lexeme_ok_def)
  ultimately show ?thesis using p t wf_leaf[of n "slen source"] by (simp add: parsed_def)
qed

lemma parser_parsed:
  shows "expression source m p = Inr (n, q) \<Longrightarrow> parser_inv source p \<Longrightarrow>
      parsed source (lstart (pcurrent p)) n p q"
    and "conditional source m l p = Inr (n, q) \<Longrightarrow> parser_inv source p \<Longrightarrow>
      wf_node (slen source) l \<Longrightarrow> nend l \<le> lstart (pcurrent p) \<Longrightarrow> parsed source (nstart l) n p q"
    and "climb source m l p = Inr (n, q) \<Longrightarrow> parser_inv source p \<Longrightarrow>
      wf_node (slen source) l \<Longrightarrow> nend l \<le> lstart (pcurrent p) \<Longrightarrow> parsed source (nstart l) n p q"
    and "primary source p = Inr (n, q) \<Longrightarrow> parser_inv source p \<Longrightarrow>
      parsed source (lstart (pcurrent p)) n p q"
    and "call_args source as p = Inr (ns, q) \<Longrightarrow> parser_inv source p \<Longrightarrow>
      chain i as (lstart (pcurrent p)) \<Longrightarrow> \<forall>a \<in> set as. wf_node (slen source) a \<Longrightarrow>
      parser_inv source q \<and> chain i ns (lstart (pcurrent q)) \<and>
      (\<forall>a \<in> set ns. wf_node (slen source) a) \<and> pdepth q = pdepth p"
proof (induction source m p and source m l p and source m l p and source p and source as p
    arbitrary: n q and n q and n q and n q and ns q i
    rule: expression_conditional_climb_primary_call_args.induct)
  case (1 source minimum p)
  from 1(4) obtain l2 p2 l3 p3 l4 p4 where s:
    "\<not> 128 < pdepth p + 1" "primary source (p\<lparr>pdepth := pdepth p + 1\<rparr>) = Inr (l2, p2)"
    "climb source minimum l2 p2 = Inr (l3, p3)" "conditional source minimum l3 p3 = Inr (l4, p4)"
    "n = l4" "q = p4\<lparr>pdepth := pdepth p4 - 1\<rparr>"
    by (auto simp: expression.simps[of source minimum p] Let_def rbind2_Inr split: if_splits)
  have a: "parsed source (lstart (pcurrent p)) l2 (p\<lparr>pdepth := pdepth p + 1\<rparr>) p2"
    using 1(1)[OF refl] s 1(5) by simp
  then have b: "parsed source (nstart l2) l3 p2 p3"
    using 1(2)[OF refl _ s(2)] s by (simp add: parsed_def)
  then have "parsed source (nstart l3) l4 p3 p4"
    using 1(3)[OF refl _ s(2) _ s(3)] s by (simp add: parsed_def)
  with a b s show ?case by (simp add: parsed_def)
next
  case (2 source minimum l p)
  show ?case
  proof (cases "minimum = 0 \<and> is_text p (js ''?'')")
    case True
    with 2(3) obtain t1 p1 y p2 t2 p3 z p4 where s:
      "take_lexeme source p = Inr (t1, p1)" "expression source 0 p1 = Inr (y, p2)"
      "expect source (js '':'') p2 = Inr (t2, p3)" "expression source 0 p3 = Inr (z, p4)"
      "n = Cond l y z (nstart l) (nend z)" "q = p4"
      by (auto simp: conditional.simps[of source _ l p] rbind2_Inr)
    note t = take_lexeme_inv[OF 2(4) s(1)]
    have y: "parsed source (lstart (pcurrent p1)) y p1 p2" using 2(1)[OF True s(1) refl s(2)] t by simp
    then have e: "parser_inv source p3 \<and> t2 = pcurrent p2 \<and> lend t2 \<le> lstart (pcurrent p3) \<and> pdepth p3 = pdepth p2"
      using expect_inv[OF _ s(3)] by (auto simp: parsed_def)
    then have z: "parsed source (lstart (pcurrent p3)) z p3 p4"
      using 2(2)[OF True s(1) refl s(2) refl s(3) refl s(4)] by simp
    have "lexeme_ok source (pcurrent p)" "lexeme_ok source (pcurrent p2)"
      using 2(4) y by (auto simp: parser_inv_def parsed_def)
    then have "lstart (pcurrent p) \<le> lend (pcurrent p)" "lstart (pcurrent p2) \<le> lend (pcurrent p2)"
      by (auto dest: lexeme_ok_le)
    with 2(5,6) t y e z have "wf_node (slen source) (Cond l y z (nstart l) (nend z))"
      by (intro wf_Cond) (auto simp: parsed_def)
    with t y e z s show ?thesis by (simp add: parsed_def)
  next
    case False
    with 2(3-6) show ?thesis by (auto simp: conditional.simps[of source _ l p] parsed_def)
  qed
next
  case (3 source minimum l p)
  show ?case
  proof (cases "\<exists>prec. map_of PRECEDENCE (ltext (pcurrent p)) = Some prec \<and> minimum \<le> prec")
    case True
    then obtain prec where prec: "map_of PRECEDENCE (ltext (pcurrent p)) = Some prec" "\<not> prec < minimum"
      by auto
    with 3(3) obtain t1 p1 r p2 where s:
      "take_lexeme source p = Inr (t1, p1)" "expression source (prec + 1) p1 = Inr (r, p2)"
      "climb source minimum (Binary (ltext t1) l r (nstart l) (nend r)) p2 = Inr (n, q)"
      by (auto simp: climb.simps[of source minimum l p] rbind2_Inr)
    note t = take_lexeme_inv[OF 3(4) s(1)]
    have r: "parsed source (lstart (pcurrent p1)) r p1 p2" using 3(1)[OF prec s(1) refl s(2)] t by simp
    have "ltext t1 \<in> fst ` set PRECEDENCE"
      using t map_of_SomeD[OF prec(1)] by (force intro: rev_image_eqI)
    moreover have "lstart (pcurrent p) \<le> lend (pcurrent p)"
      using 3(4) by (auto simp: parser_inv_def dest: lexeme_ok_le)
    ultimately have "wf_node (slen source) (Binary (ltext t1) l r (nstart l) (nend r))"
      using t r 3(5,6) by (intro wf_Binary) (auto simp: parsed_def)
    then show ?thesis
      using 3(2)[OF prec s(1) refl s(2) refl s(3)] r t by (simp add: parsed_def)
  next
    case False
    with 3(3) have "n = l" "q = p"
      by (auto simp: climb.simps[of source minimum l p] not_le split: option.splits if_splits)
    with 3(4-6) show ?thesis by (simp add: parsed_def)
  qed
next
  case (4 source p)
  from 4(4) obtain t p1 where t: "take_lexeme source p = Inr (t, p1)"
    by (auto simp: primary.simps[of source p] rbind2_Inr)
  note ti = take_lexeme_inv[OF 4(5) t]
  then have tok: "lexeme_ok source t" using 4(5) by (simp add: parser_inv_def)
  note tle = lexeme_ok_le[OF tok]
  consider (num) "lkind t = KNumber" | (str) "lkind t = KString"
    | (par) "lkind t \<noteq> KNumber" "lkind t \<noteq> KString" "ltext t = js ''(''"
    | (una) "lkind t \<noteq> KNumber" "lkind t \<noteq> KString" "ltext t \<noteq> js ''(''"
        "ltext t \<in> {js ''!'', js ''+'', js ''-''}"
    | (leaf) "lkind t \<noteq> KNumber" "lkind t \<noteq> KString" "ltext t \<noteq> js ''(''"
        "ltext t \<notin> {js ''!'', js ''+'', js ''-''}" "\<not> starts_call p1 t"
    | (call) "lkind t \<noteq> KNumber" "lkind t \<noteq> KString" "ltext t \<noteq> js ''(''"
        "ltext t \<notin> {js ''!'', js ''+'', js ''-''}" "\<not> \<not> starts_call p1 t"
    by blast
  then show ?case
  proof cases
    case num
    with 4(4) t have "n = Lit (lvalue t) (linteger t) (lstart t) (lend t)" "q = p1"
      by (simp_all add: primary.simps[of source p])
    with num tok ti show ?thesis
      by (auto simp: parsed_def lexeme_ok_def node_ok_def intro!: wf_leaf)
  next
    case str
    with 4(4) t have "n = Lit (lvalue t) False (lstart t) (lend t)" "q = p1"
      by (simp_all add: primary.simps[of source p])
    with str tok ti show ?thesis
      by (auto simp: parsed_def lexeme_ok_def node_ok_def intro!: wf_leaf)
  next
    case par
    with 4(4) t obtain e p2 t2 p3 where s: "expression source 0 p1 = Inr (e, p2)"
      "expect source (js '')'') p2 = Inr (t2, p3)" "n = with_span e (lstart t) (lend t2)" "q = p3"
      by (auto simp: primary.simps[of source p] rbind2_Inr)
    have e: "parsed source (lstart (pcurrent p1)) e p1 p2" using 4(1)[OF t refl refl par s(1)] ti by simp
    then have x: "parser_inv source p3 \<and> t2 = pcurrent p2 \<and> lend t2 \<le> lstart (pcurrent p3) \<and>
        pdepth p3 = pdepth p2 \<and> lexeme_ok source t2"
      using expect_inv[OF _ s(2)] by (auto simp: parsed_def parser_inv_def)
    with lexeme_ok_le[of source t2] e ti tle
    have "wf_node (slen source) (with_span e (lstart t) (lend t2))"
      by (intro wf_with_span) (auto simp: parsed_def)
    with s x e ti show ?thesis by (auto simp: parsed_def)
  next
    case una
    with 4(4) t obtain a p2 where s: "expression source 7 p1 = Inr (a, p2)"
      "n = Unary (ltext t) a (lstart t) (nend a)" "q = p2"
      by (auto simp: primary.simps[of source p] rbind2_Inr)
    have a: "parsed source (lstart (pcurrent p1)) a p1 p2" using 4(2)[OF t refl refl una s(1)] ti by simp
    with una(4) ti tle have "wf_node (slen source) (Unary (ltext t) a (lstart t) (nend a))"
      by (intro wf_Unary) (auto simp: parsed_def)
    with s a ti show ?thesis by (auto simp: parsed_def)
  next
    case leaf
    with 4(4) t have "primary_leaf p1 t = Inr (n, q)" by (simp add: primary.simps[of source p])
    from primary_leaf_parsed[OF _ tok _ this] ti show ?thesis by (auto simp: parsed_def)
  next
    case call
    with 4(4) t obtain arity where ar: "map_of billing_functions (ltext t) = Some arity"
      by (auto simp: primary.simps[of source p] Let_def split: option.splits)
    with call 4(4) t obtain t2 p2 as p3 t3 where s: "take_lexeme source p1 = Inr (t2, p2)"
      "call_args source [] p2 = Inr (as, p3)" "expect source (js '')'') p3 = Inr (t3, q)"
      "length as = arity" "n = Call (ltext t) as (lstart t) (lend t3)"
      by (auto simp: primary.simps[of source p] Let_def rbind2_Inr split: if_splits)
    from ti have t2: "parser_inv source p2 \<and> t2 = pcurrent p1 \<and> lend t2 \<le> lstart (pcurrent p2) \<and>
        pdepth p2 = pdepth p1 \<and> lexeme_ok source t2"
      using take_lexeme_inv[OF _ s(1)] by (auto simp: parser_inv_def)
    with lexeme_ok_le[of source t2] ti tle have "lstart t \<le> lstart (pcurrent p2)" by auto
    with 4(3)[OF t refl refl call ar s(1) refl s(2), of "lstart t"] t2
    have as: "parser_inv source p3 \<and> chain (lstart t) as (lstart (pcurrent p3)) \<and>
        (\<forall>a \<in> set as. wf_node (slen source) a) \<and> pdepth p3 = pdepth p2"
      by simp
    then have t3: "parser_inv source q \<and> t3 = pcurrent p3 \<and> ltext t3 = js '')'' \<and>
        lend t3 \<le> lstart (pcurrent q) \<and> pdepth q = pdepth p3 \<and> lexeme_ok source t3"
      using expect_inv[OF _ s(3)] by (auto simp: parser_inv_def)
    then have "lstart t3 < lend t3" by (auto simp: lexeme_ok_def slice_def split: if_splits)
    moreover have "chain (lstart t) as (lend t3)" "lstart t \<le> lstart t3"
      using as t3 lexeme_ok_le[of source t3] chain_mono[of "lstart t" as "lstart t3"]
        chain_le[of "lstart t" as "lstart t3"] by auto
    ultimately have "wf_node (slen source) (Call (ltext t) as (lstart t) (lend t3))"
      using as t3 tle lexeme_ok_le[of source t3] ar s(4) by (intro wf_Call) auto
    with s t3 as t2 ti show ?thesis by (auto simp: parsed_def)
  qed
next
  case (5 source as p)
  show ?case
  proof (cases "is_text p (js '')'')")
    case True
    with 5(3-6) show ?thesis by (simp add: call_args.simps[of source as p])
  next
    case False
    with 5(3) obtain a p1 where a: "expression source 0 p = Inr (a, p1)"
      by (auto simp: call_args.simps[of source as p] rbind2_Inr)
    have pa: "parsed source (lstart (pcurrent p)) a p p1" using 5(1)[OF False a] 5(4) by simp
    then have ch: "chain i (as @ [a]) (lstart (pcurrent p1))"
      using chain_snoc[OF 5(5), of a] wf_node_span[of "slen source" a] by (auto simp: parsed_def)
    show ?thesis
    proof (cases "is_text p1 (js '','')")
      case True
      with False 5(3) a obtain t p2 where s: "take_lexeme source p1 = Inr (t, p2)"
        "call_args source (as @ [a]) p2 = Inr (ns, q)"
        by (auto simp: call_args.simps[of source as p] rbind2_Inr)
      have t: "parser_inv source p2 \<and> t = pcurrent p1 \<and> lend t \<le> lstart (pcurrent p2) \<and> pdepth p2 = pdepth p1"
        "lexeme_ok source t"
        using pa take_lexeme_inv[OF _ s(1)] by (auto simp: parsed_def parser_inv_def)
      then have "chain i (as @ [a]) (lstart (pcurrent p2))"
        using ch lexeme_ok_le[of source t] chain_mono[of i "as @ [a]" _ i] by auto
      with 5(2)[OF False a refl _ s(1) refl s(2)] True t pa 5(6) show ?thesis
        by (auto simp: parsed_def)
    next
      case no: False
      with False 5(3) a have "ns = as @ [a]" "q = p1"
        by (auto simp: call_args.simps[of source as p])
      with ch pa 5(6) show ?thesis by (auto simp: parsed_def)
    qed
  qed
qed

lemma parse_wf_node: "parse source = Inr n \<Longrightarrow> wf_node (slen source) n"
  by (auto simp: parse_def rsimps parsed_def split: if_splits
      dest!: new_parser_inv dest: parser_parsed(1))

section \<open>Nodes of a parsed tree are pairwise different\<close>

text \<open>
  Nodes of disjoint subtrees have disjoint spans and a node is larger than its descendants, so
  no value occurs twice in a tree: comparing nodes as values is comparing them by identity.
\<close>

lemma chain_bounds: "chain i ns j \<Longrightarrow> n \<in> set ns \<Longrightarrow> i \<le> nstart n \<and> nend n \<le> j"
proof (induction ns arbitrary: i)
  case (Cons m ns)
  then show ?case using chain_le[of "nend m" ns j] by fastforce
qed simp

lemma postorder_bounds:
  "wf_node len n \<Longrightarrow> m \<in> set (postorder n) \<Longrightarrow>
   nstart n \<le> nstart m \<and> nend m \<le> nend n \<and> node_weight m \<le> node_weight n \<and> wf_node len m"
proof (induction n arbitrary: m rule: node_children_induct)
  case (node n)
  show ?case
  proof (cases "m = n")
    case False
    with node.prems(2) obtain c where c: "c \<in> set (children n)" "m \<in> set (postorder c)"
      by (subst (asm) postorder_children) auto
    from node.prems(1) have w: "chain (nstart n) (children n) (nend n)" "wf_node len c"
      using c(1) by (auto elim: wf_node.cases)
    have "node_weight c \<le> node_weight n"
      using member_le_sum_list[of "node_weight c" "map node_weight (children n)"] c(1)
      by (simp add: node_weight_children[of n])
    with node.IH[OF c(1) w(2) c(2)] chain_bounds[OF w(1) c(1)] show ?thesis by auto
  qed (use node.prems in auto)
qed

lemma postorder_child_smaller:
  assumes "wf_node len n" and "c \<in> set (children n)" and "m \<in> set (postorder c)"
  shows "node_weight m < node_weight n"
proof -
  have "wf_node len c" using assms by (auto elim: wf_node.cases)
  then have "node_weight m \<le> node_weight c" using postorder_bounds assms(3) by blast
  also have "node_weight c \<le> sum_list (map node_weight (children n))"
    using assms(2) by (intro member_le_sum_list) auto
  also have "\<dots> < node_weight n" by (simp add: node_weight_children[of n])
  finally show ?thesis .
qed

lemma distinct_chain_postorder:
  assumes "chain i ns j" and "\<forall>n \<in> set ns. wf_node len n \<and> distinct (postorder n)"
  shows "distinct (concat (map postorder ns))"
  using assms
proof (induction ns arbitrary: i)
  case (Cons n ns)
  have "m \<notin> set (concat (map postorder ns))" if "m \<in> set (postorder n)" for m
  proof
    assume "m \<in> set (concat (map postorder ns))"
    then obtain n' where n': "n' \<in> set ns" "m \<in> set (postorder n')" by auto
    have "nend m \<le> nend n" "nstart m < nend m"
      using postorder_bounds[of len n m] that Cons.prems wf_node_span[of len m] by auto
    moreover have "nend n \<le> nstart n'" "nstart n' \<le> nstart m"
      using chain_bounds[of "nend n" ns j n'] postorder_bounds[of len n' m] n' Cons.prems by auto
    ultimately show False by simp
  qed
  with Cons show ?case by auto
qed simp

lemma distinct_postorder: "wf_node len n \<Longrightarrow> distinct (postorder n)"
proof (induction n rule: node_children_induct)
  case (node n)
  have w: "chain (nstart n) (children n) (nend n)" "\<forall>c \<in> set (children n). wf_node len c"
    using node.prems by (auto elim: wf_node.cases)
  have "distinct (concat (map postorder (children n)))"
    using w node.IH by (intro distinct_chain_postorder[where len = len]) auto
  moreover have "n \<notin> set (concat (map postorder (children n)))"
    using postorder_child_smaller[OF node.prems] by fastforce
  ultimately show ?case by (subst postorder_children) simp
qed

end
