(* ===== verification/JsValue.thy ===== *)
theory JsValue
  imports JsText
begin

text \<open>
  Values of the language that the sources handle as \<open>unknown\<close>: JSON-like data with \<open>undefined\<close>,
  the order of strings, \<open>Number(text)\<close>, \<open>toExponential\<close> and the UTC fields of a \<open>Date\<close>.
\<close>

section \<open>Values\<close>

datatype jsval =
    VUndef
  | VNull
  | VBool bool
  | VNum jsnum
  | VStr jsstr
  | VArr "jsval list"
  | VObj "(jsstr \<times> jsval) list"

text \<open>The tests \<open>value == null\<close> and \<open>typeof value === 'object'\<close> (true of \<open>null\<close> too).\<close>

definition is_nullish :: "jsval \<Rightarrow> bool" where
  "is_nullish v \<longleftrightarrow> v = VUndef \<or> v = VNull"

definition typeof_object :: "jsval \<Rightarrow> bool" where
  "typeof_object v = (case v of VNull \<Rightarrow> True | VArr _ \<Rightarrow> True | VObj _ \<Rightarrow> True | _ \<Rightarrow> False)"

text \<open>Strict equality of values that are not both objects.\<close>

definition strict_eq :: "jsval \<Rightarrow> jsval \<Rightarrow> bool" where
  "strict_eq a b =
     (case (a, b) of
        (VUndef, VUndef) \<Rightarrow> True
      | (VNull, VNull) \<Rightarrow> True
      | (VBool x, VBool y) \<Rightarrow> x = y
      | (VNum x, VNum y) \<Rightarrow> num_eq x y
      | (VStr x, VStr y) \<Rightarrow> x = y
      | _ \<Rightarrow> False)"

section \<open>The order of strings\<close>

fun str_lt :: "jsstr \<Rightarrow> jsstr \<Rightarrow> bool" where
  "str_lt [] [] = False"
| "str_lt [] (y # ys) = True"
| "str_lt (x # xs) [] = False"
| "str_lt (x # xs) (y # ys) = (x < y \<or> (x = y \<and> str_lt xs ys))"

lemma str_lt_irrefl [simp]: "\<not> str_lt x x"
  by (induction x) auto

lemma str_lt_trans: "str_lt x y \<Longrightarrow> str_lt y z \<Longrightarrow> str_lt x z"
proof (induction x y arbitrary: z rule: str_lt.induct)
  case (2 y ys)
  then show ?case by (cases z) auto
next
  case (4 x xs y ys)
  then show ?case by (cases z) auto
qed auto

lemma str_lt_linear: "str_lt x y \<or> x = y \<or> str_lt y x"
  by (induction x y rule: str_lt.induct) auto

text \<open>
  \<open>Array.prototype.sort\<close> is stable; on entries with distinct keys every stable sort by key gives
  the same list, here insertion sort.
\<close>

fun insert_entry :: "jsstr \<times> 'a \<Rightarrow> (jsstr \<times> 'a) list \<Rightarrow> (jsstr \<times> 'a) list" where
  "insert_entry e [] = [e]"
| "insert_entry e (f # fs) = (if str_lt (fst f) (fst e) then f # insert_entry e fs else e # f # fs)"

fun sort_entries :: "(jsstr \<times> 'a) list \<Rightarrow> (jsstr \<times> 'a) list" where
  "sort_entries [] = []"
| "sort_entries (e # es) = insert_entry e (sort_entries es)"

lemma set_insert_entry: "set (insert_entry e es) = insert e (set es)"
  by (induction es) auto

lemma set_sort_entries [simp]: "set (sort_entries es) = set es"
  by (induction es) (auto simp: set_insert_entry)

definition key_le :: "jsstr \<times> 'a \<Rightarrow> jsstr \<times> 'a \<Rightarrow> bool" where
  "key_le a b \<longleftrightarrow> \<not> str_lt (fst b) (fst a)"

lemma key_le_trans: "key_le a b \<Longrightarrow> key_le b c \<Longrightarrow> key_le a c"
  using str_lt_linear[of "fst a" "fst b"] str_lt_linear[of "fst b" "fst c"] str_lt_trans
  by (auto simp: key_le_def)

lemma sorted_insert_entry:
  assumes "sorted_wrt key_le es"
  shows "sorted_wrt key_le (insert_entry e es)"
  using assms
proof (induction es)
  case (Cons f fs)
  show ?case
  proof (cases "str_lt (fst f) (fst e)")
    case True
    then have "key_le f e" using str_lt_trans[of "fst f" "fst e" "fst f"] by (auto simp: key_le_def)
    with True Cons show ?thesis by (auto simp: set_insert_entry)
  next
    case False
    then have "key_le e f" by (simp add: key_le_def)
    with False Cons show ?thesis by (auto intro: key_le_trans)
  qed
qed simp

lemma sorted_sort_entries: "sorted_wrt key_le (sort_entries es)"
  by (induction es) (auto simp: sorted_insert_entry)

section \<open>Numbers and text\<close>

text \<open>The prefixed literals \<open>0x\<close>, \<open>0o\<close>, \<open>0b\<close> of \<open>Number(text)\<close>.\<close>

definition digit_value :: "jschar \<Rightarrow> int" where
  "digit_value c =
     (if is_digit c then c - 48 else if 65 \<le> c \<and> c \<le> 70 then c - 55
      else if 97 \<le> c \<and> c \<le> 102 then c - 87 else 16)"

definition radix_value :: "int \<Rightarrow> jsstr \<Rightarrow> jsnum" where
  "radix_value b ds =
     (if ds \<noteq> [] \<and> list_all (\<lambda>c. digit_value c < b) ds
      then num_of_int (foldl (\<lambda>a c. b * a + digit_value c) 0 ds) else NaN)"

definition unsigned_number :: "jsstr \<Rightarrow> jsnum" where
  "unsigned_number s =
     (if s = js ''Infinity'' then PInf
      else (case number_of_text s of Some x \<Rightarrow> x | None \<Rightarrow> NaN))"

definition js_number :: "jsstr \<Rightarrow> jsnum" where
  "js_number text =
     (let s = trim text in
      case s of
        [] \<Rightarrow> Fin 0
      | c # r \<Rightarrow>
          if c = 43 then unsigned_number r
          else if c = 45 then num_neg (unsigned_number r)
          else if c = 48 \<and> r \<noteq> [] \<and> hd r \<in> {120, 88} then radix_value 16 (tl r)
          else if c = 48 \<and> r \<noteq> [] \<and> hd r \<in> {111, 79} then radix_value 8 (tl r)
          else if c = 48 \<and> r \<noteq> [] \<and> hd r \<in> {98, 66} then radix_value 2 (tl r)
          else unsigned_number s)"

text \<open>\<open>toExponential()\<close> of a finite number: the mantissa and the exponent.\<close>

definition to_exponential :: "jsnum \<Rightarrow> jsstr \<times> int" where
  "to_exponential a =
     (if is_zero a then (js ''0'', 0)
      else (let (ds, n) = decimal_digits \<bar>num_val a\<bar>;
                m = (if length ds = 1 then ds else take 1 ds @ [46] @ drop 1 ds)
            in ((if sign_bit a then [45] else []) @ m, n - 1)))"

definition pad_start :: "int \<Rightarrow> jschar \<Rightarrow> jsstr \<Rightarrow> jsstr" where
  "pad_start w c s = replicate (nat (w - slen s)) c @ s"

section \<open>Dates\<close>

text \<open>A \<open>Date\<close> is its time value in milliseconds, \<open>None\<close> for an invalid date.\<close>

type_synonym date = "int option"

definition day_number :: "int \<Rightarrow> int" where
  "day_number t = t div 86400000"

definition utc_hours :: "int \<Rightarrow> int" where
  "utc_hours t = t div 3600000 mod 24"

definition utc_minutes :: "int \<Rightarrow> int" where
  "utc_minutes t = t div 60000 mod 60"

definition utc_weekday :: "int \<Rightarrow> int" where
  "utc_weekday t = (day_number t + 4) mod 7"

text \<open>
  Month (from 1) and day of month, by the count of days from 1 March of year 0 in cycles of 400
  years.
\<close>

definition civil_month_day :: "int \<Rightarrow> int \<times> int" where
  "civil_month_day days =
     (let z = days + 719468;
          doe = z mod 146097;
          yoe = (doe - doe div 1460 + doe div 36524 - doe div 146096) div 365;
          doy = doe - (365 * yoe + yoe div 4 - yoe div 100);
          mp = (5 * doy + 2) div 153
      in (if mp < 10 then mp + 3 else mp - 9, doy - (153 * mp + 2) div 5 + 1))"

definition utc_month :: "int \<Rightarrow> int" where
  "utc_month t = fst (civil_month_day (day_number t))"

definition utc_date :: "int \<Rightarrow> int" where
  "utc_date t = snd (civil_month_day (day_number t))"

lemma utc_ranges:
  "0 \<le> utc_hours t \<and> utc_hours t < 24" "0 \<le> utc_minutes t \<and> utc_minutes t < 60"
  "0 \<le> utc_weekday t \<and> utc_weekday t < 7"
  by (simp_all add: utc_hours_def utc_minutes_def utc_weekday_def)

end
