(* ===== verification/Runtime.thy ===== *)
theory Runtime
  imports Compile JsValue
begin

text \<open>
  The evaluator of \<open>billing-expression/runtime.ts\<close>: request paths, the textual form of request
  values, billing time zones, the class \<open>BillingRuntime\<close> with its evaluation methods, and the two
  entry points. The host's time zone database and case mapping are arguments.
\<close>

section \<open>Request paths\<close>

definition path_specials :: jsstr where
  "path_specials = js ''*?[]()|@!''"

text \<open>The loop that splits a path at its dots; \<open>path\<close> is the whole path for the diagnostic.\<close>

fun split_path :: "jsstr \<Rightarrow> jsstr \<Rightarrow> jsstr \<Rightarrow> jsstr list \<Rightarrow> expr_error + jsstr list" where
  "split_path path [] part parts = Inr (parts @ [part])"
| "split_path path [c] part parts =
     (if c = 92 then Inl (fail CUnsupported path)
      else if c = 46 then split_path path [] [] (parts @ [part])
      else if c \<in> set path_specials then Inl (fail CUnsupported path)
      else split_path path [] (part @ [c]) parts)"
| "split_path path (c # d # r) part parts =
     (if c = 92 then split_path path r (part @ [d]) parts
      else if c = 46 then split_path path (d # r) [] (parts @ [part])
      else if c \<in> set path_specials then Inl (fail CUnsupported path)
      else split_path path (d # r) (part @ [c]) parts)"

text \<open>An element by index, \<open>undefined\<close> outside the array.\<close>

definition array_at :: "jsval list \<Rightarrow> int \<Rightarrow> jsval" where
  "array_at vs i = (case idrop i vs of [] \<Rightarrow> VUndef | v # _ \<Rightarrow> v)"

fun walk_path :: "jsstr \<Rightarrow> jsstr list \<Rightarrow> jsval \<Rightarrow> expr_error + jsval" where
  "walk_path path [] v = Inr (if is_nullish v then VNull else v)"
| "walk_path path (key # parts) v =
     (case v of
        VArr vs \<Rightarrow>
          if key = js ''#'' \<and> parts = [] then Inr (VNum (num_of_int (slen vs)))
          else if key = js ''#'' then Inl (fail CUnsupported path)
          else if key = [] \<or> \<not> list_all is_digit key then Inr VNull
          else (let index = num_of_int (digits_val key)
                in walk_path path parts
                     (if is_safe_integer index then array_at vs \<lfloor>num_val index\<rfloor> else VUndef))
      | VObj fs \<Rightarrow>
          (case map_of fs key of Some w \<Rightarrow> walk_path path parts w | None \<Rightarrow> Inr VNull)
      | _ \<Rightarrow> Inr VNull)"

definition readRequestPath :: "jsval \<Rightarrow> jsstr \<Rightarrow> expr_error + jsval" where
  "readRequestPath body rawPath =
     (let path = trim rawPath in
      if path = [] then Inr VNull
      else rbind (split_path path path [] []) (\<lambda>parts. walk_path path parts body))"

section \<open>The text of a request value\<close>

definition number_string :: "jsnum \<Rightarrow> expr_error + jsstr" where
  "number_string x =
     (if \<not> is_finite x then Inl (fail CNumber (js ''request number''))
      else if x = NegZero then Inr (js ''-0'')
      else (let (mantissa, e) = to_exponential x in
            if 6 \<le> e \<or> e < -4
            then Inr (mantissa @ js ''e'' @ (if e < 0 then js ''-'' else js ''+'') @
                      pad_start 2 48 (show_int \<bar>e\<bar>))
            else Inr (num_to_string x)))"

text \<open>Results in order, or the first error.\<close>

fun collect :: "('k \<times> (expr_error + 'a)) list \<Rightarrow> expr_error + ('k \<times> 'a) list" where
  "collect [] = Inr []"
| "collect ((k, r) # rs) = rbind r (\<lambda>t. rbind (collect rs) (\<lambda>ts. Inr ((k, t) # ts)))"

text \<open>
  The text of every field is computed before the entries are sorted; the first error is the one
  of the first entry in sorted order, as in the source.
\<close>

fun billingString :: "int \<Rightarrow> jsval \<Rightarrow> expr_error + jsstr" where
  "billingString depth v =
     (if 128 < depth then Inl (fail CLimit (js ''request value depth''))
      else case v of
        VUndef \<Rightarrow> Inr (js ''<nil>'')
      | VNull \<Rightarrow> Inr (js ''<nil>'')
      | VArr vs \<Rightarrow>
          rbind (collect (map (\<lambda>item. ((), billingString (depth + 1) item)) vs)) (\<lambda>ts.
            Inr (js ''['' @ join (js '' '') (map snd ts) @ js '']''))
      | VObj fs \<Rightarrow>
          rbind (collect (sort_entries (map (\<lambda>(key, item). (key, billingString (depth + 1) item)) fs))) (\<lambda>ts.
            Inr (js ''map['' @ join (js '' '') (map (\<lambda>(key, t). key @ js '':'' @ t) ts) @ js '']''))
      | VNum x \<Rightarrow> number_string x
      | VBool b \<Rightarrow> Inr (if b then js ''true'' else js ''false'')
      | VStr s \<Rightarrow> Inr s)"

declare billingString.simps [simp del]

section \<open>Billing time zones\<close>

text \<open>
  What the evaluator takes from its host: \<open>toLowerCase\<close>, the formatter of a time zone (the zone's
  resolved name and the parts of a time in it, \<open>None\<close> where the constructor throws) and the
  current time.
\<close>

record host =
  lower_case :: "jsstr \<Rightarrow> jsstr"
  zone_format :: "jsstr \<Rightarrow> int \<Rightarrow> (jsstr \<times> (jsstr, jsstr) orec) option"
  current_time :: date

record time_values =
  tv_hour :: jsnum
  tv_minute :: jsnum
  tv_weekday :: jsnum
  tv_month :: jsnum
  tv_day :: jsnum

text \<open>The pattern \<open>^[A-Z][A-Za-z0-9_+-]*(?:\/[A-Z][A-Za-z0-9_+-]*)*$\<close>.\<close>

definition zone_segment :: "jsstr \<Rightarrow> bool" where
  "zone_segment s =
     (case s of [] \<Rightarrow> False
      | c # r \<Rightarrow> 65 \<le> c \<and> c \<le> 90 \<and> list_all (\<lambda>d. is_word d \<or> d = 43 \<or> d = 45) r)"

definition zone_pattern :: "jsstr \<Rightarrow> bool" where
  "zone_pattern s = list_all zone_segment (split_on 47 s)"

definition weekday_names :: "jsstr list" where
  "weekday_names = [js ''Sun'', js ''Mon'', js ''Tue'', js ''Wed'', js ''Thu'', js ''Fri'', js ''Sat'']"

fun index_of :: "'a \<Rightarrow> 'a list \<Rightarrow> int \<Rightarrow> int" where
  "index_of x [] i = -1"
| "index_of x (y # ys) i = (if x = y then i else index_of x ys (i + 1))"

text \<open>\<open>Number(parts.key)\<close>: a missing part is \<open>undefined\<close>.\<close>

definition part_number :: "(jsstr, jsstr) orec \<Rightarrow> jsstr \<Rightarrow> jsnum" where
  "part_number parts key = (case map_of parts key of Some t \<Rightarrow> js_number t | None \<Rightarrow> NaN)"

definition utc_values :: "int \<Rightarrow> time_values" where
  "utc_values t =
     \<lparr>tv_hour = num_of_int (utc_hours t), tv_minute = num_of_int (utc_minutes t),
      tv_weekday = num_of_int (utc_weekday t), tv_month = num_of_int (utc_month t),
      tv_day = num_of_int (utc_date t)\<rparr>"

definition zone_values :: "(jsstr, jsstr) orec \<Rightarrow> time_values" where
  "zone_values parts =
     \<lparr>tv_hour = part_number parts (js ''hour''), tv_minute = part_number parts (js ''minute''),
      tv_weekday = num_of_int (case map_of parts (js ''weekday'') of
                                 Some w \<Rightarrow> index_of w weekday_names 0 | None \<Rightarrow> -1),
      tv_month = part_number parts (js ''month''), tv_day = part_number parts (js ''day'')\<rparr>"

definition timeInBillingZone :: "host \<Rightarrow> date \<Rightarrow> jsstr \<Rightarrow> expr_error + time_values" where
  "timeInBillingZone h now zone =
     (case now of
        None \<Rightarrow> Inl (fail CType (js ''simulation time''))
      | Some t \<Rightarrow>
          (let timezone = (if trim zone = [] then js ''UTC'' else trim zone) in
           if timezone = js ''Local'' then Inl (fail CUnsupported (js ''server Local timezone''))
           else if \<not> zone_pattern timezone then Inr (utc_values t)
           else (case zone_format h timezone t of
               None \<Rightarrow> Inr (utc_values t)
             | Some (resolved, parts) \<Rightarrow>
                 if lower_case h resolved = lower_case h timezone \<and> resolved \<noteq> timezone
                 then Inr (utc_values t)
                 else Inr (zone_values (foldl (\<lambda>r (k, v). orec_set k v r) [] parts)))))"

section \<open>Evaluation\<close>

record request_data =
  req_body :: jsval
  req_headers :: "(jsstr, jsval) orec option"

record simulation_context =
  ctx_imageCount :: "jsnum option"
  ctx_tokens :: "(jsstr, jsval) orec option"
  ctx_request :: "request_data option"
  ctx_usage :: "(jsstr, jsval) orec option"
  ctx_now :: "date option"

definition empty_context :: simulation_context where
  "empty_context = \<lparr>ctx_imageCount = None, ctx_tokens = None, ctx_request = None, ctx_usage = None,
     ctx_now = None\<rparr>"

record rule_trace =
  trace_cond :: jsstr
  trace_multiplier :: jsnum
  trace_matched :: bool

datatype billing_unit = UToken | URequest

text \<open>The fields of \<open>BillingRuntime\<close> that never change, and the ones evaluation updates.\<close>

record runtime_env =
  env_host :: host
  env_rules :: "request_rule list"
  env_context :: simulation_context
  env_now :: date
  env_headers :: "(jsstr, jsstr) orec"

record runtime_state =
  st_rules :: "rule_trace list"
  st_tier :: jsstr
  st_unit :: billing_unit
  st_fixed :: "jsnum option"
  st_times :: "(jsstr, time_values) orec"

text \<open>The loop of the constructor over the entries of the request headers.\<close>

fun read_headers :: "host \<Rightarrow> (jsstr, jsval) orec \<Rightarrow> (jsstr, jsstr) orec \<Rightarrow> expr_error + (jsstr, jsstr) orec" where
  "read_headers h [] hs = Inr hs"
| "read_headers h ((name, raw) # r) hs =
     (case raw of
        VStr t \<Rightarrow>
          (let key = lower_case h (trim name); val = trim t
           in read_headers h r (if key \<noteq> [] \<and> val \<noteq> [] then orec_set key val hs else hs))
      | _ \<Rightarrow> Inl (fail CType (js ''request header'')))"

definition new_runtime ::
  "host \<Rightarrow> compiled \<Rightarrow> simulation_context \<Rightarrow> expr_error + runtime_env \<times> runtime_state" where
  "new_runtime h c ctx =
     rbind (read_headers h
       (case ctx_request ctx of Some r \<Rightarrow> (case req_headers r of Some hs \<Rightarrow> hs | None \<Rightarrow> []) | None \<Rightarrow> []) [])
       (\<lambda>hs. Inr
         (\<lparr>env_host = h, env_rules = crules c, env_context = ctx,
           env_now = (case ctx_now ctx of Some d \<Rightarrow> d | None \<Rightarrow> current_time h), env_headers = hs\<rparr>,
          \<lparr>st_rules = map (\<lambda>r. \<lparr>trace_cond = rule_cond r, trace_multiplier = rule_multiplier r,
                                trace_matched = False\<rparr>) (crules c),
           st_tier = [], st_unit = UToken, st_fixed = None, st_times = []\<rparr>))"

record runtime_value =
  rv_value :: jsval
  rv_integer :: bool

abbreviation plain :: "jsval \<Rightarrow> runtime_value" where
  "plain v \<equiv> \<lparr>rv_value = v, rv_integer = False\<rparr>"

text \<open>The conversions of \<open>boolean\<close>, \<open>numeric\<close> and \<open>string\<close>, applied to the value of \<open>node\<close>.\<close>

definition as_boolean :: "node \<Rightarrow> runtime_value \<times> runtime_state \<Rightarrow> expr_error + bool \<times> runtime_state" where
  "as_boolean n r =
     (case rv_value (fst r) of VBool b \<Rightarrow> Inr (b, snd r)
      | _ \<Rightarrow> Inl (fail_at CType (js ''boolean condition'') (nstart n)))"

definition as_numeric ::
  "node \<Rightarrow> runtime_value \<times> runtime_state \<Rightarrow> expr_error + (jsnum \<times> bool) \<times> runtime_state" where
  "as_numeric n r =
     (case rv_value (fst r) of VNum x \<Rightarrow> Inr ((x, rv_integer (fst r)), snd r)
      | _ \<Rightarrow> Inl (fail_at CType (js ''numeric operand'') (nstart n)))"

definition as_string :: "node \<Rightarrow> runtime_value \<times> runtime_state \<Rightarrow> expr_error + jsstr \<times> runtime_state" where
  "as_string n r =
     (case rv_value (fst r) of VStr t \<Rightarrow> Inr (t, snd r)
      | _ \<Rightarrow> Inl (fail_at CType (js ''string argument'') (nstart n)))"

definition variable_value :: "simulation_context \<Rightarrow> jsstr \<Rightarrow> int \<Rightarrow> expr_error + jsnum" where
  "variable_value ctx name start =
     (if name = js ''image_count'' then
        (let x = (case ctx_imageCount ctx of Some x \<Rightarrow> x | None \<Rightarrow> Fin 1) in
         if \<not> is_integer x \<or> num_lt x (Fin 1) \<or> num_lt (Fin 128) x
         then Inl (fail_at CNumber (js ''image_count must be between 1 and 128'') start) else Inr x)
      else (case (case ctx_tokens ctx of Some ts \<Rightarrow> map_of ts name | None \<Rightarrow> None) of
          None \<Rightarrow> Inl (fail_at CMissingContext name start)
        | Some v \<Rightarrow>
            (case v of
               VUndef \<Rightarrow> Inl (fail_at CMissingContext name start)
             | VNum x \<Rightarrow> if num_lt x (Fin 0) then Inl (fail_at CNumber name start) else Inr x
             | _ \<Rightarrow> Inl (fail_at CNumber name start))))"

text \<open>\<open>findIndex\<close> over the rules, then the update of the trace at that index.\<close>

fun mark_rule :: "request_rule list \<Rightarrow> node \<Rightarrow> rule_trace list \<Rightarrow> rule_trace list" where
  "mark_rule (r # rs) n (t # ts) =
     (if rule_node r = n then t\<lparr>trace_matched := True\<rparr> # ts else t # mark_rule rs n ts)"
| "mark_rule _ n ts = ts"

text \<open>The arithmetic and comparison half of \<open>binary\<close>, after both operands were evaluated.\<close>

definition binary_equality :: "jsstr \<Rightarrow> jsval \<Rightarrow> jsval \<Rightarrow> int \<Rightarrow> expr_error + runtime_value" where
  "binary_equality op a b start =
     (if a \<noteq> VNull \<and> b \<noteq> VNull \<and> (typeof_object a \<or> typeof_object b)
      then Inl (fail_at CUnsupported (js ''object comparison'') start)
      else Inr (plain (VBool (if op = js ''=='' then strict_eq a b else \<not> strict_eq a b))))"

definition compare_values :: "jsstr \<Rightarrow> jsval \<Rightarrow> jsval \<Rightarrow> bool option" where
  "compare_values op a b =
     (case (a, b) of
        (VNum x, VNum y) \<Rightarrow>
          if op = js ''<'' then Some (num_lt x y) else if op = js ''<='' then Some (num_le x y)
          else if op = js ''>'' then Some (num_lt y x) else if op = js ''>='' then Some (num_le y x)
          else None
      | (VStr x, VStr y) \<Rightarrow>
          if op = js ''<'' then Some (str_lt x y) else if op = js ''<='' then Some (\<not> str_lt y x)
          else if op = js ''>'' then Some (str_lt y x) else if op = js ''>='' then Some (\<not> str_lt x y)
          else None
      | _ \<Rightarrow> None)"

definition binary_arith :: "jsstr \<Rightarrow> jsnum \<Rightarrow> jsnum \<Rightarrow> bool \<Rightarrow> int \<Rightarrow> expr_error + runtime_value" where
  "binary_arith op x y isint start =
     (if op = js ''+'' then Inr \<lparr>rv_value = VNum (num_add x y), rv_integer = isint\<rparr>
      else if op = js ''-'' then Inr \<lparr>rv_value = VNum (num_sub x y), rv_integer = isint\<rparr>
      else if op = js ''*'' then Inr \<lparr>rv_value = VNum (num_mul x y), rv_integer = isint\<rparr>
      else if op = js ''/'' then Inr (plain (VNum (num_div x y)))
      else if op = js ''%'' then
        (if \<not> isint then Inl (fail_at CType (js ''integer modulo'') start)
         else Inr \<lparr>rv_value = VNum (num_rem x y), rv_integer = True\<rparr>)
      else Inl (fail_at CUnsupported op start))"

definition binary_values ::
  "jsstr \<Rightarrow> runtime_value \<Rightarrow> runtime_value \<Rightarrow> int \<Rightarrow> expr_error + runtime_value" where
  "binary_values op l r start =
     (let a = rv_value l; b = rv_value r in
      if op = js ''=='' \<or> op = js ''!='' then binary_equality op a b start
      else case (a, b, op = js ''+'') of
        (VStr x, VStr y, True) \<Rightarrow> Inr (plain (VStr (x @ y)))
      | _ \<Rightarrow>
        (case compare_values op a b of
           Some t \<Rightarrow> Inr (plain (VBool t))
         | None \<Rightarrow>
             (case (a, b) of
                (VNum x, VNum y) \<Rightarrow> binary_arith op x y (rv_integer l \<and> rv_integer r) start
              | _ \<Rightarrow> Inl (fail_at CType op start))))"

text \<open>The check of \<open>evaluate\<close> on a computed value.\<close>

definition checked :: "int \<Rightarrow> runtime_value \<times> runtime_state \<Rightarrow> expr_error + runtime_value \<times> runtime_state" where
  "checked start r =
     (case rv_value (fst r) of
        VNum x \<Rightarrow>
          if \<not> is_finite x then Inl (fail_at CNumber (js ''non-finite result'') start)
          else if rv_integer (fst r) \<and> \<not> is_safe_integer x
          then Inl (fail_at CUnsupported (js ''integer precision'') start)
          else Inr r
      | _ \<Rightarrow> Inr r)"

definition literal_value :: "literal \<Rightarrow> jsval" where
  "literal_value l =
     (case l of LNull \<Rightarrow> VNull | LBool b \<Rightarrow> VBool b | LNum x \<Rightarrow> VNum x | LStr t \<Rightarrow> VStr t)"

definition time_field :: "time_values \<Rightarrow> jsstr \<Rightarrow> jsnum" where
  "time_field tv f =
     (if f = js ''hour'' then tv_hour tv else if f = js ''minute'' then tv_minute tv
      else if f = js ''weekday'' then tv_weekday tv else if f = js ''month'' then tv_month tv
      else tv_day tv)"

text \<open>The lookup of a zone's time in the runtime's table, filled on first use.\<close>

definition zone_time ::
  "runtime_env \<Rightarrow> jsstr \<Rightarrow> (jsstr, time_values) orec \<Rightarrow> expr_error + time_values \<times> (jsstr, time_values) orec" where
  "zone_time e zone table =
     (case map_of table zone of
        Some tv \<Rightarrow> Inr (tv, table)
      | None \<Rightarrow> rbind (timeInBillingZone (env_host e) (env_now e) zone) (\<lambda>tv.
                  Inr (tv, orec_set zone tv table)))"

text \<open>
  The methods that do not evaluate further nodes once their arguments are values: request
  parameters, headers, usage, substring search and the time functions.
\<close>

definition call_param :: "runtime_env \<Rightarrow> int \<Rightarrow> jsstr \<Rightarrow> expr_error + jsval" where
  "call_param e start path =
     (case ctx_request (env_context e) of
        None \<Rightarrow> Inl (fail_at CMissingContext (js ''request body'') start)
      | Some r \<Rightarrow> readRequestPath (req_body r) path)"

definition call_header :: "runtime_env \<Rightarrow> int \<Rightarrow> jsstr \<Rightarrow> expr_error + jsval" where
  "call_header e start name =
     (let key = lower_case (env_host e) (trim name) in
      case ctx_request (env_context e) of
        None \<Rightarrow> Inl (fail_at CMissingContext (js ''request headers'') start)
      | Some r \<Rightarrow> Inr (VStr (case map_of (env_headers e) key of Some t \<Rightarrow> t | None \<Rightarrow> [])))"

definition call_usage :: "runtime_env \<Rightarrow> int \<Rightarrow> jsstr \<Rightarrow> expr_error + jsval" where
  "call_usage e start name =
     (case ctx_usage (env_context e) of
        None \<Rightarrow> Inl (fail_at CMissingContext (js ''task usage'') start)
      | Some us \<Rightarrow> Inr (case map_of us name of Some v \<Rightarrow> v | None \<Rightarrow> VNull))"

definition call_has :: "jsval \<Rightarrow> jsstr \<Rightarrow> expr_error + jsval" where
  "call_has v sub =
     (if is_nullish v \<or> sub = [] then Inr (VBool False)
      else rbind (billingString 0 v) (\<lambda>t. Inr (VBool (str_includes t sub))))"

definition call_time ::
  "runtime_env \<Rightarrow> jsstr \<Rightarrow> jsstr \<Rightarrow> runtime_state \<Rightarrow> expr_error + runtime_value \<times> runtime_state" where
  "call_time e f zone s =
     rbind (zone_time e (trim zone) (st_times s)) (\<lambda>(tv, table).
       Inr (\<lparr>rv_value = VNum (time_field tv f), rv_integer = True\<rparr>, s\<lparr>st_times := table\<rparr>))"

abbreviation with_state :: "runtime_state \<Rightarrow> expr_error + jsval \<Rightarrow> expr_error + runtime_value \<times> runtime_state" where
  "with_state s m \<equiv> rbind m (\<lambda>v. Inr (plain v, s))"

definition missing_argument :: expr_error where
  "missing_argument = NativeError (js ''Cannot read properties of undefined (reading 'kind')'')"

text \<open>
  The evaluation methods. \<open>d\<close> is the field \<open>depth\<close>: it counts the calls of \<open>evaluate\<close> in progress,
  since the decrement in \<open>finally\<close> undoes the increment on every exit.
\<close>

lemma node_weight_nth: "k < length as \<Longrightarrow> node_weight (as ! k) \<le> sum_list (map node_weight as)"
  by (intro member_le_sum_list) auto

function (sequential) evaluate ::
    "runtime_env \<Rightarrow> int \<Rightarrow> node \<Rightarrow> runtime_state \<Rightarrow> expr_error + runtime_value \<times> runtime_state"
  and evaluateNode ::
    "runtime_env \<Rightarrow> int \<Rightarrow> node \<Rightarrow> runtime_state \<Rightarrow> expr_error + runtime_value \<times> runtime_state"
  and eval_call ::
    "runtime_env \<Rightarrow> int \<Rightarrow> jsstr \<Rightarrow> node list \<Rightarrow> int \<Rightarrow> runtime_state \<Rightarrow> expr_error + runtime_value \<times> runtime_state"
  and eval_arg ::
    "runtime_env \<Rightarrow> int \<Rightarrow> node list \<Rightarrow> nat \<Rightarrow> runtime_state \<Rightarrow> expr_error + runtime_value \<times> runtime_state" where
  "evaluate e d n s =
     (if 256 < d + 1 then Inl (fail CLimit (js ''evaluation depth''))
      else rbind (evaluateNode e (d + 1) n s) (checked (nstart n)))"
| "evaluateNode e d (Lit l b i j) s = Inr (\<lparr>rv_value = literal_value l, rv_integer = b\<rparr>, s)"
| "evaluateNode e d (Var v i j) s =
     rbind (variable_value (env_context e) v i) (\<lambda>x. Inr (plain (VNum x), s))"
| "evaluateNode e d (Cond c a b i j) s =
     rbind (evaluate e d c s) (\<lambda>r. rbind (as_boolean c r) (\<lambda>(t, s).
       (if t then evaluate e d a
               (s\<lparr>st_rules := mark_rule (env_rules e) (Cond c a b i j) (st_rules s)\<rparr>)
        else evaluate e d b s)))"
| "evaluateNode e d (Unary op a i j) s =
     (if op = js ''!'' then
        rbind (evaluate e d a s) (\<lambda>r. rbind (as_boolean a r) (\<lambda>(t, s). Inr (plain (VBool (\<not> t)), s)))
      else rbind (evaluate e d a s) (\<lambda>r. rbind (as_numeric a r) (\<lambda>((x, isint), s).
        Inr (\<lparr>rv_value = VNum (if op = js ''-'' then num_neg x else x), rv_integer = isint\<rparr>, s))))"
| "evaluateNode e d (Binary op a b i j) s =
     (if op = js ''&&'' then
        rbind (evaluate e d a s) (\<lambda>r. rbind (as_boolean a r) (\<lambda>(t, s).
          if t then rbind (evaluate e d b s) (\<lambda>r. rbind (as_boolean b r) (\<lambda>(t, s). Inr (plain (VBool t), s)))
          else Inr (plain (VBool False), s)))
      else if op = js ''||'' then
        rbind (evaluate e d a s) (\<lambda>r. rbind (as_boolean a r) (\<lambda>(t, s).
          if t then Inr (plain (VBool True), s)
          else rbind (evaluate e d b s) (\<lambda>r. rbind (as_boolean b r) (\<lambda>(t, s). Inr (plain (VBool t), s)))))
      else rbind (evaluate e d a s) (\<lambda>(l, s). rbind (evaluate e d b s) (\<lambda>(r, s).
        rbind (binary_values op l r i) (\<lambda>v. Inr (v, s)))))"
| "evaluateNode e d (Call f as i j) s = eval_call e d f as i s"
| "eval_call e d f as i s =
     (if f = js ''fixed'' then
        rbind (eval_arg e d as 0 s) (\<lambda>r. rbind (as_numeric (as ! 0) r) (\<lambda>((x, isint), s).
          Inr (plain (VNum (num_mul x (Fin 1000000))), s\<lparr>st_unit := URequest, st_fixed := Some x\<rparr>)))
      else if f = js ''tier'' then
        rbind (eval_arg e d as 0 s) (\<lambda>r. rbind (as_string (as ! 0) r) (\<lambda>(name, s).
        rbind (eval_arg e d as 1 s) (\<lambda>r. rbind (as_numeric (as ! 1) r) (\<lambda>((x, isint), s).
          Inr (plain (VNum x), s\<lparr>st_tier := name\<rparr>)))))
      else if f = js ''param'' then
        rbind (eval_arg e d as 0 s) (\<lambda>r. rbind (as_string (as ! 0) r) (\<lambda>(t, s).
          with_state s (call_param e i t)))
      else if f = js ''header'' then
        rbind (eval_arg e d as 0 s) (\<lambda>r. rbind (as_string (as ! 0) r) (\<lambda>(t, s).
          with_state s (call_header e i t)))
      else if f = js ''u'' then
        rbind (eval_arg e d as 0 s) (\<lambda>r. rbind (as_string (as ! 0) r) (\<lambda>(t, s).
          with_state s (call_usage e i t)))
      else if f = js ''has'' then
        rbind (eval_arg e d as 0 s) (\<lambda>(v, s).
        rbind (eval_arg e d as 1 s) (\<lambda>r. rbind (as_string (as ! 1) r) (\<lambda>(t, s).
          with_state s (call_has (rv_value v) t))))
      else if f = js ''min'' \<or> f = js ''max'' then
        rbind (eval_arg e d as 0 s) (\<lambda>r. rbind (as_numeric (as ! 0) r) (\<lambda>((x, _), s).
        rbind (eval_arg e d as 1 s) (\<lambda>r. rbind (as_numeric (as ! 1) r) (\<lambda>((y, _), s).
          Inr (plain (VNum (if f = js ''min'' then num_min x y else num_max x y)), s)))))
      else if f = js ''abs'' \<or> f = js ''floor'' \<or> f = js ''ceil'' then
        rbind (eval_arg e d as 0 s) (\<lambda>r. rbind (as_numeric (as ! 0) r) (\<lambda>((x, _), s).
          Inr (plain (VNum (if f = js ''abs'' then num_abs x
                            else if f = js ''floor'' then num_floor x else num_ceil x)), s)))
      else if f \<notin> set time_functions then Inl (fail CUnsupported f)
      else rbind (eval_arg e d as 0 s) (\<lambda>r. rbind (as_string (as ! 0) r) (\<lambda>(zone, s).
        call_time e f zone s)))"
| "eval_arg e d as k s =
     (if k < length as then evaluate e d (as ! k) s
      else if 256 < d + 1 then Inl (fail CLimit (js ''evaluation depth'')) else Inl missing_argument)"
  by pat_completeness auto
termination
  by (relation "measure (\<lambda>x. case x of
        Inl (Inl (e, d, n, s)) \<Rightarrow> 4 * node_weight n + 1
      | Inl (Inr (e, d, n, s)) \<Rightarrow> 4 * node_weight n
      | Inr (Inl (e, d, f, as, i, s)) \<Rightarrow> 4 * sum_list (map node_weight as) + 3
      | Inr (Inr (e, d, as, k, s)) \<Rightarrow> 4 * sum_list (map node_weight as) + 2)")
    (auto dest: node_weight_nth)

declare evaluate.simps [simp del] eval_call.simps [simp del] eval_arg.simps [simp del]

section \<open>Entry points\<close>

definition evaluateBillingCondition :: "host \<Rightarrow> compiled \<Rightarrow> node \<Rightarrow> date \<Rightarrow> bool option" where
  "evaluateBillingCondition h c n now =
     (case rbind (new_runtime h c (empty_context\<lparr>ctx_now := Some now\<rparr>)) (\<lambda>(e, s). evaluate e 0 n s) of
        Inl _ \<Rightarrow> None
      | Inr (v, s) \<Rightarrow> (case rv_value v of VBool b \<Rightarrow> Some b | _ \<Rightarrow> None))"

record evaluation_success =
  ev_cost :: jsnum
  ev_unit :: billing_unit
  ev_fixedPrice :: "jsnum option"
  ev_imageCount :: "jsnum option"
  ev_matchedTier :: jsstr
  ev_requestRules :: "rule_trace list"

datatype evaluation_result = EvalFailed expression_failure | EvalSuccess evaluation_success

fun check_tokens :: "(jsstr, jsval) orec \<Rightarrow> expr_error + unit" where
  "check_tokens [] = Inr ()"
| "check_tokens ((name, v) # r) =
     (case v of
        VNum x \<Rightarrow> if \<not> is_finite x \<or> num_lt x (Fin 0) then Inl (fail CNumber name) else check_tokens r
      | _ \<Rightarrow> Inl (fail CNumber name))"

definition billing_result :: "jsval \<Rightarrow> expr_error + jsnum" where
  "billing_result v =
     (case v of
        VNum x \<Rightarrow> if \<not> is_finite x \<or> num_lt x (Fin 0) then Inl (fail CNumber (js ''billing result'')) else Inr x
      | _ \<Rightarrow> Inl (fail CNumber (js ''billing result'')))"

definition run_compiled :: "host \<Rightarrow> compiled \<Rightarrow> simulation_context \<Rightarrow> expr_error + evaluation_success" where
  "run_compiled h c ctx =
     rbind (check_tokens (case ctx_tokens ctx of Some ts \<Rightarrow> ts | None \<Rightarrow> [])) (\<lambda>_.
     rbind (new_runtime h c ctx) (\<lambda>(e, s).
     rbind (evaluate e 0 (cast c) s) (\<lambda>(v, s).
     rbind (billing_result (rv_value v)) (\<lambda>x.
       Inr \<lparr>ev_cost = x, ev_unit = st_unit s, ev_fixedPrice = st_fixed s,
            ev_imageCount = (if js ''image_count'' \<in> set (cvariables c)
                             then Some (case ctx_imageCount ctx of Some y \<Rightarrow> y | None \<Rightarrow> Fin 1)
                             else None),
            ev_matchedTier = st_tier s, ev_requestRules = st_rules s\<rparr>))))"

definition evaluate_compiled :: "host \<Rightarrow> compilation \<Rightarrow> simulation_context \<Rightarrow> evaluation_result" where
  "evaluate_compiled h c ctx =
     (case c of
        Failed f \<Rightarrow> EvalFailed f
      | Ready c \<Rightarrow>
          (case run_compiled h c ctx of
             Inl err \<Rightarrow> EvalFailed (expressionFailure err)
           | Inr r \<Rightarrow> EvalSuccess r))"

definition evaluateBillingExpression ::
  "host \<Rightarrow> jsstr + compilation \<Rightarrow> simulation_context \<Rightarrow> compile_cache \<Rightarrow> evaluation_result \<times> compile_cache" where
  "evaluateBillingExpression h expr ctx cache =
     (let (c, cache') = (case expr of Inl source \<Rightarrow> compileBillingExpression source cache
                         | Inr c \<Rightarrow> (c, cache))
      in (evaluate_compiled h c ctx, cache'))"

end
