(* ===== verification/Memo.thy ===== *)
theory Memo
  imports Prelude
begin

text \<open>
  The contract of a memo table: a call may consult and fill a table, but answers as the function
  it remembers. Clients that only see the answers cannot tell that a table is there.
\<close>

fun run_calls :: "('k \<Rightarrow> 'c \<Rightarrow> 'v \<times> 'c) \<Rightarrow> 'k list \<Rightarrow> 'c \<Rightarrow> 'v list \<times> 'c" where
  "run_calls call [] c = ([], c)"
| "run_calls call (k # ks) c =
     (let (v, c') = call k c; (vs, c'') = run_calls call ks c' in (v # vs, c''))"

locale memo_table =
  fixes compute :: "'k \<Rightarrow> 'v"
    and call :: "'k \<Rightarrow> 'c \<Rightarrow> 'v \<times> 'c"
    and valid :: "'c \<Rightarrow> bool"
  assumes call_answer: "valid c \<Longrightarrow> fst (call k c) = compute k"
    and call_valid: "valid c \<Longrightarrow> valid (snd (call k c))"
begin

lemma run_answers: "valid c \<Longrightarrow> fst (run_calls call ks c) = map compute ks"
proof (induction ks arbitrary: c)
  case (Cons k ks)
  obtain v c' where k: "call k c = (v, c')" by (cases "call k c")
  with Cons.prems call_answer[of c k] call_valid[of c k] have "v = compute k" "valid c'" by auto
  with Cons.IH[of c'] k show ?case by (simp add: split_beta)
qed simp

lemma run_valid: "valid c \<Longrightarrow> valid (snd (run_calls call ks c))"
proof (induction ks arbitrary: c)
  case (Cons k ks)
  then show ?case using call_valid[of c k] by (simp add: split_beta)
qed simp

text \<open>Two tables in different states give the same answers.\<close>

lemma answers_agree: "valid c \<Longrightarrow> valid c' \<Longrightarrow> fst (call k c) = fst (call k c')"
  by (simp add: call_answer)

end

end
