(* ===== verification/CompileFacts.thy ===== *)
theory CompileFacts
  imports Compile Memo
begin

text \<open>
  The compile cache is a bounded memo table with first-in-first-out replacement, and the table of
  the static type check agrees with a recursive checker.
\<close>

section \<open>The compile cache\<close>

definition cache_ok :: "compile_cache \<Rightarrow> bool" where
  "cache_ok cache \<longleftrightarrow>
     distinct (orec_keys cache) \<and> slen cache \<le> 128 \<and> (\<forall>(k, v) \<in> set cache. v = compile_result k)"

lemma compile_hit:
  "map_of cache source = Some r \<Longrightarrow> compileBillingExpression source cache = (r, cache)"
  by (simp add: compileBillingExpression_def)

lemma compile_miss:
  assumes "map_of cache source = None"
  shows "compileBillingExpression source cache =
    (compile_result source,
     (if 128 \<le> slen cache then tl cache else cache) @ [(source, compile_result source)])"
proof -
  have "source \<notin> fst ` set cache" using assms by (simp add: map_of_eq_None_iff)
  moreover have "set (tl cache) \<subseteq> set cache" by (cases cache) auto
  ultimately have "orec_set source v cache = cache @ [(source, v)]"
    "orec_set source v (tl cache) = tl cache @ [(source, v)]" for v
    by (intro orec_set_new; blast)+
  moreover have "128 \<le> slen cache \<Longrightarrow> cache \<noteq> []" by auto
  ultimately show ?thesis using assms by (simp add: compileBillingExpression_def Let_def)
qed

lemma cache_ok_answer: "cache_ok cache \<Longrightarrow> fst (compileBillingExpression source cache) = compile_result source"
proof (cases "map_of cache source")
  case (Some r)
  assume "cache_ok cache"
  then have "r = compile_result source" using map_of_SomeD[OF Some] by (auto simp: cache_ok_def)
  then show ?thesis by (simp add: compile_hit[OF Some])
qed (simp add: compile_miss)

lemma cache_ok_step: "cache_ok cache \<Longrightarrow> cache_ok (snd (compileBillingExpression source cache))"
proof (cases "map_of cache source")
  case None
  assume ok: "cache_ok cache"
  from None have new: "source \<notin> fst ` set cache" by (simp add: map_of_eq_None_iff)
  show ?thesis
    unfolding compile_miss[OF None] using new ok
    by (cases cache) (auto simp: cache_ok_def orec_keys_def)
qed (simp add: compile_hit)

interpretation compile_memo: memo_table compile_result compileBillingExpression cache_ok
  by unfold_locales (simp_all add: cache_ok_answer cache_ok_step)

lemma cache_ok_empty [simp]: "cache_ok []"
  by (simp add: cache_ok_def orec_keys_def)

lemma compile_with_cache:
  assumes "cache_ok cache"
  obtains cache' where "compileBillingExpression source cache = (compile_result source, cache')"
    and "cache_ok cache'"
  using cache_ok_answer[OF assms] cache_ok_step[OF assms] by (metis prod.collapse)

section \<open>What a compiled expression guarantees\<close>

lemma compile_ready:
  assumes "compile_result source = Ready c"
  obtains d where "parse source = Inr (cast c)" and "checkExpressionTypes (cast c) = Inr ()"
    and "expressionDependencies (cast c) = Inr d" and "cvariables c = dep_variables d"
    and "cfunctions c = dep_functions d"
    and "visitExpression (cast c) (rule_visitor source) [] = Inr (crules c)"
    and "js ''fixed'' \<in> set (cfunctions c) \<Longrightarrow> validateFixedPricingTree (crules c) (cast c) = Inr ()"
    and "csource c = source" and "cversion c = 1" and "wf_node (slen source) (cast c)"
    and "height (cast c) \<le> 256"
proof -
  from assms have "compile_source source = Inr c"
    by (auto simp: compile_result_def split: sum.splits)
  then obtain d where d: "parse source = Inr (cast c)" "checkExpressionTypes (cast c) = Inr ()"
    "expressionDependencies (cast c) = Inr d" "cvariables c = dep_variables d"
    "cfunctions c = dep_functions d" "visitExpression (cast c) (rule_visitor source) [] = Inr (crules c)"
    "js ''fixed'' \<in> set (cfunctions c) \<Longrightarrow> validateFixedPricingTree (crules c) (cast c) = Inr ()"
    "csource c = source" "cversion c = 1"
    by (auto simp: compile_source_def rsimps split: if_splits)
  moreover have "wf_node (slen source) (cast c)" using parse_wf_node d(1) .
  moreover have "height (cast c) \<le> 256"
    using d(6) by (simp add: visitExpression_Inr_iff)
  ultimately show thesis by (rule that)
qed

end
