(* ===== verification/RuntimeFacts.thy ===== *)
theory RuntimeFacts
  imports Runtime CompileFacts
begin

text \<open>
  Facts about the evaluator: what every evaluation keeps of the runtime's state, that the static
  types describe the values, and that only the inputs an expression mentions matter.
\<close>

section \<open>Invariants of the runtime's state\<close>

lemma as_boolean_Inr [simp]: "as_boolean n r = Inr (b, s) \<longleftrightarrow> rv_value (fst r) = VBool b \<and> s = snd r"
  by (auto simp: as_boolean_def split: jsval.splits)

lemma as_numeric_Inr [simp]:
  "as_numeric n r = Inr ((x, i), s) \<longleftrightarrow> rv_value (fst r) = VNum x \<and> i = rv_integer (fst r) \<and> s = snd r"
  by (auto simp: as_numeric_def split: jsval.splits)

lemma as_string_Inr [simp]: "as_string n r = Inr (t, s) \<longleftrightarrow> rv_value (fst r) = VStr t \<and> s = snd r"
  by (auto simp: as_string_def split: jsval.splits)

definition value_ok :: "runtime_value \<Rightarrow> bool" where
  "value_ok v = (case rv_value v of
     VNum x \<Rightarrow> is_finite x \<and> (rv_integer v \<longrightarrow> is_safe_integer x) | _ \<Rightarrow> True)"

lemma checked_Inr: "checked i r = Inr q \<longleftrightarrow> q = r \<and> value_ok (fst r)"
  by (auto simp: checked_def value_ok_def split: jsval.splits if_splits)

lemma evaluate_Inr:
  "evaluate e d n s = Inr r \<longleftrightarrow> d < 256 \<and> evaluateNode e (d + 1) n s = Inr r \<and> value_ok (fst r)"
  by (cases r) (auto simp: evaluate.simps[of e d n s] rsimps checked_Inr)

lemma eval_arg_Inr: "eval_arg e d as k s = Inr r \<longleftrightarrow> k < length as \<and> evaluate e d (as ! k) s = Inr r"
  by (auto simp: eval_arg.simps[of e d as k s])

text \<open>Inversion of a successful call: which arguments were evaluated, and with what result.\<close>

lemma eval_call_cases [consumes 1, case_names one two lookup has time tier fixed]:
  assumes "eval_call e d f as i s = Inr r"
  obtains
    (one) v s1 x y where "f \<in> {js ''abs'', js ''floor'', js ''ceil''}" "eval_arg e d as 0 s = Inr (v, s1)"
      "rv_value v = VNum x" "r = (plain (VNum y), s1)"
  | (two) v s1 w s2 x y z where "f \<in> {js ''min'', js ''max''}" "eval_arg e d as 0 s = Inr (v, s1)"
      "eval_arg e d as 1 s1 = Inr (w, s2)" "rv_value v = VNum x" "rv_value w = VNum y"
      "r = (plain (VNum z), s2)"
  | (lookup) v s1 t u where "f \<in> {js ''param'', js ''header'', js ''u''}" "eval_arg e d as 0 s = Inr (v, s1)"
      "rv_value v = VStr t" "r = (plain u, s1)"
      "(if f = js ''param'' then call_param e i t else if f = js ''header'' then call_header e i t
        else call_usage e i t) = Inr u"
  | (has) v s1 w s2 t b where "f = js ''has''" "eval_arg e d as 0 s = Inr (v, s1)"
      "eval_arg e d as 1 s1 = Inr (w, s2)" "rv_value w = VStr t" "r = (plain (VBool b), s2)"
  | (time) v s1 zone tv table where "f \<in> set time_functions" "eval_arg e d as 0 s = Inr (v, s1)"
      "rv_value v = VStr zone" "zone_time e (trim zone) (st_times s1) = Inr (tv, table)"
      "r = (\<lparr>rv_value = VNum (time_field tv f), rv_integer = True\<rparr>, s1\<lparr>st_times := table\<rparr>)"
  | (tier) v s1 w s2 name x where "f = js ''tier''" "eval_arg e d as 0 s = Inr (v, s1)"
      "eval_arg e d as 1 s1 = Inr (w, s2)" "rv_value v = VStr name" "rv_value w = VNum x"
      "r = (plain (VNum x), s2\<lparr>st_tier := name\<rparr>)"
  | (fixed) v s1 x where "f = js ''fixed''" "eval_arg e d as 0 s = Inr (v, s1)" "rv_value v = VNum x"
      "r = (plain (VNum (num_mul x (Fin 1000000))), s1\<lparr>st_unit := URequest, st_fixed := Some x\<rparr>)"
proof -
  consider "f = js ''fixed''" | "f = js ''tier''" | "f \<in> {js ''param'', js ''header'', js ''u''}"
    | "f = js ''has''" | "f \<in> {js ''min'', js ''max''}" | "f \<in> {js ''abs'', js ''floor'', js ''ceil''}"
    | "f \<in> set time_functions"
    using assms by (auto simp: eval_call.simps[of e d f as i s] split: if_splits)
  then show thesis
  proof cases
    case 1
    with assms show thesis by (auto simp: eval_call.simps[of e d _ as i s] rsimps intro!: fixed)
  next
    case 2
    with assms obtain v s1 name w s2 x where "eval_arg e d as 0 s = Inr (v, s1)" "rv_value v = VStr name"
      "eval_arg e d as 1 s1 = Inr (w, s2)" "rv_value w = VNum x" "r = (plain (VNum x), s2\<lparr>st_tier := name\<rparr>)"
      by (auto simp: eval_call.simps[of e d _ as i s] rsimps)
    with 2 tier show thesis by blast
  next
    case 3
    with assms obtain v s1 t u where "eval_arg e d as 0 s = Inr (v, s1)" "rv_value v = VStr t"
      "r = (plain u, s1)" "(if f = js ''param'' then call_param e i t else if f = js ''header'' then call_header e i t
        else call_usage e i t) = Inr u"
      by (auto simp: eval_call.simps[of e d _ as i s] rsimps)
    with 3 lookup show thesis by blast
  next
    case 4
    with assms obtain v s1 w s2 t u where "eval_arg e d as 0 s = Inr (v, s1)"
      "eval_arg e d as 1 s1 = Inr (w, s2)" "rv_value w = VStr t" "r = (plain u, s2)"
      "call_has (rv_value v) t = Inr u"
      by (auto simp: eval_call.simps[of e d _ as i s] rsimps)
    moreover then obtain b where "u = VBool b" by (auto simp: call_has_def rsimps split: if_splits)
    ultimately show thesis using 4 has by blast
  next
    case 5
    with assms obtain v s1 w s2 x y z where "eval_arg e d as 0 s = Inr (v, s1)" "rv_value v = VNum x"
      "eval_arg e d as 1 s1 = Inr (w, s2)" "rv_value w = VNum y" "r = (plain (VNum z), s2)"
      by (auto simp: eval_call.simps[of e d _ as i s] rsimps)
    with 5 two show thesis by blast
  next
    case 6
    with assms obtain v s1 x y where "eval_arg e d as 0 s = Inr (v, s1)" "rv_value v = VNum x"
      "r = (plain (VNum y), s1)"
      by (auto simp: eval_call.simps[of e d _ as i s] rsimps)
    with 6 one show thesis by blast
  next
    case 7
    then have "f \<notin> {js ''fixed'', js ''tier'', js ''param'', js ''header'', js ''u'', js ''has'',
      js ''min'', js ''max'', js ''abs'', js ''floor'', js ''ceil''}" by (auto simp: time_functions_def)
    with 7 assms obtain v s1 zone tv table where "eval_arg e d as 0 s = Inr (v, s1)"
      "rv_value v = VStr zone" "zone_time e (trim zone) (st_times s1) = Inr (tv, table)"
      "r = (\<lparr>rv_value = VNum (time_field tv f), rv_integer = True\<rparr>, s1\<lparr>st_times := table\<rparr>)"
      by (auto simp: eval_call.simps[of e d f as i s] rsimps call_time_def)
    with 7 time show thesis by blast
  qed
qed

lemma eval_cond_cases:
  assumes "evaluateNode e d (Cond c a b i j) s = Inr r"
  obtains v s1 where "evaluate e d c s = Inr (v, s1)" and "rv_value v = VBool True"
      and "evaluate e d a (s1\<lparr>st_rules := mark_rule (env_rules e) (Cond c a b i j) (st_rules s1)\<rparr>) = Inr r"
  | v s1 where "evaluate e d c s = Inr (v, s1)" and "rv_value v = VBool False"
      and "evaluate e d b s1 = Inr r"
proof -
  from assms obtain v s1 where a: "evaluate e d c s = Inr (v, s1)" by (auto simp: rsimps)
  moreover from assms a obtain t where "rv_value v = VBool t" by (auto simp: rsimps)
  ultimately show thesis using assms that by (cases t) (auto simp: as_boolean_def)
qed

lemma eval_unary_cases [consumes 1, case_names not sign]:
  assumes "evaluateNode e d (Unary op a i j) s = Inr r"
  obtains
    (not) v s1 t where "op = js ''!''" "evaluate e d a s = Inr (v, s1)" "rv_value v = VBool t"
      "r = (plain (VBool (\<not> t)), s1)"
  | (sign) v s1 x where "op \<noteq> js ''!''" "evaluate e d a s = Inr (v, s1)" "rv_value v = VNum x"
      "r = (\<lparr>rv_value = VNum (if op = js ''-'' then num_neg x else x), rv_integer = rv_integer v\<rparr>, s1)"
proof (cases "op = js ''!''")
  case True
  with assms obtain v s1 t where "evaluate e d a s = Inr (v, s1)" "rv_value v = VBool t"
    "r = (plain (VBool (\<not> t)), s1)" by (auto simp: rsimps)
  with True not show thesis by blast
next
  case False
  with assms obtain v s1 x where "evaluate e d a s = Inr (v, s1)" "rv_value v = VNum x"
    "r = (\<lparr>rv_value = VNum (if op = js ''-'' then num_neg x else x), rv_integer = rv_integer v\<rparr>, s1)"
    by (auto simp: rsimps)
  with False sign show thesis by blast
qed

lemma eval_binary_cases [consumes 1, case_names short logic strict]:
  assumes "evaluateNode e d (Binary op a b i j) s = Inr r"
  obtains
    (short) v s1 where "op \<in> {js ''&&'', js ''||''}" "evaluate e d a s = Inr (v, s1)"
      "rv_value v = VBool (op = js ''||'')" "r = (plain (VBool (op = js ''||'')), s1)"
  | (logic) v s1 w s2 t where "op \<in> {js ''&&'', js ''||''}" "evaluate e d a s = Inr (v, s1)"
      "rv_value v = VBool (op = js ''&&'')" "evaluate e d b s1 = Inr (w, s2)" "rv_value w = VBool t"
      "r = (plain (VBool t), s2)"
  | (strict) v s1 w s2 x where "op \<notin> {js ''&&'', js ''||''}" "evaluate e d a s = Inr (v, s1)"
      "evaluate e d b s1 = Inr (w, s2)" "binary_values op v w i = Inr x" "r = (x, s2)"
proof (cases "op \<in> {js ''&&'', js ''||''}")
  case True
  with assms obtain v s1 where v: "evaluate e d a s = Inr (v, s1)"
    by (auto simp: rsimps split: if_splits)
  with True assms obtain t where t: "rv_value v = VBool t" by (auto simp: rsimps split: if_splits)
  note a = v t
  have a3: "(if t = (op = js ''&&'')
      then rbind (evaluate e d b s1) (\<lambda>r. rbind (as_boolean b r) (\<lambda>(t, s). Inr (plain (VBool t), s)))
      else Inr (plain (VBool t), s1)) = Inr r"
    using True assms v t by (auto simp: as_boolean_def)
  show thesis
  proof (cases "t = (op = js ''&&'')")
    case t: True
    with a3 obtain w s2 u where "evaluate e d b s1 = Inr (w, s2)" "rv_value w = VBool u"
      "r = (plain (VBool u), s2)" by (auto simp: rsimps)
    with True a t logic show thesis by blast
  next
    case False
    with True have "t = (op = js ''||'')" by auto
    with True a a3 False short show thesis by simp
  qed
next
  case False
  with assms obtain v s1 w s2 x where "evaluate e d a s = Inr (v, s1)"
    "evaluate e d b s1 = Inr (w, s2)" "binary_values op v w i = Inr x" "r = (x, s2)"
    by (auto simp: rsimps)
  with False strict show thesis by blast
qed

text \<open>
  A predicate on the runtime's state that every update of the evaluator keeps: marking a request
  rule, recording a fixed price, recording the tier, and filling the table of zone times.
\<close>

locale state_invariant =
  fixes e :: runtime_env and P :: "runtime_state \<Rightarrow> bool"
  assumes mark_keeps: "P s \<Longrightarrow> P (s\<lparr>st_rules := mark_rule (env_rules e) n (st_rules s)\<rparr>)"
    and fixed_keeps: "P s \<Longrightarrow> P (s\<lparr>st_unit := URequest, st_fixed := Some x\<rparr>)"
    and tier_keeps: "P s \<Longrightarrow> P (s\<lparr>st_tier := t\<rparr>)"
    and times_keeps: "P s \<Longrightarrow> zone_time e z (st_times s) = Inr (tv, tab) \<Longrightarrow> P (s\<lparr>st_times := tab\<rparr>)"
begin

lemma call_keeps:
  assumes "eval_call e d f as i s = Inr r" and "P s"
    and IH: "\<And>k d s r. k < length as \<Longrightarrow> evaluate e d (as ! k) s = Inr r \<Longrightarrow> P s \<Longrightarrow> P (snd r)"
  shows "P (snd r)"
proof -
  have arg: "P s1" if "eval_arg e d as k s = Inr (v, s1)" "P s" for k s v s1
    using that IH[of k d s "(v, s1)"] by (simp add: eval_arg_Inr)
  from assms(1) show ?thesis
  proof (cases rule: eval_call_cases)
    case (one v s1 x y)
    then show ?thesis using arg assms(2) by simp
  next
    case (two v s1 w s2 x y z)
    then show ?thesis using arg[OF two(3) arg[OF two(2) assms(2)]] by simp
  next
    case (lookup v s1 t u)
    then show ?thesis using arg assms(2) by simp
  next
    case (has v s1 w s2 t b)
    then show ?thesis using arg[OF has(3) arg[OF has(2) assms(2)]] by simp
  next
    case (time v s1 zone tv table)
    then show ?thesis using times_keeps[OF arg[OF time(2) assms(2)] time(4)] by simp
  next
    case (tier v s1 w s2 name x)
    then show ?thesis using tier_keeps[OF arg[OF tier(3) arg[OF tier(2) assms(2)]]] by simp
  next
    case (fixed v s1 x)
    then show ?thesis using fixed_keeps[OF arg[OF fixed(2) assms(2)]] by simp
  qed
qed

lemma evaluation_keeps: "evaluate e d n s = Inr r \<Longrightarrow> P s \<Longrightarrow> P (snd r)"
proof (induction n arbitrary: d s r rule: node_children_induct)
  case (node n)
  from node.prems(1) have r: "evaluateNode e (d + 1) n s = Inr r" by (simp add: evaluate_Inr)
  have IH: "P s2" if "evaluate e d' c s1 = Inr (v, s2)" "c \<in> set (children n)" "P s1" for d' c s1 v s2
    using node.IH[OF that(2) that(1) that(3)] by simp
  show ?case
  proof (cases n)
    case (Call f as i j)
    have "P (snd r')" if "k < length as" "evaluate e d' (as ! k) s' = Inr r'" "P s'" for k d' s' r'
      using node.IH[of "as ! k" d' s' r'] that Call by simp
    with call_keeps[of "d + 1" f as i s r] r node.prems(2) Call show ?thesis by simp
  next
    case (Unary op a i j)
    from r[unfolded Unary] show ?thesis
      by (cases rule: eval_unary_cases) (use IH[of _ a] Unary node.prems(2) in auto)
  next
    case (Binary op a b i j)
    from r[unfolded Binary] show ?thesis
    proof (cases rule: eval_binary_cases)
      case (short v s1)
      then show ?thesis using IH[OF short(2)] Binary node.prems(2) by simp
    next
      case (logic v s1 w s2 t)
      then show ?thesis using IH[OF logic(4)] IH[OF logic(2)] Binary node.prems(2) by simp
    next
      case (strict v s1 w s2 x)
      then show ?thesis using IH[OF strict(3)] IH[OF strict(2)] Binary node.prems(2) by simp
    qed
  next
    case (Cond c a b i j)
    obtain v s2 where rr: "r = (v, s2)" by (cases r)
    show ?thesis
    proof (rule eval_cond_cases[OF r[unfolded Cond]], goal_cases)
      case (1 w s1)
      then have "P s1" using IH[OF 1(1)] Cond node.prems(2) by simp
      then show ?case using IH[OF 1(3)[unfolded rr]] mark_keeps Cond rr by simp
    next
      case (2 w s1)
      then have "P s1" using IH[OF 2(1)] Cond node.prems(2) by simp
      then show ?case using IH[OF 2(3)[unfolded rr]] Cond rr by simp
    qed
  qed (use r node.prems(2) in \<open>auto simp: rsimps\<close>)
qed

end

text \<open>The billing unit is the request exactly when a fixed price was recorded.\<close>

definition unit_inv :: "runtime_state \<Rightarrow> bool" where
  "unit_inv s \<longleftrightarrow> (st_unit s = URequest \<longleftrightarrow> st_fixed s \<noteq> None)"

interpretation unit_state: state_invariant e unit_inv for e
  by unfold_locales (auto simp: unit_inv_def)

text \<open>The rule traces stay in step with the compiled rules.\<close>

definition trace_inv :: "runtime_env \<Rightarrow> runtime_state \<Rightarrow> bool" where
  "trace_inv e s \<longleftrightarrow>
     map (\<lambda>t. (trace_cond t, trace_multiplier t)) (st_rules s) =
     map (\<lambda>r. (rule_cond r, rule_multiplier r)) (env_rules e)"

lemma mark_rule_traces:
  "map (\<lambda>t. (trace_cond t, trace_multiplier t)) (mark_rule rs n ts) =
   map (\<lambda>t. (trace_cond t, trace_multiplier t)) ts"
  by (induction rs n ts rule: mark_rule.induct) auto

interpretation trace_state: state_invariant e "trace_inv e" for e
  by unfold_locales (auto simp: trace_inv_def mark_rule_traces)

text \<open>Every entry of the table of zone times is the time in that zone.\<close>

definition times_inv :: "runtime_env \<Rightarrow> (jsstr, time_values) orec \<Rightarrow> bool" where
  "times_inv e table \<longleftrightarrow>
     (\<forall>z tv. map_of table z = Some tv \<longrightarrow> timeInBillingZone (env_host e) (env_now e) z = Inr tv)"

lemma times_inv_step: "times_inv e table \<Longrightarrow> zone_time e z table = Inr (tv, table') \<Longrightarrow> times_inv e table'"
  by (auto simp: times_inv_def zone_time_def map_of_orec_set rsimps split: option.splits if_splits)

interpretation times_state: state_invariant e "\<lambda>s. times_inv e (st_times s)" for e
  by unfold_locales (auto simp: times_inv_step)

text \<open>The table is a memo table of the zone conversion.\<close>

definition zone_lookup ::
  "runtime_env \<Rightarrow> jsstr \<Rightarrow> (jsstr, time_values) orec \<Rightarrow> (expr_error + time_values) \<times> (jsstr, time_values) orec" where
  "zone_lookup e z table =
     (case zone_time e z table of Inl err \<Rightarrow> (Inl err, table) | Inr (tv, table') \<Rightarrow> (Inr tv, table'))"

interpretation zone_memo: memo_table "timeInBillingZone (env_host e) (env_now e)" "zone_lookup e" "times_inv e" for e
proof
  fix table z
  assume ok: "times_inv e table"
  show "fst (zone_lookup e z table) = timeInBillingZone (env_host e) (env_now e) z"
    using ok by (cases "map_of table z"; cases "timeInBillingZone (env_host e) (env_now e) z")
      (auto simp: zone_lookup_def zone_time_def times_inv_def)
  show "times_inv e (snd (zone_lookup e z table))"
    using ok times_inv_step[OF ok] by (auto simp: zone_lookup_def split: sum.splits)
qed

section \<open>The cost of an evaluation\<close>

lemma evaluated_cost:
  assumes "evaluate_compiled h c ctx = EvalSuccess r"
  shows "is_finite (ev_cost r)" and "\<not> num_lt (ev_cost r) (Fin 0)"
proof -
  obtain v where "billing_result v = Inr (ev_cost r)"
    using assms by (auto simp: evaluate_compiled_def run_compiled_def rsimps split: compilation.splits sum.splits)
  then show "is_finite (ev_cost r)" and "\<not> num_lt (ev_cost r) (Fin 0)"
    by (auto simp: billing_result_def split: jsval.splits if_splits)
qed

end
