(* ===== verification/TypeFacts.thy ===== *)
theory TypeFacts
  imports RuntimeFacts
begin

text \<open>
  The static types of \<open>checkExpressionTypes\<close> against the evaluator: the table the traversal builds
  assigns every node a type that agrees with the types of its children, and the value of a node
  whose static type is not dynamic has that type, a sum of two untyped operands apart.
\<close>

section \<open>The table of types\<close>

definition typed :: "type_table \<Rightarrow> node \<Rightarrow> bool" where
  "typed T n \<longleftrightarrow> (\<forall>m \<in> set (postorder n). \<exists>t. map_of T m = Some t \<and> type_of_node T m = Inr t)"

lemma requireType_cong: "map_of T c = map_of T' c \<Longrightarrow> requireType T c t = requireType T' c t"
  by (simp add: requireType_def)

lemma require_all_cong:
  "(\<And>c. c \<in> set as \<Longrightarrow> map_of T c = map_of T' c) \<Longrightarrow> require_all T as t = require_all T' as t"
proof (induction as)
  case (Cons a as)
  then show ?case using requireType_cong[of T a T' t] by simp
qed simp

lemma require_arg_cong:
  "(\<And>c. c \<in> set as \<Longrightarrow> map_of T c = map_of T' c) \<Longrightarrow> require_arg T as k t = require_arg T' as k t"
  using requireType_cong[of T "as ! k" T' t] by (simp add: require_arg_def)

lemma type_of_node_cong:
  assumes "\<And>c. c \<in> set (children n) \<Longrightarrow> map_of T c = map_of T' c"
  shows "type_of_node T n = type_of_node T' n"
proof (cases n)
  case (Call f as i j)
  with assms have same: "map_of T c = map_of T' c" if "c \<in> set as" for c using that by simp
  have "require_arg T as k t = require_arg T' as k t" "require_all T as t = require_all T' as t" for k t
    by (rule require_arg_cong[OF same], assumption, rule require_all_cong[OF same])
  with Call show ?thesis by (simp add: type_of_node_def type_of_call_def)
next
  case (Unary op a i j)
  with assms requireType_cong[of T a T'] show ?thesis by (simp add: type_of_node_def type_of_unary_def)
next
  case (Binary op a b i j)
  with assms requireType_cong[of T a T'] requireType_cong[of T b T']
  show ?thesis by (simp add: type_of_node_def type_of_binary_def)
next
  case (Cond c a b i j)
  with assms requireType_cong[of T c T'] show ?thesis by (simp add: type_of_node_def type_of_cond_def)
qed (simp_all add: type_of_node_def)

text \<open>In a postorder list the children of a node come before it.\<close>

definition children_first :: "node list \<Rightarrow> bool" where
  "children_first ns \<longleftrightarrow> (\<forall>xs m ys. ns = xs @ m # ys \<longrightarrow> set (children m) \<subseteq> set xs)"

lemma children_first_append:
  "children_first xs \<Longrightarrow> children_first ys \<Longrightarrow> children_first (xs @ ys)"
  unfolding children_first_def
proof (intro allI impI)
  fix us m vs
  assume x: "\<forall>us m vs. xs = us @ m # vs \<longrightarrow> set (children m) \<subseteq> set us"
    and y: "\<forall>us m vs. ys = us @ m # vs \<longrightarrow> set (children m) \<subseteq> set us" and eq: "xs @ ys = us @ m # vs"
  from eq consider ws where "xs = us @ m # ws" | ws where "us = xs @ ws" "ys = ws @ m # vs"
    by (auto simp: append_eq_append_conv2 append_eq_Cons_conv)
  then show "set (children m) \<subseteq> set us"
  proof cases
    case 1
    with x show ?thesis by blast
  next
    case 2
    with y have "set (children m) \<subseteq> set ws" by blast
    with 2 show ?thesis by auto
  qed
qed

lemma children_first_snoc:
  assumes "children_first xs" and "set (children n) \<subseteq> set xs"
  shows "children_first (xs @ [n])"
  unfolding children_first_def
proof (intro allI impI)
  fix us m vs assume eq: "xs @ [n] = us @ m # vs"
  show "set (children m) \<subseteq> set us"
  proof (cases vs rule: rev_cases)
    case Nil
    with eq assms(2) show ?thesis by auto
  next
    case (snoc ws w)
    with eq have "xs = us @ m # ws" by (metis append_Cons append_assoc butlast_snoc)
    with assms(1) show ?thesis by (auto simp: children_first_def)
  qed
qed

lemma children_first_postorder: "children_first (postorder n)"
proof (induction n rule: node_children_induct)
  case (node n)
  have "children_first (concat (map postorder cs))" if "set cs \<subseteq> set (children n)" for cs
    using that
  proof (induction cs)
    case (Cons c cs)
    then show ?case using node.IH by (auto intro: children_first_append)
  qed (simp add: children_first_def)
  moreover have "set (children n) \<subseteq> set (concat (map postorder (children n)))"
    by auto
  ultimately show ?case by (subst postorder_children) (rule children_first_snoc; simp)
qed

lemma run_types:
  assumes "run_visitor type_visitor ns [] = Inr T" and "distinct ns" and "children_first ns"
  shows "\<forall>m \<in> set ns. \<exists>t. map_of T m = Some t \<and> type_of_node T m = Inr t"
proof -
  have "run_visitor type_visitor ns [] = Inr T \<Longrightarrow> distinct ns \<Longrightarrow> children_first ns \<Longrightarrow>
    dom (map_of T) = set ns \<and> (\<forall>m \<in> set ns. \<exists>t. map_of T m = Some t \<and> type_of_node T m = Inr t)"
  proof (induction ns arbitrary: T rule: rev_induct)
    case (snoc n ns)
    then obtain T0 t where T0: "run_visitor type_visitor ns [] = Inr T0" "type_of_node T0 n = Inr t"
      "T = orec_set n t T0"
      using run_visitor_append[of type_visitor ns "[n]" "[]"] by (auto simp: rsimps type_visitor_def[of n])
    have first: "children_first ns" "set (children n) \<subseteq> set ns"
      using snoc.prems(3) by (auto simp: children_first_def)
    with snoc.IH[OF T0(1)] snoc.prems(2)
    have IH: "dom (map_of T0) = set ns" "\<forall>m \<in> set ns. \<exists>t. map_of T0 m = Some t \<and> type_of_node T0 m = Inr t"
      by auto
    have keep: "map_of T m = map_of T0 m" if "m \<in> set ns" for m
      using that T0(3) snoc.prems(2) by (auto simp: map_of_orec_set)
    have "type_of_node T n = Inr t"
      using T0(2) type_of_node_cong[of n T T0] first(2) keep by auto
    moreover have "type_of_node T m = type_of_node T0 m" if "m \<in> set ns" for m
    proof (rule type_of_node_cong)
      fix c assume "c \<in> set (children m)"
      moreover from \<open>m \<in> set ns\<close> obtain xs ys where "ns = xs @ m # ys" by (auto dest: split_list)
      ultimately have "c \<in> set ns" using first(1) by (auto simp: children_first_def)
      then show "map_of T c = map_of T0 c" by (rule keep)
    qed
    ultimately show ?case using IH keep T0(3) by (auto simp: map_of_orec_set)
  qed simp
  with assms show ?thesis by blast
qed

lemma check_typed:
  assumes "checkExpressionTypes n = Inr ()" and "wf_node len n"
  obtains T where "visitExpression n type_visitor [] = Inr T" and "typed T n"
proof -
  obtain T where T: "visitExpression n type_visitor [] = Inr T"
    using assms(1) by (auto simp: checkExpressionTypes_def rsimps)
  then have "run_visitor type_visitor (postorder n) [] = Inr T" by (simp add: visitExpression_Inr_iff)
  from run_types[OF this distinct_postorder[OF assms(2)] children_first_postorder]
  show thesis using that T by (auto simp: typed_def)
qed

lemma typed_child: "typed T n \<Longrightarrow> c \<in> set (children n) \<Longrightarrow> typed T c"
  unfolding typed_def by (subst (asm) postorder_children) auto

lemma typed_self: "typed T n \<Longrightarrow> \<exists>t. map_of T n = Some t \<and> type_of_node T n = Inr t"
  by (auto simp: typed_def)

section \<open>Soundness\<close>

fun has_type :: "jsval \<Rightarrow> expression_type \<Rightarrow> bool" where
  "has_type v TNumber \<longleftrightarrow> (\<exists>x. v = VNum x)"
| "has_type v TString \<longleftrightarrow> (\<exists>t. v = VStr t)"
| "has_type v TBoolean \<longleftrightarrow> (\<exists>b. v = VBool b)"
| "has_type v TNil \<longleftrightarrow> v = VNull"
| "has_type v TDynamic \<longleftrightarrow> True"

text \<open>
  The nodes the check may type wrongly: \<open>+\<close> on two operands without a static type is given the type
  number and concatenates when both turn out to be strings, and so does a sum of such sums or a
  conditional with one as a branch.
\<close>

fun text_sum :: "type_table \<Rightarrow> node \<Rightarrow> bool" where
  "text_sum T (Binary op a b i j) \<longleftrightarrow> op = js ''+'' \<and>
     (map_of T a = Some TDynamic \<or> text_sum T a) \<and> (map_of T b = Some TDynamic \<or> text_sum T b)"
| "text_sum T (Cond c a b i j) \<longleftrightarrow> text_sum T a \<or> text_sum T b"
| "text_sum T n \<longleftrightarrow> False"

definition fits :: "type_table \<Rightarrow> node \<Rightarrow> jsval \<Rightarrow> expression_type \<Rightarrow> bool" where
  "fits T n v t \<longleftrightarrow> has_type v t \<or> t = TNumber \<and> text_sum T n \<and> has_type v TString"

lemma binary_values_type:
  assumes "binary_values op v w i = Inr x"
  shows "if op \<in> set comparison_operators then has_type (rv_value x) TBoolean
    else has_type (rv_value x) TNumber \<or>
      op = js ''+'' \<and> has_type (rv_value x) TString \<and> has_type (rv_value v) TString \<and> has_type (rv_value w) TString"
  using assms
  by (auto simp: binary_values_def Let_def comparison_operators_def binary_equality_def compare_values_def
      binary_arith_def rsimps split: jsval.splits if_splits option.splits bool.splits)

lemma fits_text:
  "fits T n v t \<Longrightarrow> has_type v TString \<Longrightarrow> requireType T n TNumber = Inr () \<Longrightarrow> map_of T n = Some t \<Longrightarrow>
   map_of T n = Some TDynamic \<or> text_sum T n"
  by (auto simp: fits_def requireType_def split: if_splits)

lemma call_type:
  assumes "eval_call e d f as i s = Inr r" and "type_of_call T f as = Inr t"
  shows "has_type (rv_value (fst r)) t"
  using assms(1)
proof (cases rule: eval_call_cases)
  case (lookup v s1 k u)
  then show ?thesis
    using assms(2) by (auto simp: type_of_call_def call_header_def time_functions_def rsimps split: if_splits option.splits)
qed (use assms(2) in \<open>auto simp: type_of_call_def rsimps time_functions_def split: if_splits\<close>)

lemma evaluate_type:
  "evaluate e d n s = Inr r \<Longrightarrow> typed T n \<Longrightarrow> map_of T n = Some t \<Longrightarrow> fits T n (rv_value (fst r)) t"
proof (induction n arbitrary: d s r t rule: node_children_induct)
  case (node n)
  from node.prems(1) have r: "evaluateNode e (d + 1) n s = Inr r" by (simp add: evaluate_Inr)
  from typed_self[OF node.prems(2)] node.prems(3) have t: "type_of_node T n = Inr t" by simp
  have IH: "fits T c (rv_value (fst r')) t'"
    if "evaluate e d' c s' = Inr r'" "c \<in> set (children n)" "map_of T c = Some t'" for d' c s' r' t'
    using node.IH[OF that(2,1) typed_child[OF node.prems(2) that(2)] that(3)] .
  show ?case
  proof (cases n)
    case (Call f as i j)
    with r t call_type[of e "d + 1" f as i s r T t] show ?thesis by (simp add: type_of_node_def fits_def)
  next
    case (Lit l b i j)
    with r t show ?thesis
      by (auto simp: fits_def type_of_node_def literal_type_def literal_value_def rsimps split: literal.splits)
  next
    case (Var x i j)
    with r t show ?thesis by (auto simp: fits_def type_of_node_def rsimps)
  next
    case (Unary op a i j)
    from r[unfolded Unary] show ?thesis
      by (cases rule: eval_unary_cases) (use t Unary in \<open>auto simp: fits_def type_of_node_def type_of_unary_def rsimps\<close>)
  next
    case (Binary op a b i j)
    from r[unfolded Binary] show ?thesis
    proof (cases rule: eval_binary_cases)
      case (strict v s1 w s2 x)
      from typed_self[OF typed_child[OF node.prems(2), of a]] Binary obtain ta where ta: "map_of T a = Some ta" by auto
      from typed_self[OF typed_child[OF node.prems(2), of b]] Binary obtain tb where tb: "map_of T b = Some tb" by auto
      have fa: "fits T a (rv_value v) ta" and fb: "fits T b (rv_value w) tb"
        using IH[OF strict(2) _ ta] IH[OF strict(3) _ tb] Binary by simp_all
      note x = binary_values_type[OF strict(4)]
      consider (compare) "op \<in> set comparison_operators" "t = TBoolean"
        | (join) "op = js ''+''" "ta = TString" "tb = TString" "t = TString"
        | (number) "op \<notin> set comparison_operators" "requireType T a TNumber = Inr ()"
          "requireType T b TNumber = Inr ()" "t = TNumber"
        using t Binary strict(1) ta tb by (auto simp: type_of_node_def type_of_binary_def rsimps split: if_splits)
      then show ?thesis
      proof cases
        case compare
        with x strict show ?thesis by (simp add: fits_def)
      next
        case join
        with fa fb have "has_type (rv_value x) TString" using strict(4) by (auto simp: fits_def binary_values_def)
        with join strict show ?thesis by (simp add: fits_def)
      next
        case number
        with x strict fits_text[OF fa _ number(2) ta] fits_text[OF fb _ number(3) tb] Binary show ?thesis
          by (auto simp: fits_def simp del: has_type.simps)
      qed
    qed (use t Binary in \<open>auto simp: fits_def type_of_node_def type_of_binary_def rsimps\<close>)
  next
    case (Cond c a b i j)
    obtain v s2 where rr: "r = (v, s2)" by (cases r)
    from typed_self[OF typed_child[OF node.prems(2), of a]] Cond obtain ta where ta: "map_of T a = Some ta" by auto
    from typed_self[OF typed_child[OF node.prems(2), of b]] Cond obtain tb where tb: "map_of T b = Some tb" by auto
    have u: "t = (if ta = tb then ta else TDynamic)"
      using t Cond ta tb by (auto simp: type_of_node_def type_of_cond_def rsimps)
    show ?thesis
    proof (rule eval_cond_cases[OF r[unfolded Cond]], goal_cases)
      case (1 w s1)
      then show ?case using IH[OF 1(3) _ ta] u Cond by (cases "ta = tb") (auto simp: fits_def)
    next
      case (2 w s1)
      then show ?case using IH[OF 2(3) _ tb] u Cond by (cases "ta = tb") (auto simp: fits_def)
    qed
  qed
qed

end
