(* ===== verification/Display.thy ===== *)
theory Display
  imports Runtime
begin

text \<open>
  The price summaries of \<open>billing-expression/display.ts\<close>: token tiers, tiers that depend on the time
  of day and task tiers, read off a compiled expression. The readers look at arguments by position;
  on trees of the parser every call has its arity, so the patterns cover every case that occurs.
\<close>

section \<open>Token tiers\<close>

record token_condition =
  tc_var :: jsstr
  tc_op :: jsstr
  tc_value :: jsnum

record token_tier =
  tt_conditionText :: "jsstr option"
  tt_imageCount :: bool
  tt_billingUnit :: "billing_unit option"
  tt_fixedPrice :: "jsnum option"
  tt_label :: jsstr
  tt_conditions :: "token_condition list"
  tt_prices :: "(jsstr, jsnum) orec"

fun flattenBinary :: "node \<Rightarrow> jsstr \<Rightarrow> node list" where
  "flattenBinary (Binary op a b i j) operator =
     (if op = operator then flattenBinary a operator @ flattenBinary b operator
      else [Binary op a b i j])"
| "flattenBinary n operator = [n]"

definition order_operators :: "jsstr list" where
  "order_operators = [js ''<'', js ''<='', js ''>'', js ''>='']"

definition tokenCondition :: "node \<Rightarrow> token_condition option" where
  "tokenCondition part =
     (case part of
        Binary op (Var v i j) (Lit (LNum x) b i' j') s e \<Rightarrow>
          if op \<in> set order_operators \<and> v \<in> set [js ''p'', js ''c'', js ''len''] \<and> \<not> num_lt x (Fin 0)
          then Some \<lparr>tc_var = v, tc_op = op, tc_value = x\<rparr> else None
      | _ \<Rightarrow> None)"

text \<open>The list of results, or nothing when one is missing.\<close>

fun all_some :: "'a option list \<Rightarrow> 'a list option" where
  "all_some [] = Some []"
| "all_some (None # xs) = None"
| "all_some (Some x # xs) = map_option (\<lambda>ys. x # ys) (all_some xs)"

definition tokenConditions :: "node \<Rightarrow> token_condition list option" where
  "tokenConditions n = all_some (map tokenCondition (flattenBinary n (js ''&&'')))"

definition is_zero_literal :: "node \<Rightarrow> bool" where
  "is_zero_literal n =
     (case n of Lit (LNum x) b i j \<Rightarrow> num_eq x (Fin 0) | _ \<Rightarrow> False)"

definition nonnegativePriceLiteral :: "node \<Rightarrow> jsnum option" where
  "nonnegativePriceLiteral n =
     (case n of
        Lit (LNum x) b i j \<Rightarrow> if num_le (Fin 0) x then Some x else None
      | Unary op a i j \<Rightarrow> if op = js ''-'' \<and> is_zero_literal a then Some NegZero else None
      | _ \<Rightarrow> None)"

text \<open>The price variable of a factor: a token variable, or \<open>p\<close> for the clamped text remainder.\<close>

definition is_text_remainder :: "node \<Rightarrow> bool" where
  "is_text_remainder n =
     (case n of
        Binary op (Var v i j) (Var w i' j') s e \<Rightarrow> op = js ''-'' \<and> v = js ''len'' \<and> w = js ''ai''
      | _ \<Rightarrow> False)"

definition clamped_remainder :: "node list \<Rightarrow> bool" where
  "clamped_remainder as =
     (case as of
        [a, b] \<Rightarrow>
          if is_zero_literal a then is_text_remainder b
          else is_zero_literal b \<and> is_text_remainder a
      | _ \<Rightarrow> False)"

definition price_variable :: "node \<Rightarrow> jsstr option" where
  "price_variable input =
     (case input of
        Var v i j \<Rightarrow> if v \<noteq> js ''len'' \<and> v \<noteq> js ''image_count'' then Some v else None
      | Call f as i j \<Rightarrow> if f = js ''max'' \<and> clamped_remainder as then Some (js ''p'') else None
      | _ \<Rightarrow> None)"

definition price_term :: "node \<Rightarrow> (jsstr \<times> jsnum) option" where
  "price_term term =
     (case term of
        Binary op l r i j \<Rightarrow>
          if op \<noteq> js ''*'' then None
          else (case nonnegativePriceLiteral r of
              Some price \<Rightarrow> map_option (\<lambda>v. (v, price)) (price_variable l)
            | None \<Rightarrow>
                (case nonnegativePriceLiteral l of
                   Some price \<Rightarrow> map_option (\<lambda>v. (v, price)) (price_variable r)
                 | None \<Rightarrow> None))
      | _ \<Rightarrow> None)"

fun price_terms :: "node list \<Rightarrow> (jsstr, jsnum) orec \<Rightarrow> (jsstr, jsnum) orec option" where
  "price_terms [] prices = Some prices"
| "price_terms (t # ts) prices =
     (case price_term t of
        None \<Rightarrow> None
      | Some (v, price) \<Rightarrow>
          if orec_has prices v then None else price_terms ts (orec_set v price prices))"

definition fixed_literal :: "node \<Rightarrow> jsnum option" where
  "fixed_literal body =
     (case body of
        Call f (Lit (LNum x) b i j # _) s e \<Rightarrow> if f = js ''fixed'' then Some x else None
      | _ \<Rightarrow> None)"

definition tokenTier :: "node \<Rightarrow> token_condition list \<Rightarrow> token_tier option" where
  "tokenTier n conditions =
     (case n of
        Call f (Lit (LStr label) b i j # body # _) s e \<Rightarrow>
          if f \<noteq> js ''tier'' then None
          else (case fixed_literal body of
              Some x \<Rightarrow>
                Some \<lparr>tt_conditionText = None, tt_imageCount = False, tt_billingUnit = Some URequest,
                      tt_fixedPrice = Some x, tt_label = label, tt_conditions = conditions,
                      tt_prices = []\<rparr>
            | None \<Rightarrow>
                (case price_terms (flattenBinary body (js ''+'')) [] of
                   None \<Rightarrow> None
                 | Some prices \<Rightarrow>
                     if prices = [] then None
                     else Some \<lparr>tt_conditionText = None, tt_imageCount = False,
                                tt_billingUnit = None, tt_fixedPrice = None, tt_label = label,
                                tt_conditions = conditions, tt_prices = prices\<rparr>))
      | _ \<Rightarrow> None)"

definition audio_presence :: "node \<Rightarrow> jsstr list" where
  "audio_presence part =
     (case part of
        Binary op (Var v i j) r s e \<Rightarrow>
          if op = js ''>'' \<and> (v = js ''ai'' \<or> v = js ''ao'') \<and> is_zero_literal r then [v] else []
      | _ \<Rightarrow> [])"

definition audio_split :: "node \<Rightarrow> token_tier list option" where
  "audio_split n =
     (case n of
        Cond (Binary op l r i j) a b s e \<Rightarrow>
          if op = js ''||'' \<and> length (remdups (audio_presence l @ audio_presence r)) = 2 then
            (case (tokenTier a [], tokenTier b []) of
               (Some audio, Some text) \<Rightarrow>
                 Some [audio\<lparr>tt_conditionText := Some (js ''Audio requests'')\<rparr>,
                       text\<lparr>tt_conditionText := Some (js ''Text-only requests'')\<rparr>]
             | _ \<Rightarrow> None)
          else None
      | _ \<Rightarrow> None)"

definition is_image_count :: "node \<Rightarrow> bool" where
  "is_image_count n = (case n of Var v i j \<Rightarrow> v = js ''image_count'' | _ \<Rightarrow> False)"

text \<open>The loop along the \<open>no\<close> branches.\<close>

fun token_chain :: "node \<Rightarrow> token_tier list option" where
  "token_chain (Cond c a b i j) =
     (case tokenConditions c of
        None \<Rightarrow> None
      | Some cs \<Rightarrow>
          (case tokenTier a cs of
             None \<Rightarrow> None
           | Some t \<Rightarrow> map_option (\<lambda>ts. t # ts) (token_chain b)))"
| "token_chain n = map_option (\<lambda>t. [t]) (tokenTier n [])"

fun readTokenTierChain :: "node \<Rightarrow> token_tier list option" where
  "readTokenTierChain n =
     (case audio_split n of
        Some tiers \<Rightarrow> Some tiers
      | None \<Rightarrow>
          (case n of
             Binary op a b i j \<Rightarrow>
               if op = js ''*'' \<and> is_image_count a then
                 map_option (map (\<lambda>t. t\<lparr>tt_imageCount := True\<rparr>)) (readTokenTierChain b)
               else if op = js ''*'' \<and> is_image_count b then
                 map_option (map (\<lambda>t. t\<lparr>tt_imageCount := True\<rparr>)) (readTokenTierChain a)
               else token_chain n
           | _ \<Rightarrow> token_chain n))"

declare readTokenTierChain.simps [simp del]

section \<open>Tiers by time\<close>

record time_step =
  ts_condition :: node
  ts_matches :: bool

text \<open>A time tier is a token tier with the path of time conditions that leads to it.\<close>

record time_tier = token_tier +
  tm_path :: "time_step list"

definition isTimeCondition :: "node \<Rightarrow> expr_error + bool" where
  "isTimeCondition n =
     rbind (expressionDependencies n) (\<lambda>d.
       Inr (dep_variables d = [] \<and>
            list_ex (\<lambda>f. f \<in> set time_functions) (dep_functions d) \<and>
            list_all (\<lambda>f. f \<in> set (time_functions @ [js ''min'', js ''max'', js ''abs'', js ''ceil'', js ''floor'']))
              (dep_functions d)))"

definition describe_step :: "jsstr \<Rightarrow> time_step \<Rightarrow> jsstr" where
  "describe_step source st =
     (let text = slice source (nstart (ts_condition st)) (nend (ts_condition st))
      in if ts_matches st then js ''('' @ text @ js '')'' else js ''!('' @ text @ js '')'')"

definition describe_condition :: "token_condition \<Rightarrow> jsstr" where
  "describe_condition c = tc_var c @ js '' '' @ tc_op c @ js '' '' @ num_to_string (tc_value c)"

definition with_path :: "jsstr \<Rightarrow> time_step list \<Rightarrow> token_tier \<Rightarrow> time_tier" where
  "with_path source path t =
     \<lparr>tt_conditionText = Some (join (js '' && '')
         (join (js '' && '') (map (describe_step source) path) # map describe_condition (tt_conditions t))),
      tt_imageCount = tt_imageCount t, tt_billingUnit = tt_billingUnit t,
      tt_fixedPrice = tt_fixedPrice t, tt_label = tt_label t, tt_conditions = tt_conditions t,
      tt_prices = tt_prices t, tm_path = path\<rparr>"

definition time_leaf :: "jsstr \<Rightarrow> node \<Rightarrow> time_step list \<Rightarrow> time_tier list option" where
  "time_leaf source n path =
     (case readTokenTierChain n of
        None \<Rightarrow> None
      | Some tiers \<Rightarrow> if path = [] then None else Some (map (with_path source path) tiers))"

fun timeTierBranches :: "jsstr \<Rightarrow> node \<Rightarrow> time_step list \<Rightarrow> expr_error + time_tier list option" where
  "timeTierBranches source (Cond c a b i j) path =
     rbind (isTimeCondition c) (\<lambda>t.
       if \<not> t then Inr (time_leaf source (Cond c a b i j) path)
       else rbind (timeTierBranches source a (path @ [\<lparr>ts_condition = c, ts_matches = True\<rparr>])) (\<lambda>y.
            rbind (timeTierBranches source b (path @ [\<lparr>ts_condition = c, ts_matches = False\<rparr>])) (\<lambda>n.
              Inr (case (y, n) of (Some ys, Some ns) \<Rightarrow> Some (ys @ ns) | _ \<Rightarrow> None))))"
| "timeTierBranches source n path = Inr (time_leaf source n path)"

definition path_holds :: "host \<Rightarrow> compiled \<Rightarrow> date \<Rightarrow> time_step list \<Rightarrow> bool" where
  "path_holds h c now path =
     list_all (\<lambda>st. evaluateBillingCondition h c (ts_condition st) now = Some (ts_matches st)) path"

definition time_pricing ::
  "host \<Rightarrow> compilation \<Rightarrow> date option \<Rightarrow> expr_error + (time_tier list \<times> time_tier list) option" where
  "time_pricing h r now =
     (case r of
        Failed f \<Rightarrow> Inr None
      | Ready c \<Rightarrow>
          rbind (timeTierBranches (csource c) (cast c) []) (\<lambda>t.
            Inr (case t of
                None \<Rightarrow> None
              | Some tiers \<Rightarrow>
                  Some (tiers, case now of None \<Rightarrow> []
                               | Some d \<Rightarrow> filter (\<lambda>t. path_holds h c d (tm_path t)) tiers))))"

definition readTimeTokenPricing ::
  "host \<Rightarrow> jsstr \<Rightarrow> date option \<Rightarrow> compile_cache \<Rightarrow>
   (expr_error + (time_tier list \<times> time_tier list) option) \<times> compile_cache" where
  "readTimeTokenPricing h source now cache =
     (let (r, cache') = compileBillingExpression source cache in (time_pricing h r now, cache'))"

section \<open>Task tiers\<close>

datatype usage_unit = USecond | UCount | UTokenUnit | UCredit

datatype usage_type = UNumberType | UBooleanType

record usage_field =
  uf_type :: "usage_type option"
  uf_unit :: "usage_unit option"
  uf_enum :: "jsstr list option"

type_synonym usage_schema = "(jsstr, usage_field) orec"

record task_condition =
  tk_field :: jsstr
  tk_value :: jsstr

record task_tier =
  tk_label :: jsstr
  tk_conditions :: "task_condition list"
  tk_constant :: jsnum
  tk_unitPrices :: "(jsstr, jsnum) orec"

definition task_value :: "usage_schema \<Rightarrow> bool \<Rightarrow> jsstr \<Rightarrow> literal \<Rightarrow> jsstr option" where
  "task_value schema includeBoolean field val =
     (case map_of schema field of
        None \<Rightarrow> None
      | Some fd \<Rightarrow>
          if uf_type fd = Some UBooleanType then
            (case val of
               LBool b \<Rightarrow> if includeBoolean then Some (if b then js ''true'' else js ''false'') else None
             | _ \<Rightarrow> None)
          else (case (val, uf_enum fd) of
              (LStr t, Some vs) \<Rightarrow> if t \<in> set vs then Some t else None
            | _ \<Rightarrow> None))"

definition taskCondition :: "usage_schema \<Rightarrow> bool \<Rightarrow> node \<Rightarrow> task_condition option" where
  "taskCondition schema includeBoolean term =
     (case term of
        Binary op (Call f (Lit (LStr field) b i j # _) i' j') (Lit val b' i'' j'') s e \<Rightarrow>
          if op = js ''=='' \<and> f = js ''u'' then
            map_option (\<lambda>t. \<lparr>tk_field = field, tk_value = t\<rparr>) (task_value schema includeBoolean field val)
          else None
      | _ \<Rightarrow> None)"

definition taskConditions :: "node \<Rightarrow> usage_schema \<Rightarrow> bool \<Rightarrow> task_condition list option" where
  "taskConditions n schema includeBoolean =
     all_some (map (taskCondition schema includeBoolean) (flattenBinary n (js ''&&'')))"

text \<open>A unit price term: the factor, and whether it was divided by a million.\<close>

definition unscale :: "node \<Rightarrow> (node \<times> bool) option" where
  "unscale term =
     (case term of
        Binary op l r i j \<Rightarrow>
          if op \<noteq> js ''/'' then Some (term, False)
          else (case r of
              Lit (LNum x) b i' j' \<Rightarrow> if num_eq x (Fin 1000000) then Some (l, True) else None
            | _ \<Rightarrow> None)
      | _ \<Rightarrow> Some (term, False))"

definition unit_price :: "usage_schema \<Rightarrow> node \<times> bool \<Rightarrow> (jsstr \<times> jsnum) option" where
  "unit_price schema ts =
     (case fst ts of
        Binary op (Call f (Lit (LStr field) b i j # _) i' j') r s e \<Rightarrow>
          if op \<noteq> js ''*'' \<or> f \<noteq> js ''u'' then None
          else (case (nonnegativePriceLiteral r, map_of schema field) of
              (Some price, Some fd) \<Rightarrow>
                (case (uf_type fd, uf_unit fd) of
                   (Some UNumberType, Some un) \<Rightarrow>
                     if (un = UTokenUnit) \<noteq> snd ts then None else Some (field, price)
                 | _ \<Rightarrow> None)
            | _ \<Rightarrow> None)
      | _ \<Rightarrow> None)"

fun task_terms ::
  "usage_schema \<Rightarrow> node list \<Rightarrow> jsnum option \<Rightarrow> (jsstr, jsnum) orec \<Rightarrow> (jsnum option \<times> (jsstr, jsnum) orec) option" where
  "task_terms schema [] constant prices = Some (constant, prices)"
| "task_terms schema (t # ts) constant prices =
     (case nonnegativePriceLiteral t of
        Some x \<Rightarrow> if constant \<noteq> None then None else task_terms schema ts (Some x) prices
      | None \<Rightarrow>
          (case unscale t of
             None \<Rightarrow> None
           | Some p \<Rightarrow>
               (case unit_price schema p of
                  None \<Rightarrow> None
                | Some (field, price) \<Rightarrow>
                    if orec_has prices field then None
                    else task_terms schema ts constant (orec_set field price prices))))"

definition taskTier :: "node \<Rightarrow> task_condition list \<Rightarrow> usage_schema \<Rightarrow> task_tier option" where
  "taskTier n conditions schema =
     (case n of
        Call f (Lit (LStr label) b i j # body # _) s e \<Rightarrow>
          if f \<noteq> js ''tier'' then None
          else (case task_terms schema (flattenBinary body (js ''+'')) None [] of
              None \<Rightarrow> None
            | Some (constant, prices) \<Rightarrow>
                if prices = [] then None
                else Some \<lparr>tk_label = label, tk_conditions = conditions,
                           tk_constant = (case constant of Some x \<Rightarrow> x | None \<Rightarrow> Fin 0),
                           tk_unitPrices = prices\<rparr>)
      | _ \<Rightarrow> None)"

fun readTaskTierChain :: "node \<Rightarrow> usage_schema \<Rightarrow> bool \<Rightarrow> task_tier list option" where
  "readTaskTierChain (Cond c a b i j) schema includeBoolean =
     (case taskConditions c schema includeBoolean of
        None \<Rightarrow> None
      | Some cs \<Rightarrow>
          (case taskTier a cs schema of
             None \<Rightarrow> None
           | Some t \<Rightarrow> map_option (\<lambda>ts. t # ts) (readTaskTierChain b schema includeBoolean)))"
| "readTaskTierChain n schema includeBoolean = map_option (\<lambda>t. [t]) (taskTier n [] schema)"

end
