(* ===== verification/Visual.thy ===== *)
theory Visual
  imports Display
begin

text \<open>
  The visual editor's document of \<open>billing-expression/visual.ts\<close>: reading a compiled expression into
  conditions and prices that remember the node they came from, and writing it back by patching the
  original text. Fields the source marks optional are options; the identity test on nodes is
  equality (nodes of one tree are pairwise different).
\<close>

section \<open>Documents\<close>

datatype vcondition =
    VComparison (vc_id: jsstr) (vc_origin: "node option") (vc_probe: jsstr) (vc_timezone: jsstr)
      (vc_operator: jsstr) (vc_value: jsstr)
  | VAll (vc_id: jsstr) (vc_origin: "node option") (vc_children: "vcondition list")
  | VAny (vc_id: jsstr) (vc_origin: "node option") (vc_children: "vcondition list")
  | VNot (vc_id: jsstr) (vc_origin: "node option") (vc_child: vcondition)

record vprice =
  vp_variable :: jsstr
  vp_value :: jsstr
  vp_origin :: "node option"

datatype vpricing =
    VTier (vn_id: jsstr) (vn_origin: "node option") (vt_label: jsstr) (vt_prices: "vprice list")
      (vt_unit: billing_unit) (vt_fixedPrice: jsstr)
  | VBranch (vn_id: jsstr) (vn_origin: "node option") (vb_condition: vcondition) (vb_yes: vpricing)
      (vb_no: vpricing)

record vdocument =
  vd_source :: jsstr
  vd_root :: vpricing

record vissue =
  vi_id :: jsstr
  vi_message :: jsstr

datatype vserialization = SerOk jsstr | SerIssues "vissue list"

definition TIME_DOMAINS :: "(jsstr, int \<times> int) orec" where
  "TIME_DOMAINS = [(js ''hour'', 0, 23), (js ''minute'', 0, 59), (js ''weekday'', 0, 6),
     (js ''month'', 1, 12), (js ''day'', 1, 31)]"

text \<open>The counter behind fresh identifiers, and an empty condition.\<close>

definition visualNodeId :: "int \<Rightarrow> jsstr \<times> int" where
  "visualNodeId nextId = (js ''draft-'' @ show_int (nextId + 1), nextId + 1)"

definition createEmptyVisualCondition :: "int \<Rightarrow> vcondition \<times> int" where
  "createEmptyVisualCondition nextId =
     (let (i, nextId') = visualNodeId nextId
      in (VComparison i None (js ''hour'') (js ''Asia/Shanghai'') (js ''>='') [], nextId'))"

section \<open>Reading\<close>

definition node_id :: "string \<Rightarrow> node \<Rightarrow> jsstr" where
  "node_id prefix n = js prefix @ show_int (nstart n) @ js ''-'' @ show_int (nend n)"

definition read_comparison :: "node \<Rightarrow> vcondition option" where
  "read_comparison n =
     (case n of
        Binary op l (Lit (LNum x) b i j) s e \<Rightarrow>
          if op \<notin> set comparison_operators then None
          else (case l of
              Var v i' j' \<Rightarrow>
                if v \<in> set [js ''p'', js ''c'', js ''len''] then
                  Some (VComparison (node_id ''condition-'' n) (Some n) v [] op (num_to_string x))
                else None
            | Call f (Lit (LStr zone) b' i'' j'' # _) i' j' \<Rightarrow>
                if f \<in> set time_functions then
                  Some (VComparison (node_id ''condition-'' n) (Some n) f zone op (num_to_string x))
                else None
            | _ \<Rightarrow> None)
      | _ \<Rightarrow> None)"

lemma flattenBinary_weight: "m \<in> set (flattenBinary n op) \<Longrightarrow> node_weight m \<le> node_weight n"
  by (induction n op rule: flattenBinary.induct) (auto split: if_splits)

function readVisualCondition :: "node \<Rightarrow> vcondition option" where
  "readVisualCondition n =
     (case n of
        Unary op a i j \<Rightarrow>
          if op = js ''!'' then
            map_option (VNot (node_id ''condition-'' n) (Some n)) (readVisualCondition a)
          else None
      | Binary op a b i j \<Rightarrow>
          if op = js ''&&'' then
            map_option (VAll (node_id ''condition-'' n) (Some n))
              (all_some (map readVisualCondition (flattenBinary n op)))
          else if op = js ''||'' then
            map_option (VAny (node_id ''condition-'' n) (Some n))
              (all_some (map readVisualCondition (flattenBinary n op)))
          else read_comparison n
      | _ \<Rightarrow> None)"
  by pat_completeness auto
termination
  by (relation "measure node_weight") (auto dest!: flattenBinary_weight)

declare readVisualCondition.simps [simp del]

definition read_price :: "node \<Rightarrow> vprice option" where
  "read_price term =
     (case term of
        Binary op (Var v i j) (Lit (LNum x) b i' j') s e \<Rightarrow>
          if op = js ''*'' \<and> v \<noteq> js ''len'' \<and> v \<noteq> js ''image_count'' \<and> \<not> num_lt x (Fin 0)
          then Some \<lparr>vp_variable = v, vp_value = num_to_string x, vp_origin = Some term\<rparr> else None
      | _ \<Rightarrow> None)"

fun read_prices :: "node list \<Rightarrow> vprice list \<Rightarrow> vprice list option" where
  "read_prices [] prices = Some prices"
| "read_prices (t # ts) prices =
     (case read_price t of
        None \<Rightarrow> None
      | Some p \<Rightarrow>
          if list_ex (\<lambda>q. vp_variable q = vp_variable p) prices then None
          else read_prices ts (prices @ [p]))"

definition literal_text :: "literal \<Rightarrow> jsstr" where
  "literal_text l =
     (case l of LNull \<Rightarrow> js ''null'' | LBool b \<Rightarrow> (if b then js ''true'' else js ''false'')
      | LNum x \<Rightarrow> num_to_string x | LStr t \<Rightarrow> t)"

definition read_tier :: "node \<Rightarrow> vpricing option" where
  "read_tier n =
     (case n of
        Call f (Lit (LStr label) b i j # body # _) s e \<Rightarrow>
          if f \<noteq> js ''tier'' then None
          else (case body of
              Call g (Lit amount b' i' j' # _) s' e' \<Rightarrow>
                if g = js ''fixed'' then
                  Some (VTier (node_id ''pricing-'' n) (Some n) label [] URequest (literal_text amount))
                else None
            | _ \<Rightarrow>
                map_option (\<lambda>ps. VTier (node_id ''pricing-'' n) (Some n) label ps UToken [])
                  (read_prices (flattenBinary body (js ''+'')) []))
      | _ \<Rightarrow> None)"

fun readVisualPricing :: "node \<Rightarrow> vpricing option" where
  "readVisualPricing (Cond c a b i j) =
     (case (readVisualCondition c, readVisualPricing a, readVisualPricing b) of
        (Some vc, Some va, Some vb) \<Rightarrow>
          Some (VBranch (node_id ''pricing-'' (Cond c a b i j)) (Some (Cond c a b i j)) vc va vb)
      | _ \<Rightarrow> None)"
| "readVisualPricing n = read_tier n"

section \<open>Writing\<close>

type_synonym patch = "node \<times> jsstr"

text \<open>The stable sort by descending start.\<close>

fun insert_patch :: "patch \<Rightarrow> patch list \<Rightarrow> patch list" where
  "insert_patch p [] = [p]"
| "insert_patch p (q # qs) = (if nstart (fst p) < nstart (fst q) then q # insert_patch p qs else p # q # qs)"

fun sort_patches :: "patch list \<Rightarrow> patch list" where
  "sort_patches [] = []"
| "sort_patches (p # ps) = insert_patch p (sort_patches ps)"

definition apply_patch :: "int \<Rightarrow> jsstr \<Rightarrow> patch \<Rightarrow> jsstr" where
  "apply_patch base result p =
     itake (nstart (fst p) - base) result @ snd p @ idrop (nend (fst p) - base) result"

definition patchSource :: "jsstr \<Rightarrow> node \<Rightarrow> patch list \<Rightarrow> jsstr" where
  "patchSource source origin patches =
     foldl (apply_patch (nstart origin)) (slice source (nstart origin) (nend origin)) (sort_patches patches)"

definition parseNonNegativeNumber :: "jsstr \<Rightarrow> jsnum option" where
  "parseNonNegativeNumber t =
     (if parse_unsigned (trim t) = None then None
      else (let x = js_number t in if is_finite x \<and> num_le (Fin 0) x then Some x else None))"

text \<open>\<open>value === literal.value\<close> for a number or \<open>null\<close>.\<close>

definition literal_is :: "literal \<Rightarrow> jsnum option \<Rightarrow> bool" where
  "literal_is l v =
     (case (l, v) of (LNum x, Some y) \<Rightarrow> num_eq y x | (LNull, None) \<Rightarrow> True | _ \<Rightarrow> False)"

definition issue :: "jsstr \<Rightarrow> string \<Rightarrow> vissue" where
  "issue i m = \<lparr>vi_id = i, vi_message = js m\<rparr>"

definition comparison_valid :: "jsstr \<Rightarrow> jsstr \<Rightarrow> jsnum option \<Rightarrow> bool" where
  "comparison_valid probe op v =
     (case v of
        None \<Rightarrow> False
      | Some x \<Rightarrow>
          (case map_of TIME_DOMAINS probe of
             None \<Rightarrow> True
           | Some (lo, hi) \<Rightarrow>
               is_integer x \<and> num_le (num_of_int lo) x \<and>
               num_le x (num_of_int (hi + (if op = js ''<'' then 1 else 0)))))"

definition origin_zone :: "node option \<Rightarrow> literal option" where
  "origin_zone origin =
     (case origin of
        Some (Binary op (Call f (Lit l b i j # _) i' j') r s e) \<Rightarrow> Some l
      | _ \<Rightarrow> None)"

definition zone_issue :: "host \<Rightarrow> node option \<Rightarrow> jsstr \<Rightarrow> bool" where
  "zone_issue h origin zone =
     (origin_zone origin \<noteq> Some (LStr zone) \<and>
      (trim zone = [] \<or> zone_format h (trim zone) 0 = None))"

definition probe_text :: "jsstr \<Rightarrow> jsstr \<Rightarrow> jsstr" where
  "probe_text probe zone =
     (if probe \<in> set time_functions then probe @ js ''('' @ json_quote zone @ js '')'' else probe)"

definition kept_probe :: "jsstr \<Rightarrow> node \<Rightarrow> jsstr \<Rightarrow> jsstr \<Rightarrow> jsstr" where
  "kept_probe source old probe zone =
     (if (case old of
            Var v i j \<Rightarrow> v = probe
          | Call f (Lit l b i j # _) i' j' \<Rightarrow> f = probe \<and> l = LStr zone
          | _ \<Rightarrow> False)
      then slice source (nstart old) (nend old) else probe_text probe zone)"

definition kept_literal :: "jsstr \<Rightarrow> node \<Rightarrow> jsnum option \<Rightarrow> jsstr \<Rightarrow> jsstr" where
  "kept_literal source old v text =
     (if (case old of Lit l b i j \<Rightarrow> literal_is l v | _ \<Rightarrow> False)
      then slice source (nstart old) (nend old) else text)"

definition write_comparison ::
  "host \<Rightarrow> jsstr \<Rightarrow> node option \<Rightarrow> jsstr \<Rightarrow> jsstr \<Rightarrow> jsstr \<Rightarrow> jsstr \<Rightarrow> jsstr" where
  "write_comparison h source origin probe zone op text =
     (let v = parseNonNegativeNumber text;
          fallback = js ''('' @ probe_text probe zone @ js '' '' @ op @ js '' '' @ text @ js '')''
      in case origin of
           Some (Binary op' l r i j) \<Rightarrow>
             if op' = op then
               patchSource source (Binary op' l r i j)
                 [(l, kept_probe source l probe zone), (r, kept_literal source r v text)]
             else fallback
         | _ \<Rightarrow> fallback)"

definition comparison_issues :: "host \<Rightarrow> jsstr \<Rightarrow> node option \<Rightarrow> jsstr \<Rightarrow> jsstr \<Rightarrow> jsstr \<Rightarrow> jsstr \<Rightarrow> vissue list" where
  "comparison_issues h i origin probe zone op text =
     (if comparison_valid probe op (parseNonNegativeNumber text) then []
      else [issue i ''Enter a valid condition value.'']) @
     (if probe \<in> set time_functions \<and> zone_issue h origin zone
      then [issue i ''Choose a valid IANA timezone.''] else [])"

definition write_group ::
  "jsstr \<Rightarrow> node option \<Rightarrow> jsstr \<Rightarrow> vcondition list \<Rightarrow> jsstr list \<Rightarrow> jsstr" where
  "write_group source origin op kids texts =
     (if (case origin of
            Some (Binary op' l r i j) \<Rightarrow>
              op' = op \<and> map vc_origin kids = map Some (flattenBinary (Binary op' l r i j) op)
          | _ \<Rightarrow> False)
      then patchSource source (the origin) (zip (flattenBinary (the origin) op) texts)
      else js ''('' @ join (js '' '' @ op @ js '' '') (map (\<lambda>t. js ''('' @ t @ js '')'') texts) @ js '')'')"

definition write_not :: "jsstr \<Rightarrow> node option \<Rightarrow> vcondition \<Rightarrow> jsstr \<Rightarrow> jsstr" where
  "write_not source origin child text =
     (case origin of
        Some (Unary op a i j) \<Rightarrow>
          if vc_origin child = Some a then patchSource source (Unary op a i j) [(a, text)]
          else js ''!('' @ text @ js '')''
      | _ \<Rightarrow> js ''!('' @ text @ js '')'')"

text \<open>Each writer returns its text and the issues it adds, in order.\<close>

fun writeVisualCondition :: "host \<Rightarrow> vcondition \<Rightarrow> jsstr \<Rightarrow> jsstr \<times> vissue list" where
  "writeVisualCondition h (VNot i origin child) source =
     (let (text, issues) = writeVisualCondition h child source
      in (write_not source origin child text, issues))"
| "writeVisualCondition h (VAll i origin kids) source =
     (let rs = map (\<lambda>c. writeVisualCondition h c source) kids
      in (write_group source origin (js ''&&'') kids (map fst rs),
          (if kids = [] then [issue i ''Add at least one condition to this group.''] else []) @
          concat (map snd rs)))"
| "writeVisualCondition h (VAny i origin kids) source =
     (let rs = map (\<lambda>c. writeVisualCondition h c source) kids
      in (write_group source origin (js ''||'') kids (map fst rs),
          (if kids = [] then [issue i ''Add at least one condition to this group.''] else []) @
          concat (map snd rs)))"
| "writeVisualCondition h (VComparison i origin probe zone op text) source =
     (write_comparison h source origin probe zone op text, comparison_issues h i origin probe zone op text)"

definition visualConditionExpression :: "host \<Rightarrow> vcondition \<Rightarrow> jsstr \<Rightarrow> jsstr option" where
  "visualConditionExpression h c source =
     (let (text, issues) = writeVisualCondition h c source in if issues = [] then Some text else None)"

definition kept_label :: "jsstr \<Rightarrow> node \<Rightarrow> jsstr \<Rightarrow> jsstr" where
  "kept_label source old label =
     (if (case old of Lit l b i j \<Rightarrow> l = LStr label | _ \<Rightarrow> False)
      then slice source (nstart old) (nend old) else json_quote label)"

definition write_fixed :: "jsstr \<Rightarrow> node option \<Rightarrow> jsstr \<Rightarrow> jsstr \<Rightarrow> jsstr" where
  "write_fixed source origin label text =
     (let v = parseNonNegativeNumber text;
          fallback = js ''tier('' @ json_quote label @ js '', fixed('' @ text @ js ''))''
      in case origin of
           Some (Call f (l # price # r) i j) \<Rightarrow>
             if f \<noteq> js ''tier'' then fallback
             else (let priceText =
                     (case price of
                        Call g (amount # r') i' j' \<Rightarrow>
                          if g = js ''fixed'' \<and> (case amount of Lit a b x y \<Rightarrow> True | _ \<Rightarrow> False)
                          then patchSource source price [(amount, kept_literal source amount v text)]
                          else js ''fixed('' @ text @ js '')''
                      | _ \<Rightarrow> js ''fixed('' @ text @ js '')'')
                   in patchSource source (Call f (l # price # r) i j)
                        [(l, kept_label source l label), (price, priceText)])
         | _ \<Rightarrow> fallback)"

definition fixed_issues :: "jsstr \<Rightarrow> jsstr \<Rightarrow> vissue list" where
  "fixed_issues i text =
     (case parseNonNegativeNumber text of
        Some x \<Rightarrow> if is_finite (num_mul x (Fin 1000000)) then []
                  else [issue (i @ js '':fixed'') ''Enter a finite, non-negative price.'']
      | None \<Rightarrow> [issue (i @ js '':fixed'') ''Enter a finite, non-negative price.''])"

text \<open>A price whose origin is a product with a literal is patched there, another is written out.\<close>

definition price_patch :: "jsstr \<Rightarrow> vprice \<Rightarrow> patch option" where
  "price_patch source p =
     (case vp_origin p of
        Some (Binary op l (Lit a b i j) s e) \<Rightarrow>
          Some (Lit a b i j, kept_literal source (Lit a b i j) (parseNonNegativeNumber (vp_value p)) (vp_value p))
      | _ \<Rightarrow> None)"

definition write_price :: "jsstr \<Rightarrow> vprice \<Rightarrow> jsstr" where
  "write_price source p =
     (case price_patch source p of
        Some patch \<Rightarrow> patchSource source (the (vp_origin p)) [patch]
      | None \<Rightarrow> vp_variable p @ js '' * '' @ vp_value p)"

definition price_issues :: "jsstr \<Rightarrow> vprice list \<Rightarrow> vissue list" where
  "price_issues i prices =
     (if prices = [] then [issue i ''Include at least one price variable.''] else []) @
     concat (map (\<lambda>p. if parseNonNegativeNumber (vp_value p) = None
                     then [issue (i @ js '':'' @ vp_variable p) ''Enter a finite, non-negative price.'']
                     else []) prices)"

definition write_tokens :: "jsstr \<Rightarrow> node option \<Rightarrow> jsstr \<Rightarrow> vprice list \<Rightarrow> jsstr" where
  "write_tokens source origin label prices =
     (let terms = join (js '' + '') (map (write_price source) prices);
          patches = concat (map (\<lambda>p. case price_patch source p of Some q \<Rightarrow> [q] | None \<Rightarrow> []) prices);
          fallback = js ''tier('' @ json_quote label @ js '', '' @ terms @ js '')''
      in case origin of
           Some (Call f (l # body # r) i j) \<Rightarrow>
             if f \<noteq> js ''tier'' then fallback
             else if map vp_origin prices = map Some (flattenBinary body (js ''+'')) then
               patchSource source (Call f (l # body # r) i j) ((l, kept_label source l label) # patches)
             else patchSource source (Call f (l # body # r) i j) [(l, kept_label source l label), (body, terms)]
         | _ \<Rightarrow> fallback)"

fun writeVisualPricing :: "host \<Rightarrow> vpricing \<Rightarrow> jsstr \<Rightarrow> jsstr \<times> vissue list" where
  "writeVisualPricing h (VBranch i origin c a b) source =
     (let (ct, ci) = writeVisualCondition h c source; (yt, yi) = writeVisualPricing h a source;
          (nt, ni) = writeVisualPricing h b source
      in (case origin of
            Some (Cond c' a' b' s e) \<Rightarrow> patchSource source (Cond c' a' b' s e) [(c', ct), (a', yt), (b', nt)]
          | _ \<Rightarrow> js ''('' @ ct @ js '') ? ('' @ yt @ js '') : ('' @ nt @ js '')'',
          ci @ yi @ ni))"
| "writeVisualPricing h (VTier i origin label prices un text) source =
     (case un of
        URequest \<Rightarrow> (write_fixed source origin label text, fixed_issues i text)
      | UToken \<Rightarrow> (write_tokens source origin label prices, price_issues i prices))"

definition serializeVisualBillingDocument ::
  "host \<Rightarrow> vdocument \<Rightarrow> compile_cache \<Rightarrow> vserialization \<times> compile_cache" where
  "serializeVisualBillingDocument h doc cache =
     (let (body, issues) = writeVisualPricing h (vd_root doc) (vd_source doc) in
      if issues \<noteq> [] then (SerIssues issues, cache)
      else (case compileBillingExpression (vd_source doc) cache of
          (Failed f, cache) \<Rightarrow>
            (SerIssues [issue (vn_id (vd_root doc))
               ''This expression cannot be edited visually without losing information.''], cache)
        | (Ready c, cache) \<Rightarrow>
            (let source = itake (nstart (cast c)) (vd_source doc) @ body @ idrop (nend (cast c)) (vd_source doc) in
             case compileBillingExpression source cache of
               (Failed f, cache) \<Rightarrow>
                 (SerIssues [issue (vn_id (vd_root doc)) ''Enter a valid condition value.''], cache)
             | (Ready c', cache) \<Rightarrow> (SerOk source, cache))))"

definition parseVisualBillingDocument ::
  "host \<Rightarrow> jsstr \<Rightarrow> compile_cache \<Rightarrow> vdocument option \<times> compile_cache" where
  "parseVisualBillingDocument h source cache =
     (case compileBillingExpression source cache of
        (Failed f, cache) \<Rightarrow> (None, cache)
      | (Ready c, cache) \<Rightarrow>
          (case readVisualPricing (cast c) of
             None \<Rightarrow> (None, cache)
           | Some tree \<Rightarrow>
               (let doc = \<lparr>vd_source = source, vd_root = tree\<rparr> in
                case serializeVisualBillingDocument h doc cache of
                  (SerOk t, cache) \<Rightarrow> (Some doc, cache)
                | (SerIssues is, cache) \<Rightarrow> (None, cache))))"

end
