(* ===== verification/VisualFacts.thy ===== *)
theory VisualFacts
  imports Visual CompileFacts
begin

text \<open>
  An unedited visual document writes back the very text it was read from: every patch replaces a
  span by itself, and the number texts shown in the editor read back to the literals of the source.
\<close>

section \<open>Patches that change nothing\<close>

definition inside :: "node \<Rightarrow> node \<Rightarrow> bool" where
  "inside n origin \<longleftrightarrow> nstart origin \<le> nstart n \<and> nstart n \<le> nend n \<and> nend n \<le> nend origin"

definition span_text :: "jsstr \<Rightarrow> node \<Rightarrow> jsstr" where
  "span_text source n = slice source (nstart n) (nend n)"

lemma apply_patch_same:
  assumes "inside n origin" and "0 \<le> nstart origin"
  shows "apply_patch (nstart origin) (span_text source origin) (n, span_text source n) = span_text source origin"
proof -
  let ?i = "nstart origin" and ?j = "nend origin" and ?a = "nstart n" and ?b = "nend n"
  have "itake (?a - ?i) (slice source ?i ?j) = slice source ?i ?a"
    using assms by (auto simp: slice_alt itake_take inside_def min_def)
  moreover have "idrop (?b - ?i) (slice source ?i ?j) = slice source ?b ?j"
  proof -
    have "nat (?b - ?i) + nat ?i = nat ?b" "nat (?j - ?i) - nat (?b - ?i) = nat (?j - ?b)"
      using assms by (auto simp: inside_def)
    then show ?thesis by (simp only: slice_alt idrop_drop drop_take drop_drop)
  qed
  moreover have "slice source ?i ?a @ slice source ?a ?b @ slice source ?b ?j = slice source ?i ?j"
    using assms slice_append_slice[of ?i ?a ?b source] slice_append_slice[of ?i ?b ?j source]
    by (simp add: inside_def append_assoc[symmetric] del: append_assoc)
  ultimately show ?thesis by (simp add: apply_patch_def span_text_def)
qed

lemma set_insert_patch: "set (insert_patch p ps) = insert p (set ps)"
  by (induction ps) auto

lemma set_sort_patches [simp]: "set (sort_patches ps) = set ps"
  by (induction ps) (auto simp: set_insert_patch)

lemma foldl_fixpoint: "(\<And>x. x \<in> set xs \<Longrightarrow> f a x = a) \<Longrightarrow> foldl f a xs = a"
  by (induction xs) auto

lemma patchSource_same:
  assumes "0 \<le> nstart origin"
    and "\<And>n t. (n, t) \<in> set patches \<Longrightarrow> inside n origin \<and> t = span_text source n"
  shows "patchSource source origin patches = span_text source origin"
  unfolding patchSource_def span_text_def[symmetric]
proof (rule foldl_fixpoint)
  fix p assume "p \<in> set (sort_patches patches)"
  then obtain n t where "p = (n, t)" "(n, t) \<in> set patches" by (metis set_sort_patches surj_pair)
  with assms apply_patch_same[of n origin source]
  show "apply_patch (nstart origin) (span_text source origin) p = span_text source origin" by auto
qed

section \<open>Number texts read back\<close>

definition number_char :: "jschar \<Rightarrow> bool" where
  "number_char c \<longleftrightarrow> is_digit c \<or> c \<in> {46, 101, 69, 43, 45}"

lemma digits_number_chars: "all_digits ds \<Longrightarrow> list_all number_char ds"
  by (auto simp: all_digits_def number_char_def list_all_iff)

lemma scan_exponent_chars:
  assumes "scan_exponent s = Some (e, [])"
  shows "list_all number_char s"
proof -
  obtain c r where s: "s = c # r" using assms by (cases s) (auto simp: scan_exponent_def)
  define r' where "r' = (if r \<noteq> [] \<and> (hd r = 45 \<or> hd r = 43) then tl r else r)"
  have "dropWhile is_digit r' = []" "c = 101 \<or> c = 69"
    using assms s by (auto simp: scan_exponent_def Let_def r'_def split: if_splits)
  then have "list_all number_char r'"
    by (auto simp: list_all_iff number_char_def dropWhile_eq_Nil_conv)
  moreover have "r = r' \<or> r = hd r # r' \<and> number_char (hd r)"
    by (cases r) (auto simp: r'_def number_char_def)
  moreover have "number_char c" using \<open>c = 101 \<or> c = 69\<close> by (auto simp: number_char_def)
  ultimately show ?thesis using s by (metis list.pred_inject(2))
qed

lemma parse_unsigned_chars:
  assumes "parse_unsigned s = Some v"
  shows "list_all number_char s" and "s \<noteq> []" and "is_digit (hd s) \<or> hd s = 46"
proof -
  have m: "\<exists>t. match_number s = Some (t, v, [])"
    using assms by (auto simp: parse_unsigned_def split: option.splits list.splits)
  then obtain ip fp r where r: "scan_mantissa s = Some (ip, fp, r)"
    "r = [] \<or> (\<exists>e. scan_exponent r = Some (e, []))"
    by (auto simp: match_number_def split: option.splits prod.splits)
  then have r_chars: "list_all number_char r" using scan_exponent_chars by auto
  let ?d = "dropWhile is_digit s"
  have s: "s = takeWhile is_digit s @ ?d" by simp
  have td: "list_all number_char (takeWhile is_digit t)" for t
    by (rule digits_number_chars) simp
  have "list_all number_char s \<and> s \<noteq> [] \<and> (is_digit (hd s) \<or> hd s = 46)"
  proof (cases ?d)
    case Nil
    with r have "s \<noteq> []" by (auto simp: scan_mantissa_def)
    moreover from Nil have "all_digits s" by (simp add: all_digits_def list_all_iff dropWhile_eq_Nil_conv)
    ultimately show ?thesis by (cases s) (auto simp: digits_number_chars all_digits_def number_char_def)
  next
    case (Cons c d)
    have hd: "s \<noteq> [] \<and> (is_digit (hd s) \<or> hd s = c)" using Cons by (cases s) (auto split: if_splits)
    show ?thesis
    proof (cases "c = 46 \<and> (takeWhile is_digit s \<noteq> [] \<or> takeWhile is_digit d \<noteq> [])")
      case True
      with r Cons have "r = dropWhile is_digit d" by (auto simp: scan_mantissa_def Let_def)
      then have eq: "s = takeWhile is_digit s @ c # takeWhile is_digit d @ r" using s Cons by simp
      have "number_char c" using True by (simp add: number_char_def)
      with td[of s] td[of d] r_chars
      have "list_all number_char (takeWhile is_digit s @ c # takeWhile is_digit d @ r)" by simp
      then have "list_all number_char s" by (rule ssubst[where P = "list_all number_char", OF eq])
      with hd True show ?thesis by auto
    next
      case False
      with r Cons have f: "takeWhile is_digit s \<noteq> []" "r = ?d"
        by (auto simp: scan_mantissa_def Let_def split: if_splits)
      then have "is_digit (hd s)" by (cases s) (auto split: if_splits)
      moreover have "list_all number_char s"
        by (rule ssubst[where P = "list_all number_char", OF s]) (use f(2) td[of s] r_chars in \<open>simp del: takeWhile_dropWhile_id\<close>)
      ultimately show ?thesis using hd by simp
    qed
  qed
  then show "list_all number_char s" "s \<noteq> []" "is_digit (hd s) \<or> hd s = 46" by auto
qed

lemma js_number_unsigned:
  assumes "parse_unsigned s = Some v"
  shows "js_number s = to_jsnum False v" and "trim s = s"
proof -
  note c = parse_unsigned_chars[OF assms]
  have "\<not> is_space d" if "d \<in> set s" for d
    using c(1) that by (auto simp: list_all_iff number_char_def char_class_defs)
  then show t: "trim s = s" using c(2) by (intro trim_id) auto
  obtain a r where s: "s = a # r" using c(2) by (cases s) auto
  have "a \<noteq> 43" "a \<noteq> 45" using c(3) s by (auto simp: is_digit_def)
  moreover have "r = [] \<or> hd r \<notin> {120, 88, 111, 79, 98, 66}"
    using c(1) s by (cases r) (auto simp: number_char_def is_digit_def)
  moreover have "s \<noteq> js ''Infinity''"
    using c(3) s by (auto simp: is_digit_def js_eval)
  ultimately show "js_number s = to_jsnum False v"
    using t s assms by (auto simp: js_number_def Let_def unsigned_number_def number_of_text_def)
qed

lemma parse_shown_number:
  assumes "nonneg x" and "wf_num x"
  shows "\<exists>y. parseNonNegativeNumber (num_to_string x) = Some y \<and> num_eq y x"
proof -
  have *: "\<exists>y. parseNonNegativeNumber (num_to_string (Fin q)) = Some y \<and> num_eq y (Fin q)"
    if "representable q" "0 \<le> q" for q
  proof -
    from number_roundtrip[OF that] obtain v where
      v: "parse_unsigned (num_to_string (Fin q)) = Some v" "to_jsnum False v = Fin q"
      by (auto simp: number_of_text_def)
    with js_number_unsigned[OF v(1)] that show ?thesis
      by (auto simp: parseNonNegativeNumber_def num_le_def num_lt_def)
  qed
  show ?thesis
  proof (cases x)
    case (Fin q)
    with assms * show ?thesis by (auto simp: nonneg_def)
  next
    case NegZero
    have "num_to_string NegZero = num_to_string (Fin 0)" by (simp add: num_to_string_def)
    moreover obtain y where "parseNonNegativeNumber (num_to_string (Fin 0)) = Some y" "num_eq y (Fin 0)"
      using *[OF representable_zero order_refl] by (elim exE conjE)
    moreover have "num_eq y NegZero = num_eq y (Fin 0)" by (cases y) (simp_all add: num_eq_def)
    ultimately show ?thesis unfolding NegZero by (intro exI[of _ y]) (simp only: simp_thms)
  qed (use assms in \<open>auto simp: nonneg_def\<close>)
qed

section \<open>Conditions write back their span\<close>

lemma inside_postorder:
  assumes "wf_node len n" and "m \<in> set (postorder n)"
  shows "inside m n" and "wf_node len m"
  using postorder_bounds[OF assms] wf_node_span[of len m] by (auto simp: inside_def)

lemma inside_child:
  assumes "wf_node len n" and "c \<in> set (children n)"
  shows "inside c n" and "wf_node len c"
  using inside_postorder[OF assms(1) child_in_postorder[OF assms(2)]] by auto

lemma flatten_in_postorder: "m \<in> set (flattenBinary n op) \<Longrightarrow> m \<in> set (postorder n)"
  by (induction n op rule: flattenBinary.induct) (auto split: if_splits)

lemma inside_trans: "inside a b \<Longrightarrow> inside b c \<Longrightarrow> inside a c"
  by (auto simp: inside_def)

lemma all_some_map:
  "all_some (map f xs) = Some ys \<Longrightarrow> length ys = length xs \<and> (\<forall>i < length xs. f (xs ! i) = Some (ys ! i))"
proof (induction xs arbitrary: ys)
  case (Cons x xs)
  then obtain y zs where "f x = Some y" "all_some (map f xs) = Some zs" "ys = y # zs"
    by (cases "f x") auto
  with Cons.IH[of zs] show ?case by (auto simp: nth_Cons split: nat.splits)
qed simp

lemma kept_literal_same:
  assumes "wf_node len (Lit (LNum x) b i j)"
  shows "kept_literal source (Lit (LNum x) b i j) (parseNonNegativeNumber (num_to_string x)) t =
    span_text source (Lit (LNum x) b i j)"
proof -
  have "nonneg x" "wf_num x" using assms by (auto elim!: wf_node.cases simp: node_ok_def)
  from parse_shown_number[OF this] show ?thesis
    by (auto simp: kept_literal_def literal_is_def span_text_def)
qed

lemma read_comparison_writes:
  assumes read: "read_comparison n = Some vc" and wf: "wf_node (slen source) n"
  shows "vc_origin vc = Some n \<and> fst (writeVisualCondition h vc source) = span_text source n"
proof -
  obtain op l x b i j s e where n: "n = Binary op l (Lit (LNum x) b i j) s e"
    using read by (auto simp: read_comparison_def split: node.splits literal.splits)
  let ?r = "Lit (LNum x) b i j"
  from n read obtain probe zone where
    vc: "vc = VComparison (node_id ''condition-'' n) (Some n) probe zone op (num_to_string x)"
    and l: "(\<exists>i j. l = Var probe i j) \<or>
      (\<exists>b i j as i' j'. l = Call probe (Lit (LStr zone) b i j # as) i' j')"
    by (auto simp: read_comparison_def split: node.splits literal.splits list.splits if_splits)
  have "inside l n" "inside ?r n" "wf_node (slen source) ?r"
    using inside_child[OF wf, of l] inside_child[OF wf, of ?r] n by auto
  moreover have "kept_probe source l probe zone = span_text source l"
    using l by (auto simp: kept_probe_def span_text_def)
  moreover note kept_literal_same[OF \<open>wf_node (slen source) ?r\<close>, of source "num_to_string x"]
  moreover have "0 \<le> nstart n" using wf_node_span[OF wf] by simp
  ultimately have "patchSource source n [(l, kept_probe source l probe zone),
      (?r, kept_literal source ?r (parseNonNegativeNumber (num_to_string x)) (num_to_string x))] =
      span_text source n"
    by (intro patchSource_same) auto
  then show ?thesis using vc n by (simp add: write_comparison_def Let_def)
qed

lemma write_group_same:
  assumes wf: "wf_node (slen source) n" and n: "n = Binary op a b i j"
    and kids: "length vs = length (flattenBinary n op)"
    and each: "\<And>k. k < length vs \<Longrightarrow> vc_origin (vs ! k) = Some (flattenBinary n op ! k) \<and>
      ts ! k = span_text source (flattenBinary n op ! k)" and ts: "length ts = length vs"
  shows "write_group source (Some n) op vs ts = span_text source n"
proof -
  let ?fs = "flattenBinary n op"
  have "map vc_origin vs = map Some ?fs" using kids each by (intro nth_equalityI) auto
  moreover have "patchSource source n (zip ?fs ts) = span_text source n"
  proof (rule patchSource_same)
    fix m t assume "(m, t) \<in> set (zip ?fs ts)"
    then obtain k where "k < length ?fs" "m = ?fs ! k" "t = ts ! k" by (auto simp: set_zip)
    with kids each inside_postorder(1)[OF wf flatten_in_postorder[of m n op]]
    show "inside m n \<and> t = span_text source m" by auto
  qed (use wf_node_span[OF wf] in simp)
  ultimately show ?thesis using n by (simp add: write_group_def)
qed

lemma readVisualCondition_writes:
  "readVisualCondition n = Some vc \<Longrightarrow> wf_node (slen source) n \<Longrightarrow>
   vc_origin vc = Some n \<and> fst (writeVisualCondition h vc source) = span_text source n"
proof (induction n arbitrary: vc rule: readVisualCondition.induct)
  case (1 n)
  have group: "vc_origin vc = Some n \<and> fst (writeVisualCondition h vc source) = span_text source n"
    if n: "n = Binary op a b i j" and op: "op = js ''&&'' \<or> op = js ''||''"
      and IH: "\<And>m vc. m \<in> set (flattenBinary n op) \<Longrightarrow> readVisualCondition m = Some vc \<Longrightarrow>
        wf_node (slen source) m \<Longrightarrow>
        vc_origin vc = Some m \<and> fst (writeVisualCondition h vc source) = span_text source m"
    for op a b i j
  proof -
    from 1(4) n op obtain vs where vs: "all_some (map readVisualCondition (flattenBinary n op)) = Some vs"
      and vc: "vc = (if op = js ''&&'' then VAll else VAny) (node_id ''condition-'' n) (Some n) vs"
      by (subst (asm) readVisualCondition.simps) auto
    note as = all_some_map[OF vs]
    let ?ts = "map (\<lambda>c. fst (writeVisualCondition h c source)) vs"
    have "vc_origin (vs ! k) = Some (flattenBinary n op ! k) \<and> ?ts ! k = span_text source (flattenBinary n op ! k)"
      if "k < length vs" for k
      using that as IH[of "flattenBinary n op ! k" "vs ! k"]
        inside_postorder(2)[OF 1(5) flatten_in_postorder[of "flattenBinary n op ! k" n op]]
      by simp
    then have "write_group source (Some n) op vs ?ts = span_text source n"
      using as by (intro write_group_same[OF 1(5) n]) auto
    with vc op show ?thesis by (auto simp: Let_def comp_def)
  qed
  show ?case
  proof (cases n)
    case (Unary op a i j)
    with 1(4) obtain v where v: "op = js ''!''" "readVisualCondition a = Some v"
      "vc = VNot (node_id ''condition-'' n) (Some n) v"
      by (subst (asm) readVisualCondition.simps) (auto split: if_splits)
    have a: "inside a n" "wf_node (slen source) a" using inside_child[OF 1(5), of a] Unary by auto
    have "vc_origin v = Some a \<and> fst (writeVisualCondition h v source) = span_text source a"
      using 1(1)[OF Unary v(1,2) a(2)] .
    moreover have "patchSource source n [(a, span_text source a)] = span_text source n"
      using a wf_node_span[OF 1(5)] by (intro patchSource_same) auto
    ultimately show ?thesis using v Unary by (auto simp: Let_def split_beta write_not_def)
  next
    case (Binary op a b i j)
    show ?thesis
    proof (cases "op = js ''&&'' \<or> op = js ''||''")
      case True
      with 1(2,3)[OF Binary] group[OF Binary True] show ?thesis by blast
    next
      case False
      with 1(4) Binary have "read_comparison n = Some vc"
        by (subst (asm) readVisualCondition.simps) auto
      from read_comparison_writes[OF this 1(5)] show ?thesis .
    qed
  qed (use 1(4) in \<open>simp_all add: readVisualCondition.simps\<close>)
qed

section \<open>Prices write back their span\<close>

lemma read_prices_append:
  "read_prices ts ps = Some qs \<Longrightarrow> \<exists>rs. qs = ps @ rs \<and> map read_price ts = map Some rs"
proof (induction ts ps rule: read_prices.induct)
  case (2 t ts prices)
  then obtain p where p: "read_price t = Some p" "read_prices ts (prices @ [p]) = Some qs"
    by (auto split: option.splits if_splits)
  with 2 obtain rs where "qs = (prices @ [p]) @ rs" "map read_price ts = map Some rs"
    by (auto split: option.splits if_splits)
  with p show ?case by (intro exI[of _ "p # rs"]) auto
qed simp

lemma price_patch_same:
  assumes "read_price t = Some p" and "wf_node (slen source) t"
  obtains m where "price_patch source p = Some (m, span_text source m)" and "inside m t"
    and "vp_origin p = Some t"
proof -
  obtain v i j x b i' j' s e where t: "t = Binary (js ''*'') (Var v i j) (Lit (LNum x) b i' j') s e"
    "p = \<lparr>vp_variable = v, vp_value = num_to_string x, vp_origin = Some t\<rparr>"
    using assms(1) by (auto simp: read_price_def split: node.splits literal.splits if_splits)
  let ?m = "Lit (LNum x) b i' j'"
  have "inside ?m t" "wf_node (slen source) ?m" using inside_child[OF assms(2), of ?m] t by auto
  with that[of ?m] t kept_literal_same[of "slen source" x b i' j' source "num_to_string x"]
  show thesis by (simp add: price_patch_def)
qed

lemma write_tokens_same:
  assumes wf: "wf_node (slen source) n" and n: "n = Call f (Lit (LStr label) b i j # body # r) s e"
    and f: "f = js ''tier''"
    and read: "read_prices (flattenBinary body (js ''+'')) [] = Some ps"
  shows "write_tokens source (Some n) label ps = span_text source n"
proof -
  let ?fs = "flattenBinary body (js ''+'')"
  let ?l = "Lit (LStr label) b i j"
  from read_prices_append[OF read] have rs: "map read_price ?fs = map Some ps" by auto
  have body: "inside body n" "wf_node (slen source) body" "inside ?l n"
    using inside_child[OF wf, of body] inside_child[OF wf, of ?l] n by auto
  have each: "\<exists>m. price_patch source p = Some (m, span_text source m) \<and> inside m n \<and>
      vp_origin p = Some (?fs ! k)" if "k < length ps" "p = ps ! k" for k p
  proof -
    have k: "k < length ?fs" "read_price (?fs ! k) = Some p"
      using rs that by (metis length_map, metis length_map nth_map)
    then have "?fs ! k \<in> set (postorder body)"
      using flatten_in_postorder[of "?fs ! k" body "js ''+''"] by simp
    from inside_postorder[OF body(2) this] have "inside (?fs ! k) n" "wf_node (slen source) (?fs ! k)"
      using body(1) by (auto intro: inside_trans)
    with price_patch_same[OF k(2)] show ?thesis by (metis inside_trans)
  qed
  have "map vp_origin ps = map Some ?fs"
    using each rs by (intro nth_equalityI) (metis length_map, metis length_map nth_map)
  moreover have "patchSource source n ((?l, kept_label source ?l label) #
      concat (map (\<lambda>p. case price_patch source p of Some q \<Rightarrow> [q] | None \<Rightarrow> []) ps)) = span_text source n"
  proof (rule patchSource_same)
    fix m t
    assume "(m, t) \<in> set ((?l, kept_label source ?l label) #
      concat (map (\<lambda>p. case price_patch source p of Some q \<Rightarrow> [q] | None \<Rightarrow> []) ps))"
    then consider "m = ?l" "t = kept_label source ?l label"
      | p where "p \<in> set ps" "price_patch source p = Some (m, t)"
      by (auto split: option.splits)
    then show "inside m n \<and> t = span_text source m"
    proof cases
      case 1
      with body show ?thesis by (simp add: kept_label_def span_text_def)
    next
      case 2
      then obtain k where "k < length ps" "p = ps ! k" by (metis in_set_conv_nth)
      from each[OF this] 2 show ?thesis by auto
    qed
  qed (use wf_node_span[OF wf] in simp)
  ultimately show ?thesis using n f by (simp add: write_tokens_def Let_def)
qed

lemma write_fixed_same:
  assumes wf: "wf_node (slen source) n"
    and n: "n = Call (js ''tier'') (Lit (LStr label) b i j # body # r) s e"
    and body: "body = Call (js ''fixed'') (Lit (LNum x) b' i' j' # r') s' e'"
  shows "write_fixed source (Some n) label (num_to_string x) = span_text source n"
proof -
  let ?l = "Lit (LStr label) b i j" and ?a = "Lit (LNum x) b' i' j'"
  have c: "inside body n" "wf_node (slen source) body" "inside ?l n"
    using inside_child[OF wf, of body] inside_child[OF wf, of ?l] n by auto
  have a: "inside ?a body" "wf_node (slen source) ?a" using inside_child[OF c(2), of ?a] body by auto
  have "patchSource source body [(?a, kept_literal source ?a (parseNonNegativeNumber (num_to_string x))
      (num_to_string x))] = span_text source body"
    using a wf_node_span[OF c(2)] kept_literal_same[OF a(2)] by (intro patchSource_same) auto
  moreover have "patchSource source n [(?l, kept_label source ?l label), (body, span_text source body)] =
      span_text source n"
    using c wf_node_span[OF wf]
    by (intro patchSource_same) (auto simp: kept_label_def span_text_def)
  ultimately show ?thesis using n body by (simp add: write_fixed_def Let_def)
qed

text \<open>A fixed price of a validated tree is a number literal.\<close>

definition mentions_fixed :: "node \<Rightarrow> bool" where
  "mentions_fixed n \<longleftrightarrow> (\<exists>as i j. Call (js ''fixed'') as i j \<in> set (postorder n))"

lemma read_tier_writes:
  assumes read: "read_tier n = Some vp" and wf: "wf_node (slen source) n"
    and fixed: "mentions_fixed n \<Longrightarrow> validateFixedPricingTree rules n = Inr ()"
  shows "fst (writeVisualPricing h vp source) = span_text source n"
proof -
  obtain label b i j body r s e where n: "n = Call (js ''tier'') (Lit (LStr label) b i j # body # r) s e"
    using read by (auto simp: read_tier_def split: node.splits list.splits literal.splits if_splits)
  show ?thesis
  proof (cases "\<exists>l b i j r s e. body = Call (js ''fixed'') (Lit l b i j # r) s e")
    case True
    then obtain l b' i' j' r' s' e' where body: "body = Call (js ''fixed'') (Lit l b' i' j' # r') s' e'"
      by auto
    have "mentions_fixed n" using n body by (auto simp: mentions_fixed_def)
    with fixed n body have "fixed_amount_ok (Lit l b' i' j')"
      by (auto simp: validate_tier_def rsimps split: if_splits)
    then obtain x where l: "l = LNum x" by (auto simp: fixed_amount_ok_def split: literal.splits)
    have "vp = VTier (node_id ''pricing-'' n) (Some n) label [] URequest (num_to_string x)"
      using read n body l by (simp add: read_tier_def literal_text_def)
    with write_fixed_same[OF wf n body[unfolded l]] show ?thesis by simp
  next
    case False
    with read n obtain ps where "read_prices (flattenBinary body (js ''+'')) [] = Some ps"
      "vp = VTier (node_id ''pricing-'' n) (Some n) label ps UToken []"
      by (auto simp: read_tier_def split: node.splits list.splits if_splits)
    with write_tokens_same[OF wf n] show ?thesis by simp
  qed
qed

lemma readVisualPricing_writes:
  "readVisualPricing n = Some vp \<Longrightarrow> wf_node (slen source) n \<Longrightarrow>
   (mentions_fixed n \<Longrightarrow> validateFixedPricingTree rules n = Inr ()) \<Longrightarrow>
   fst (writeVisualPricing h vp source) = span_text source n"
proof (induction n arbitrary: vp rule: readVisualPricing.induct)
  case (1 c a b i j)
  let ?n = "Cond c a b i j"
  obtain vc va vb where v: "readVisualCondition c = Some vc" "readVisualPricing a = Some va"
    "readVisualPricing b = Some vb" "vp = VBranch (node_id ''pricing-'' ?n) (Some ?n) vc va vb"
    using 1(3) by (auto split: option.splits)
  have kids: "inside c ?n" "inside a ?n" "inside b ?n" "wf_node (slen source) c"
    "wf_node (slen source) a" "wf_node (slen source) b"
    using inside_child[OF 1(4)] by auto
  have valid: "validateFixedPricingTree rules a = Inr () \<and> validateFixedPricingTree rules b = Inr ()"
    if "mentions_fixed a \<or> mentions_fixed b"
  proof -
    from that have "mentions_fixed ?n" by (auto simp: mentions_fixed_def)
    from 1(5)[OF this] show ?thesis by (auto simp: rsimps split: if_splits)
  qed
  then have ya: "fst (writeVisualPricing h va source) = span_text source a"
    using 1(1)[OF v(2) kids(5)] by blast
  from valid have yb: "fst (writeVisualPricing h vb source) = span_text source b"
    using 1(2)[OF v(3) kids(6)] by blast
  have yc: "fst (writeVisualCondition h vc source) = span_text source c"
    using readVisualCondition_writes[OF v(1) kids(4)] by blast
  have "patchSource source ?n [(c, span_text source c), (a, span_text source a), (b, span_text source b)] =
      span_text source ?n"
    using kids wf_node_span[OF 1(4)] by (intro patchSource_same) auto
  with v ya yb yc show ?case by (simp add: split_beta Let_def)
qed (auto intro!: read_tier_writes[where rules = rules] simp del: validateFixedPricingTree.simps)

section \<open>Documents\<close>

lemma whole_source:
  assumes "0 \<le> nstart n" "nstart n \<le> nend n" "nend n \<le> slen source"
  shows "itake (nstart n) source @ span_text source n @ idrop (nend n) source = source"
proof -
  have "idrop (nend n) source = slice source (nend n) (slen source)"
    by (simp add: slice_alt idrop_drop slen_length)
  moreover have "itake (nstart n) source = slice source 0 (nstart n)" by (simp add: slice_def)
  ultimately show ?thesis
    using slice_append_slice[of 0 "nstart n" "nend n" source]
      slice_append_slice[of 0 "nend n" "slen source" source] assms
    by (simp add: span_text_def append_assoc[symmetric] del: append_assoc)
qed

lemma unedited_body:
  assumes "compile_result source = Ready c" and "readVisualPricing (cast c) = Some tree"
  shows "fst (writeVisualPricing h tree source) = span_text source (cast c)"
    and "wf_node (slen source) (cast c)"
proof -
  obtain d where d: "expressionDependencies (cast c) = Inr d" "cfunctions c = dep_functions d"
    "js ''fixed'' \<in> set (cfunctions c) \<Longrightarrow> validateFixedPricingTree (crules c) (cast c) = Inr ()"
    "wf_node (slen source) (cast c)"
    by (rule compile_ready[OF assms(1)]) (rule that)
  have "validateFixedPricingTree (crules c) (cast c) = Inr ()" if "mentions_fixed (cast c)"
    using that d dependencies_sets(2)[OF d(1)] by (auto simp: mentions_fixed_def)
  with readVisualPricing_writes[OF assms(2) d(4)]
  show "fst (writeVisualPricing h tree source) = span_text source (cast c)" by blast
  show "wf_node (slen source) (cast c)" by (rule d(4))
qed

lemma serialize_unedited:
  assumes cache: "cache_ok cache" and c: "compile_result source = Ready c"
    and tree: "readVisualPricing (cast c) = Some tree"
  shows "fst (serializeVisualBillingDocument h \<lparr>vd_source = source, vd_root = tree\<rparr> cache) =
    (if snd (writeVisualPricing h tree source) = [] then SerOk source
     else SerIssues (snd (writeVisualPricing h tree source)))"
    and "cache_ok (snd (serializeVisualBillingDocument h \<lparr>vd_source = source, vd_root = tree\<rparr> cache))"
proof -
  note body = unedited_body(1)[OF c tree, of h] unedited_body(2)[OF c tree]
  obtain cache1 where c1: "compileBillingExpression source cache = (Ready c, cache1)" "cache_ok cache1"
    using compile_with_cache[OF cache] c by metis
  obtain cache2 where c2: "compileBillingExpression source cache1 = (Ready c, cache2)" "cache_ok cache2"
    using compile_with_cache[OF c1(2)] c by metis
  have whole: "itake (nstart (cast c)) source @ span_text source (cast c) @ idrop (nend (cast c)) source = source"
    using whole_source wf_node_span[OF body(2)] by simp
  obtain t ws where w: "writeVisualPricing h tree source = (t, ws)" by (cases "writeVisualPricing h tree source")
  with body(1) have "t = span_text source (cast c)" by simp
  with w c1 c2 whole cache
  show "fst (serializeVisualBillingDocument h \<lparr>vd_source = source, vd_root = tree\<rparr> cache) =
      (if snd (writeVisualPricing h tree source) = [] then SerOk source
       else SerIssues (snd (writeVisualPricing h tree source)))"
    "cache_ok (snd (serializeVisualBillingDocument h \<lparr>vd_source = source, vd_root = tree\<rparr> cache))"
    by (simp_all add: serializeVisualBillingDocument_def Let_def)
qed

lemma parse_visual_cases:
  assumes cache: "cache_ok cache" and p: "parseVisualBillingDocument h source cache = (Some doc, cache')"
  obtains c tree where "compile_result source = Ready c" and "readVisualPricing (cast c) = Some tree"
    and "doc = \<lparr>vd_source = source, vd_root = tree\<rparr>" and "snd (writeVisualPricing h tree source) = []"
    and "cache_ok cache'"
proof -
  obtain cache1 where c1: "compileBillingExpression source cache = (compile_result source, cache1)"
    "cache_ok cache1" by (rule compile_with_cache[OF cache])
  with p obtain c where c: "compile_result source = Ready c"
    by (auto simp: parseVisualBillingDocument_def split: compilation.splits)
  with p c1 obtain tree where tree: "readVisualPricing (cast c) = Some tree"
    by (auto simp: parseVisualBillingDocument_def split: option.splits)
  let ?doc = "\<lparr>vd_source = source, vd_root = tree\<rparr>"
  obtain r cache2 where r: "serializeVisualBillingDocument h ?doc cache1 = (r, cache2)"
    by (cases "serializeVisualBillingDocument h ?doc cache1")
  with p c1 c tree have "doc = ?doc" "cache' = cache2" "\<exists>t. r = SerOk t"
    by (auto simp: parseVisualBillingDocument_def Let_def split: vserialization.splits)
  with serialize_unedited[OF c1(2) c tree, of h] r c tree that show thesis
    by (auto split: if_splits)
qed

end
