(* ===== verification/Language.thy ===== *)
theory Language
  imports Structure TypeFacts VisualFacts
begin

text \<open>
  What the billing-expression language promises its clients: the traversal, the compile cache, the
  shape of parsed trees, the meaning of static types, the range of an evaluation's result and the
  losslessness of the visual editor.
\<close>

section \<open>Parsing and compiling\<close>

text \<open>
  C32. The bounded stack loop of \<open>visitExpression\<close> is a postorder walk: it returns a state exactly
  when the tree is at most 256 levels deep and the visitor accepts every node in postorder, and
  the state is the one of that walk.
\<close>

theorem visit_is_postorder:
  "visitExpression n v s = Inr s' \<longleftrightarrow> height n \<le> 256 \<and> run_visitor v (postorder n) s = Inr s'"
  by (rule visitExpression_Inr_iff)

text \<open>
  C8. A parsed tree is well formed: every node carries a non-empty span inside the source, the
  spans of its children lie inside it one after the other, names and arities are those of the
  language, and no two nodes of the tree are equal.
\<close>

theorem parsed_tree_well_formed:
  assumes "parse source = Inr n"
  shows "wf_node (slen source) n \<and> distinct (postorder n)"
  using parse_wf_node[OF assms] distinct_postorder by blast

theorem parsed_tree_well_formed_witness:
  "\<exists>n. parse (js ''p > 5 ? tier('a', p * 2) : tier('b', c)'') = Inr n \<and> distinct (postorder n)"
proof -
  let ?s = "js ''p > 5 ? tier('a', p * 2) : tier('b', c)''"
  have "\<not> isl (parse ?s)" by code_simp
  then obtain n where "parse ?s = Inr n" by (cases "parse ?s") auto
  with parsed_tree_well_formed[OF this] show ?thesis by blast
qed

text \<open>
  C7. The compile cache cannot be observed: a sequence of compilations answers each source as a
  compilation without a cache does, and the cache holds at most 128 entries, one per source.
\<close>

theorem compile_cache_transparent:
  "fst (run_calls compileBillingExpression sources []) = map compile_result sources \<and>
   slen (snd (run_calls compileBillingExpression sources [])) \<le> 128 \<and>
   distinct (orec_keys (snd (run_calls compileBillingExpression sources [])))"
  using compile_memo.run_answers[of "[]" sources] compile_memo.run_valid[of "[]" sources]
  by (simp add: cache_ok_def orec_keys_def)

text \<open>
  C4. Static types are sound but for sums of untyped operands. The table of the type check gives
  every node of a compiled expression a type that follows from the types of its children, and
  whenever a node evaluates to a value, the value has that type: a number for number, a string for
  string, a boolean for boolean. The one exception is a node of type number that is built by \<open>+\<close>
  from operands without a static type, which may be a string.
\<close>

theorem compiled_types_sound:
  assumes "compile_result source = Ready c"
  shows "\<exists>T. visitExpression (cast c) type_visitor [] = Inr T \<and>
    (\<forall>m \<in> set (postorder (cast c)). \<exists>t. map_of T m = Some t \<and> type_of_node T m = Inr t \<and>
      (\<forall>e d s r. evaluate e d m s = Inr r \<longrightarrow> has_type (rv_value (fst r)) t \<or>
         t = TNumber \<and> text_sum T m \<and> has_type (rv_value (fst r)) TString))"
proof -
  obtain d where c: "checkExpressionTypes (cast c) = Inr ()" "wf_node (slen source) (cast c)"
    by (rule compile_ready[OF assms]) (rule that)
  then obtain T where T: "visitExpression (cast c) type_visitor [] = Inr T" "typed T (cast c)"
    by (rule check_typed)
  have sub: "typed T m" if "m \<in> set (postorder (cast c))" for m
    using T(2) that postorder_trans by (auto simp: typed_def)
  have "\<exists>t. map_of T m = Some t \<and> type_of_node T m = Inr t \<and>
      (\<forall>e d s r. evaluate e d m s = Inr r \<longrightarrow> fits T m (rv_value (fst r)) t)"
    if "m \<in> set (postorder (cast c))" for m
    using typed_self[OF sub[OF that]] evaluate_type[OF _ sub[OF that]] by blast
  with T(1) show ?thesis unfolding fits_def by blast
qed

definition demo_host :: host where
  "demo_host = \<lparr>lower_case = (\<lambda>t. t), zone_format = (\<lambda>z t. None), current_time = Some 0\<rparr>"

definition demo_tiers :: jsstr where
  "demo_tiers = js ''p > 5 ? tier('a', p * 2 + c * 4) : tier('b', p * 3)''"

definition demo_context :: simulation_context where
  "demo_context = empty_context\<lparr>ctx_tokens := Some [(js ''p'', VNum (Fin 10)), (js ''c'', VNum (Fin 7))]\<rparr>"

definition demo_fixed :: jsstr where
  "demo_fixed = js ''c > 5 ? tier('a', fixed(3)) : tier('b', p * 3)''"

lemma demo_evaluates:
  obtains r where "fst (evaluateBillingExpression demo_host (Inl demo_tiers) demo_context []) = EvalSuccess r"
    and "ev_matchedTier r = js ''a''"
proof -
  have "case fst (evaluateBillingExpression demo_host (Inl demo_tiers) demo_context []) of
      EvalSuccess r \<Rightarrow> ev_matchedTier r = js ''a'' | _ \<Rightarrow> False" by code_simp
  then show thesis using that by (auto split: evaluation_result.splits)
qed

lemma demo_fixed_evaluates:
  obtains c r where "compile_result demo_fixed = Ready c"
    and "evaluate_compiled demo_host (Ready c) demo_context = EvalSuccess r" and "ev_unit r = URequest"
proof -
  have "case compile_result demo_fixed of Failed f \<Rightarrow> False | Ready c \<Rightarrow>
      (case evaluate_compiled demo_host (Ready c) demo_context of EvalSuccess r \<Rightarrow> ev_unit r = URequest | _ \<Rightarrow> False)"
    by code_simp
  then show thesis
    using that by (cases "compile_result demo_fixed"; cases "evaluate_compiled demo_host (compile_result demo_fixed) demo_context")
      auto
qed

lemma demo_compiles: "\<exists>c. compile_result demo_tiers = Ready c"
proof -
  have "case compile_result demo_tiers of Ready c \<Rightarrow> True | _ \<Rightarrow> False" by code_simp
  then show ?thesis by (auto split: compilation.splits)
qed

theorem compiled_types_sound_witness:
  "\<exists>c T. compile_result demo_tiers = Ready c \<and> visitExpression (cast c) type_visitor [] = Inr T"
  using demo_compiles compiled_types_sound by metis

text \<open>The exception occurs: a sum of two request parameters has the type number and is a string here.\<close>

definition text_request :: simulation_context where
  "text_request = empty_context\<lparr>ctx_request := Some
     \<lparr>req_body = VObj [(js ''a'', VStr (js ''x'')), (js ''b'', VStr (js ''y''))], req_headers = None\<rparr>\<rparr>"

lemma untyped_sum_is_text:
  "case compile_result (js ''param('a') + param('b')'') of Failed f \<Rightarrow> False | Ready c \<Rightarrow>
     (case visitExpression (cast c) type_visitor [] of
        Inl err \<Rightarrow> False | Inr T \<Rightarrow> map_of T (cast c) = Some TNumber) \<and>
     (case rbind (new_runtime demo_host c text_request) (\<lambda>(e, s). evaluate e 0 (cast c) s) of
        Inl err \<Rightarrow> False | Inr (v, s) \<Rightarrow> rv_value v = VStr (js ''xy''))"
  by code_simp

section \<open>Evaluation\<close>

text \<open>
  C27. A successful evaluation charges a finite amount that is not negative.
\<close>

theorem evaluation_cost_range:
  assumes "fst (evaluateBillingExpression h expr ctx cache) = EvalSuccess r"
  shows "is_finite (ev_cost r) \<and> \<not> num_lt (ev_cost r) (Fin 0)"
proof -
  from assms obtain c where "evaluate_compiled h c ctx = EvalSuccess r"
    by (auto simp: evaluateBillingExpression_def Let_def split: prod.splits)
  from evaluated_cost[OF this] show ?thesis by blast
qed

theorem evaluation_cost_range_witness:
  "\<exists>r. fst (evaluateBillingExpression demo_host (Inl demo_tiers) demo_context []) = EvalSuccess r \<and>
     ev_matchedTier r = js ''a'' \<and> is_finite (ev_cost r)"
proof -
  obtain r where r: "fst (evaluateBillingExpression demo_host (Inl demo_tiers) demo_context []) = EvalSuccess r"
    "ev_matchedTier r = js ''a''"
    by (rule demo_evaluates)
  with evaluation_cost_range[OF r(1)] show ?thesis by blast
qed

text \<open>
  C26. A successful evaluation bills by the request exactly when it carries a fixed price, and its
  request-rule traces list the rules of the compiled expression, in order, with their conditions
  and multipliers.
\<close>

theorem evaluation_unit_and_rules:
  assumes "evaluate_compiled h (Ready c) ctx = EvalSuccess r"
  shows "(ev_unit r = URequest \<longleftrightarrow> ev_fixedPrice r \<noteq> None) \<and>
    map (\<lambda>t. (trace_cond t, trace_multiplier t)) (ev_requestRules r) =
    map (\<lambda>q. (rule_cond q, rule_multiplier q)) (crules c)"
proof -
  from assms obtain e s v s' where run: "new_runtime h c ctx = Inr (e, s)"
      "evaluate e 0 (cast c) s = Inr (v, s')" "ev_unit r = st_unit s'" "ev_fixedPrice r = st_fixed s'"
      "ev_requestRules r = st_rules s'"
    by (auto simp: evaluate_compiled_def run_compiled_def rsimps split: sum.splits)
  have "unit_inv s" "trace_inv e s" "env_rules e = crules c"
    using run(1) by (auto simp: new_runtime_def rsimps unit_inv_def trace_inv_def)
  with unit_state.evaluation_keeps[OF run(2)] trace_state.evaluation_keeps[OF run(2)] run(3-5)
  show ?thesis by (simp add: unit_inv_def trace_inv_def)
qed

theorem evaluation_unit_and_rules_witness:
  "\<exists>c r. compile_result demo_fixed = Ready c \<and>
     evaluate_compiled demo_host (Ready c) demo_context = EvalSuccess r \<and>
     ev_unit r = URequest \<and> ev_fixedPrice r \<noteq> None"
proof -
  obtain c r where "compile_result demo_fixed = Ready c"
    "evaluate_compiled demo_host (Ready c) demo_context = EvalSuccess r" "ev_unit r = URequest"
    by (rule demo_fixed_evaluates)
  with evaluation_unit_and_rules[of demo_host c demo_context r] show ?thesis by blast
qed

section \<open>The visual editor\<close>

text \<open>
  C1. The visual editor is lossless: a document it accepts is written back, when nothing was
  edited, as the source it was read from, whatever else was compiled meanwhile.
\<close>

theorem visual_round_trip:
  assumes "parseVisualBillingDocument h source cache = (Some doc, cache')" and "cache_ok cache"
    and "cache_ok cache''"
  shows "fst (serializeVisualBillingDocument h doc cache'') = SerOk source"
proof -
  obtain c tree where "compile_result source = Ready c" "readVisualPricing (cast c) = Some tree"
    "doc = \<lparr>vd_source = source, vd_root = tree\<rparr>" "snd (writeVisualPricing h tree source) = []"
    by (rule parse_visual_cases[OF assms(2,1)]) (rule that)
  with serialize_unedited(1)[OF assms(3)] show ?thesis by simp
qed

theorem visual_round_trip_witness:
  "\<exists>doc cache. parseVisualBillingDocument demo_host demo_tiers [] = (Some doc, cache) \<and>
     fst (serializeVisualBillingDocument demo_host doc []) = SerOk demo_tiers"
proof -
  have "case parseVisualBillingDocument demo_host demo_tiers [] of (Some d, _) \<Rightarrow> True | _ \<Rightarrow> False" by code_simp
  then obtain doc cache where "parseVisualBillingDocument demo_host demo_tiers [] = (Some doc, cache)"
    by (auto split: prod.splits option.splits)
  with visual_round_trip[OF this] show ?thesis by simp
qed

section \<open>Source text\<close>

text \<open>
  C33. Splitting an expression at an operator outside brackets and quotes loses nothing but the
  operators, the white space around the pieces and empty pieces; an expression with a conditional
  outside brackets is left whole.
\<close>

theorem split_loses_nothing:
  assumes "operator \<noteq> []"
  shows "\<exists>ps. splitExpressionAtTopLevel source operator = Some ps \<and>
    (ps = [trim source] \<or>
     (\<exists>segs. join operator segs = source \<and> ps = filter (\<lambda>p. p \<noteq> []) (map trim segs)))"
proof -
  obtain ps where "splitExpressionAtTopLevel source operator = Some ps"
    using split_returns_iff[of operator] assms by blast
  with split_top_level_pieces[OF this] show ?thesis by blast
qed

theorem split_loses_nothing_witness:
  "\<exists>segs. join (js ''*'') segs = js ''(a * b) * [c * d] * e'' \<and>
     [js ''(a * b)'', js ''[c * d]'' , js ''e''] = filter (\<lambda>p. p \<noteq> []) (map trim segs)"
proof -
  have "splitExpressionAtTopLevel (js ''(a * b) * [c * d] * e'') (js ''*'') =
    Some [js ''(a * b)'', js ''[c * d]'', js ''e'']" by code_simp
  with split_loses_nothing[of "js ''*''" "js ''(a * b) * [c * d] * e''"] show ?thesis by simp
qed

text \<open>
  C34. The splitting loop ends on every source exactly when its operator is not empty. It moves on
  by the length of the operator it finds, and with an empty operator it never leaves a character
  outside brackets and quotes that is not a bracket.
\<close>

theorem split_returns:
  "(\<forall>source. splitExpressionAtTopLevel source operator \<noteq> None) \<longleftrightarrow> operator \<noteq> []"
  by (rule split_returns_iff)

text \<open>
  C35. Unwrapping takes off exactly the enclosing parentheses: its result is what the text leaves
  when white space and parentheses around a text with matching parentheses and quotes are taken
  off, and it is not itself such a text in parentheses. Parentheses that do not enclose the whole
  text, as in \<open>(a) + (b)\<close>, and parentheses in quotes stay.
\<close>

theorem unwrap_exact:
  "unwrapExpressionParens e = u \<longleftrightarrow> encloses e u \<and> \<not> (\<exists>a. matched a \<and> u = js ''('' @ a @ js '')'')"
  using unwrap_iff[of e u] by (simp add: js_Cons)

end
