(* ===== verification/Regex.thy ===== *)
theory Regex
  imports Prelude
begin

text \<open>
  Regular expressions of the language, as far as the sources use them: classes of code units,
  literals, sequence, alternation, greedy options and repetitions, numbered groups, back
  references and the end anchor. Matching returns every way to match at the front of a text in
  the order in which the backtracking search of the language tries them, so that its first entry
  is the match the language reports. The lemmas characterise the ways to match as a relation.
\<close>

section \<open>Matching\<close>

datatype rx =
    RCls "jschar \<Rightarrow> bool"
  | RLit jsstr
  | RRun "jschar \<Rightarrow> bool"
  | RSeq rx rx
  | RAlt rx rx
  | ROpt rx
  | RStar rx
  | RGroup int rx
  | RBack int
  | REnd

text \<open>The captures of a match, the latest first; a group that took no part is absent.\<close>

type_synonym captures = "(int \<times> jsstr) list"

definition cap :: "int \<Rightarrow> captures \<Rightarrow> jsstr option" where
  "cap n c = map_of c n"

definition cap_text :: "int \<Rightarrow> captures \<Rightarrow> jsstr" where
  "cap_text n c = (case cap n c of Some t \<Rightarrow> t | None \<Rightarrow> [])"

fun strip_prefix :: "jsstr \<Rightarrow> jsstr \<Rightarrow> jsstr option" where
  "strip_prefix [] s = Some s"
| "strip_prefix (p # ps) [] = None"
| "strip_prefix (p # ps) (c # cs) = (if p = c then strip_prefix ps cs else None)"

fun shorter :: "'a list \<Rightarrow> 'a list \<Rightarrow> bool" where
  "shorter xs [] = False"
| "shorter [] (y # ys) = True"
| "shorter (x # xs) (y # ys) = shorter xs ys"

lemma shorter_length: "shorter xs ys \<longleftrightarrow> length xs < length ys"
  by (induction xs ys rule: shorter.induct) auto

text \<open>A greedy run of a class: the matched text and the rest, the longest run first.\<close>

fun runs :: "(jschar \<Rightarrow> bool) \<Rightarrow> jsstr \<Rightarrow> (jsstr \<times> jsstr) list" where
  "runs P [] = [([], [])]"
| "runs P (x # s) = (if P x then map (\<lambda>(t, r). (x # t, r)) (runs P s) @ [([], x # s)] else [([], x # s)])"

text \<open>A greedy repetition; an iteration that matches nothing is not taken.\<close>

function star_loop ::
  "(captures \<Rightarrow> jsstr \<Rightarrow> (jsstr \<times> jsstr \<times> captures) list) \<Rightarrow> captures \<Rightarrow> jsstr \<Rightarrow>
   (jsstr \<times> jsstr \<times> captures) list" where
  "star_loop f c s =
     concat (map (\<lambda>(t, r, c'). if shorter r s
       then map (\<lambda>(t', r', c''). (t @ t', r', c'')) (star_loop f c' r) else []) (f c s)) @ [([], s, c)]"
  by pat_completeness auto
termination star_loop
  by (relation "measure (\<lambda>(f, c, s). length s)") (auto simp: shorter_length)

declare star_loop.simps [simp del]

fun rmatch :: "rx \<Rightarrow> captures \<Rightarrow> jsstr \<Rightarrow> (jsstr \<times> jsstr \<times> captures) list" where
  "rmatch (RCls P) c s = (case s of [] \<Rightarrow> [] | x # r \<Rightarrow> if P x then [([x], r, c)] else [])"
| "rmatch (RLit l) c s = (case strip_prefix l s of Some r \<Rightarrow> [(l, r, c)] | None \<Rightarrow> [])"
| "rmatch (RRun P) c s = map (\<lambda>(t, r). (t, r, c)) (runs P s)"
| "rmatch (RSeq a b) c s =
     concat (map (\<lambda>(t, r, c'). map (\<lambda>(t', r', c''). (t @ t', r', c'')) (rmatch b c' r)) (rmatch a c s))"
| "rmatch (RAlt a b) c s = rmatch a c s @ rmatch b c s"
| "rmatch (ROpt a) c s = rmatch a c s @ [([], s, c)]"
| "rmatch (RStar a) c s = star_loop (rmatch a) c s"
| "rmatch (RGroup n a) c s = map (\<lambda>(t, r, c'). (t, r, (n, t) # c')) (rmatch a c s)"
| "rmatch (RBack n) c s =
     (case strip_prefix (cap_text n c) s of Some r \<Rightarrow> [(cap_text n c, r, c)] | None \<Rightarrow> [])"
| "rmatch REnd c s = (if s = [] then [([], [], c)] else [])"

definition RPlus :: "(jschar \<Rightarrow> bool) \<Rightarrow> rx" where
  "RPlus P = RSeq (RCls P) (RRun P)"

fun RSeqs :: "rx list \<Rightarrow> rx" where
  "RSeqs [] = RLit []"
| "RSeqs [a] = a"
| "RSeqs (a # as) = RSeq a (RSeqs as)"

fun RAlts :: "rx list \<Rightarrow> rx" where
  "RAlts [] = RCls (\<lambda>_. False)"
| "RAlts [a] = a"
| "RAlts (a # as) = RAlt a (RAlts as)"

text \<open>\<open>text.match(/^...$/)\<close> for an expression anchored at both ends.\<close>

definition match_all :: "rx \<Rightarrow> jsstr \<Rightarrow> captures option" where
  "match_all a s = (case rmatch (RSeq a REnd) [] s of [] \<Rightarrow> None | (t, r, c) # _ \<Rightarrow> Some c)"

text \<open>Successive matches of a global expression, each from where the last one ended.\<close>

function exec_all :: "rx \<Rightarrow> jsstr \<Rightarrow> captures list" where
  "exec_all a s =
     (case rmatch a [] s of
        (t, r, c) # _ \<Rightarrow> if shorter r s then c # exec_all a r else []
      | [] \<Rightarrow> (case s of [] \<Rightarrow> [] | x # s' \<Rightarrow> exec_all a s'))"
  by pat_completeness auto
termination exec_all
  by (relation "measure (\<lambda>(a, s). length s)") (auto simp: shorter_length)

declare exec_all.simps [simp del]

text \<open>\<open>text.replaceAll(/.../g, by)\<close> for an expression that never matches the empty text.\<close>

function replace_all :: "rx \<Rightarrow> jsstr \<Rightarrow> jsstr \<Rightarrow> jsstr" where
  "replace_all a by s =
     (case rmatch a [] s of
        (t, r, c) # _ \<Rightarrow> if shorter r s then by @ replace_all a by r else s
      | [] \<Rightarrow> (case s of [] \<Rightarrow> [] | x # s' \<Rightarrow> x # replace_all a by s'))"
  by pat_completeness auto
termination replace_all
  by (relation "measure (\<lambda>(a, b, s). length s)") (auto simp: shorter_length)

declare replace_all.simps [simp del]

text \<open>The classes \<open>.\<close>, \<open>[\d.eE+-]\<close> and \<open>[^"]\<close>.\<close>

definition rx_dot :: "jschar \<Rightarrow> bool" where
  "rx_dot c \<longleftrightarrow> c \<notin> {10, 13, 8232, 8233}"

definition rx_numeric :: "jschar \<Rightarrow> bool" where
  "rx_numeric c \<longleftrightarrow> is_digit c \<or> c \<in> {46, 101, 69, 43, 45}"

definition rx_not_quote :: "jschar \<Rightarrow> bool" where
  "rx_not_quote c \<longleftrightarrow> c \<noteq> 34"

definition rx_words :: "jsstr list \<Rightarrow> rx" where
  "rx_words ws = RAlts (map RLit ws)"

section \<open>The ways to match\<close>

definition matches :: "rx \<Rightarrow> captures \<Rightarrow> jsstr \<Rightarrow> jsstr \<Rightarrow> jsstr \<Rightarrow> captures \<Rightarrow> bool" where
  "matches a c s t r c' \<longleftrightarrow> (t, r, c') \<in> set (rmatch a c s)"

lemma strip_prefix_iff: "strip_prefix l s = Some r \<longleftrightarrow> s = l @ r"
  by (induction l s rule: strip_prefix.induct) auto

lemma set_runs: "(t, r) \<in> set (runs P s) \<longleftrightarrow> s = t @ r \<and> list_all P t"
proof (induction s arbitrary: t)
  case (Cons x s)
  then show ?case by (cases t) auto
qed auto

lemma matches_leaf:
  "matches (RCls P) c s t r c' \<longleftrightarrow> (\<exists>x. P x \<and> t = [x] \<and> s = x # r \<and> c' = c)"
  "matches (RLit l) c s t r c' \<longleftrightarrow> t = l \<and> s = l @ r \<and> c' = c"
  "matches (RRun P) c s t r c' \<longleftrightarrow> list_all P t \<and> s = t @ r \<and> c' = c"
  "matches (RBack n) c s t r c' \<longleftrightarrow> t = cap_text n c \<and> s = t @ r \<and> c' = c"
  "matches REnd c s t r c' \<longleftrightarrow> t = [] \<and> s = [] \<and> r = [] \<and> c' = c"
  by (auto simp: matches_def set_runs strip_prefix_iff[symmetric] split: list.splits option.splits)

lemma matches_comp:
  "matches (RSeq a b) c s t r c' \<longleftrightarrow>
     (\<exists>t1 r1 c1 t2. matches a c s t1 r1 c1 \<and> matches b c1 r1 t2 r c' \<and> t = t1 @ t2)"
  "matches (RAlt a b) c s t r c' \<longleftrightarrow> matches a c s t r c' \<or> matches b c s t r c'"
  "matches (ROpt a) c s t r c' \<longleftrightarrow> matches a c s t r c' \<or> t = [] \<and> r = s \<and> c' = c"
  "matches (RGroup n a) c s t r c' \<longleftrightarrow> (\<exists>c1. matches a c s t r c1 \<and> c' = (n, t) # c1)"
  by (force simp: matches_def)+

lemma matches_plus:
  "matches (RPlus P) c s t r c' \<longleftrightarrow> t \<noteq> [] \<and> list_all P t \<and> s = t @ r \<and> c' = c"
  by (cases t) (auto simp: RPlus_def matches_comp matches_leaf)

lemma matches_words:
  "matches (rx_words ws) c s t r c' \<longleftrightarrow> t \<in> set ws \<and> s = t @ r \<and> c' = c"
proof (induction ws)
  case (Cons w ws)
  then show ?case by (cases ws) (auto simp: rx_words_def matches_leaf matches_comp)
qed (simp add: rx_words_def matches_leaf)

lemma matches_star:
  "matches (RStar a) c s t r c' \<longleftrightarrow> t = [] \<and> r = s \<and> c' = c \<or>
     (\<exists>t1 r1 c1 t2. matches a c s t1 r1 c1 \<and> length r1 < length s \<and>
        matches (RStar a) c1 r1 t2 r c' \<and> t = t1 @ t2)"
  unfolding matches_def rmatch.simps
  by (subst star_loop.simps) (force simp: shorter_length split: if_splits)

lemmas matches_simps = matches_leaf matches_comp matches_plus matches_words

text \<open>Introduction rules: a text that matches in front of a rest.\<close>

definition fits :: "rx \<Rightarrow> captures \<Rightarrow> jsstr \<Rightarrow> jsstr \<Rightarrow> captures \<Rightarrow> bool" where
  "fits a c t r c' \<longleftrightarrow> matches a c (t @ r) t r c'"

named_theorems fits_intros \<open>introduction rules for texts that match\<close>

lemma fits_leaf [fits_intros]:
  "fits (RLit l) c l r c"
  "P x \<Longrightarrow> fits (RCls P) c [x] r c"
  "list_all P t \<Longrightarrow> fits (RRun P) c t r c"
  "t \<noteq> [] \<Longrightarrow> list_all P t \<Longrightarrow> fits (RPlus P) c t r c"
  "t \<in> set ws \<Longrightarrow> fits (rx_words ws) c t r c"
  "t = cap_text n c \<Longrightarrow> fits (RBack n) c t r c"
  by (simp_all add: fits_def matches_simps)

lemma fits_seq [fits_intros]:
  "fits a c t (u @ r) c1 \<Longrightarrow> fits b c1 u r c' \<Longrightarrow> fits (RSeq a b) c (t @ u) r c'"
  by (auto simp: fits_def matches_comp)

lemma fits_group [fits_intros]: "fits a c t r c1 \<Longrightarrow> fits (RGroup n a) c t r ((n, t) # c1)"
  by (auto simp: fits_def matches_comp)

lemma fits_star_Nil: "fits (RStar a) c [] r c"
  unfolding fits_def by (subst matches_star) simp

lemma fits_star_step:
  "fits a c t (u @ r) c1 \<Longrightarrow> t \<noteq> [] \<Longrightarrow> fits (RStar a) c1 u r c' \<Longrightarrow> fits (RStar a) c (t @ u) r c'"
proof -
  assume a: "fits a c t (u @ r) c1" "t \<noteq> []" "fits (RStar a) c1 u r c'"
  then have "matches a c ((t @ u) @ r) t (u @ r) c1 \<and> length (u @ r) < length ((t @ u) @ r) \<and>
      matches (RStar a) c1 (u @ r) u r c' \<and> t @ u = t @ u"
    by (simp add: fits_def)
  then show ?thesis unfolding fits_def by (subst matches_star) blast
qed

text \<open>The captures of the first match, when every way to match has the same captures.\<close>

lemma match_all_None: "match_all a s = None \<longleftrightarrow> (\<forall>t c. \<not> matches a [] s t [] c)"
proof -
  have "match_all a s = None \<longleftrightarrow> (\<forall>t r c. \<not> matches (RSeq a REnd) [] s t r c)"
    unfolding match_all_def matches_def
    by (cases "rmatch (RSeq a REnd) [] s") (auto simp del: rmatch.simps split: prod.splits)
  then show ?thesis by (auto simp: matches_comp matches_leaf)
qed

lemma match_all_Some: "match_all a s = Some c \<Longrightarrow> \<exists>t. matches a [] s t [] c"
proof -
  assume "match_all a s = Some c"
  then have "\<exists>t r. matches (RSeq a REnd) [] s t r c"
    unfolding match_all_def matches_def
    by (cases "rmatch (RSeq a REnd) [] s") (auto simp del: rmatch.simps split: prod.splits)
  then show ?thesis by (auto simp: matches_comp matches_leaf)
qed

lemma match_all_eqI:
  assumes "matches a [] s t [] c" and "\<And>t' c'. matches a [] s t' [] c' \<Longrightarrow> c' = c"
  shows "match_all a s = Some c"
proof (cases "match_all a s")
  case None
  with assms(1) show ?thesis by (auto simp: match_all_None)
next
  case (Some c')
  with match_all_Some[OF this] assms(2) show ?thesis by blast
qed

section \<open>Delimited text\<close>

text \<open>Text without a delimiter up to the delimiter is determined.\<close>

lemma delimited_unique:
  assumes "a @ d # r = b @ d # q" and "d \<notin> set a" and "d \<notin> set b"
  shows "a = b \<and> r = q"
  using assms
proof (induction a arbitrary: b)
  case Nil
  then show ?case by (cases b) auto
next
  case (Cons x a)
  then show ?case by (cases b) auto
qed

lemma run_unique:
  assumes "a @ r = b @ q" and "list_all P a" and "list_all P b"
    and "r = [] \<or> \<not> P (hd r)" and "q = [] \<or> \<not> P (hd q)"
  shows "a = b \<and> r = q"
  using assms
proof (induction a arbitrary: b)
  case Nil
  then show ?case by (cases b; cases r) auto
next
  case (Cons x a)
  then show ?case by (cases b; cases q) auto
qed

end
