(* ===== verification/Json.thy ===== *)
theory Json
  imports Lexer JsValue Regex
begin

text \<open>
  \<open>JSON.parse\<close> and \<open>String(value)\<close> on what it returns. Parsing fails (the language raises a
  \<open>SyntaxError\<close>) exactly outside the JSON grammar. A text quoted by \<open>JSON.stringify\<close> parses to
  itself.
\<close>

section \<open>JSON.parse\<close>

definition json_space :: "jschar \<Rightarrow> bool" where
  "json_space c \<longleftrightarrow> c \<in> {32, 9, 10, 13}"

abbreviation json_ws :: "jsstr \<Rightarrow> jsstr" where
  "json_ws s \<equiv> dropWhile json_space s"

definition json_escapes :: "(jschar, jschar) orec" where
  "json_escapes = [(34, 34), (92, 92), (47, 47), (98, 8), (102, 12), (110, 10), (114, 13), (116, 9)]"

definition cons_char :: "jschar \<Rightarrow> (jsstr \<times> jsstr) option \<Rightarrow> (jsstr \<times> jsstr) option" where
  "cons_char c r = map_option (\<lambda>(t, q). (c # t, q)) r"

text \<open>The characters of a string after its opening quote, and what follows the closing one.\<close>

fun json_chars :: "jsstr \<Rightarrow> (jsstr \<times> jsstr) option" where
  "json_chars [] = None"
| "json_chars (c # r) =
     (if c = 34 then Some ([], r)
      else if c = 92 then
        (case r of
           [] \<Rightarrow> None
         | e # r' \<Rightarrow>
             (case map_of json_escapes e of
                Some d \<Rightarrow> cons_char d (json_chars r')
              | None \<Rightarrow>
                  if e = 117 then
                    (case r' of
                       h1 # h2 # h3 # h4 # r'' \<Rightarrow>
                         if list_all is_hex [h1, h2, h3, h4]
                         then cons_char (parse_hex [h1, h2, h3, h4]) (json_chars r'') else None
                     | _ \<Rightarrow> None)
                  else None))
      else if c < 32 then None
      else cons_char c (json_chars r))"

text \<open>A number: \<open>-?(0|[1-9]\d*)(\.\d+)?([eE][+-]?\d+)?\<close>.\<close>

definition json_number :: "jsstr \<Rightarrow> (jsval \<times> jsstr) option" where
  "json_number s =
     (let neg = (s \<noteq> [] \<and> hd s = 45);
          u = (if neg then tl s else s);
          ip = takeWhile is_digit u;
          ip' = (if ip \<noteq> [] \<and> hd ip = 48 then [48] else ip);
          r = idrop (slen ip') u;
          fp = (case r of [] \<Rightarrow> [] | c # q \<Rightarrow> if c = 46 then takeWhile is_digit q else []);
          r' = (if fp = [] then r else idrop (1 + slen fp) r);
          (e, r'') = (case scan_exponent r' of None \<Rightarrow> (0, r') | Some p \<Rightarrow> p);
          x = to_jsnum False (decimal_value ip' fp e)
      in if ip = [] then None else Some (VNum (if neg then num_neg x else x), r''))"

definition json_word :: "jsstr \<Rightarrow> (jsval \<times> jsstr) option" where
  "json_word s =
     (case strip_prefix (js ''true'') s of Some r \<Rightarrow> Some (VBool True, r) | None \<Rightarrow>
     (case strip_prefix (js ''false'') s of Some r \<Rightarrow> Some (VBool False, r) | None \<Rightarrow>
     (case strip_prefix (js ''null'') s of Some r \<Rightarrow> Some (VNull, r) | None \<Rightarrow> json_number s)))"

text \<open>
  Values, the elements of an array after its bracket or a comma, the members of an object. The
  tests that the rest is shorter hold always; they make the recursion visibly well founded.
\<close>

function (sequential) json_value :: "jsstr \<Rightarrow> (jsval \<times> jsstr) option"
  and json_elems :: "jsstr \<Rightarrow> (jsval list \<times> jsstr) option"
  and json_members :: "jsstr \<Rightarrow> (jsstr, jsval) orec \<Rightarrow> ((jsstr, jsval) orec \<times> jsstr) option" where
  "json_value s =
     (case json_ws s of
        [] \<Rightarrow> None
      | c # r \<Rightarrow>
          if c = 34 then map_option (\<lambda>(t, q). (VStr t, q)) (json_chars r)
          else if c = 91 then
            (case json_ws r of
               d # q \<Rightarrow> if d = 93 then Some (VArr [], q)
                        else if shorter r s then map_option (\<lambda>(vs, q). (VArr vs, q)) (json_elems r) else None
             | [] \<Rightarrow> None)
          else if c = 123 then
            (case json_ws r of
               d # q \<Rightarrow> if d = 125 then Some (VObj [], q)
                        else if shorter r s then map_option (\<lambda>(ms, q). (VObj ms, q)) (json_members r []) else None
             | [] \<Rightarrow> None)
          else json_word (c # r))"
| "json_elems s =
     (case json_value s of
        None \<Rightarrow> None
      | Some (v, r) \<Rightarrow>
          (case json_ws r of
             [] \<Rightarrow> None
           | d # q \<Rightarrow>
               if d = 93 then Some ([v], q)
               else if d = 44 \<and> shorter q s then map_option (\<lambda>(vs, q'). (v # vs, q')) (json_elems q)
               else None))"
| "json_members s ms =
     (case json_ws s of
        [] \<Rightarrow> None
      | c # r \<Rightarrow>
          if c \<noteq> 34 then None
          else (case json_chars r of
             None \<Rightarrow> None
           | Some (k, r1) \<Rightarrow>
               (case json_ws r1 of
                  [] \<Rightarrow> None
                | d # r2 \<Rightarrow>
                    if d \<noteq> 58 \<or> \<not> shorter r2 s then None
                    else (case json_value r2 of
                       None \<Rightarrow> None
                     | Some (v, r3) \<Rightarrow>
                         (case json_ws r3 of
                            [] \<Rightarrow> None
                          | e # q \<Rightarrow>
                              if e = 125 then Some (orec_set k v ms, q)
                              else if e = 44 \<and> shorter q s then json_members q (orec_set k v ms)
                              else None)))))"
  by pat_completeness auto
termination json_value
  by (relation "measure (\<lambda>x. case x of Inl s \<Rightarrow> 2 * length s
        | Inr (Inl s) \<Rightarrow> 2 * length s + 1 | Inr (Inr (s, ms)) \<Rightarrow> 2 * length s + 1)")
    (auto simp: shorter_length)

declare json_value.simps [simp del] json_elems.simps [simp del] json_members.simps [simp del]

definition json_parse :: "jsstr \<Rightarrow> jsval option" where
  "json_parse s =
     (case json_value s of Some (v, r) \<Rightarrow> if json_ws r = [] then Some v else None | None \<Rightarrow> None)"

text \<open>\<open>String(value)\<close>.\<close>

fun to_string :: "jsval \<Rightarrow> jsstr" where
  "to_string VUndef = js ''undefined''"
| "to_string VNull = js ''null''"
| "to_string (VBool b) = (if b then js ''true'' else js ''false'')"
| "to_string (VNum x) = num_to_string x"
| "to_string (VStr t) = t"
| "to_string (VArr vs) = join (js '','') (map (\<lambda>v. if is_nullish v then [] else to_string v) vs)"
| "to_string (VObj ms) = js ''[object Object]''"

section \<open>Quoted text parses to itself\<close>

lemma json_chars_quote_char:
  assumes "0 \<le> c" and "c < 65536"
  shows "json_chars (quote_char c @ r) = cons_char c (json_chars r)"
    and "json_chars (92 # 117 # hex4 c @ r) = cons_char c (json_chars r)"
proof -
  obtain h1 h2 h3 h4 where h: "hex4 c = [h1, h2, h3, h4]" by (simp add: hex4_def)
  show u: "json_chars (92 # 117 # hex4 c @ r) = cons_char c (json_chars r)"
    using hex4_hex[of c] parse_hex4[OF assms] unfolding h by (simp add: json_escapes_def)
  show "json_chars (quote_char c @ r) = cons_char c (json_chars r)"
  proof (cases "c < 32 \<and> c \<notin> {8, 9, 10, 12, 13}")
    case True
    with u show ?thesis by (auto simp: quote_char_def simp del: json_chars.simps)
  next
    case False
    then show ?thesis using assms by (auto simp: quote_char_def json_escapes_def)
  qed
qed

lemma json_chars_quote_body:
  "valid_text s \<Longrightarrow> json_chars (quote_body s @ 34 # r) = Some (s, r)"
proof (induction s rule: quote_body.induct)
  case (2 c)
  have "json_chars (34 # r) = Some ([], r)" by simp
  with 2 show ?case
    by (auto simp: valid_text_def json_chars_quote_char cons_char_def simp del: json_chars.simps)
next
  case (3 c d s)
  have e: "json_chars (c # d # s') = cons_char c (cons_char d (json_chars s'))"
    if "is_high_surrogate c" "is_low_surrogate d" for s'
    using that by (simp add: is_high_surrogate_def is_low_surrogate_def)
  from 3 show ?case
    by (auto simp: valid_text_def json_chars_quote_char e cons_char_def simp del: json_chars.simps)
qed simp

lemma json_parse_quote:
  assumes "valid_text s"
  shows "json_parse (json_quote s) = Some (VStr s)"
  using json_chars_quote_body[OF assms, of "[]"]
  by (simp add: json_parse_def json_quote_def json_value.simps[of "34 # _"] json_space_def)

end
