(* ===== verification/BillingExpr.thy ===== *)
theory BillingExpr
  imports Structure Display Json
begin

text \<open>
  \<open>pricing/lib/billing-expr.ts\<close>: the registry of price variables, the tier summaries shown to
  users, the request-rule parser with its regular expressions, the split of an expression into
  price and request rules, and the rule editor's builder. Reading a rule can raise the
  \<open>SyntaxError\<close> of \<open>JSON.parse\<close>, so its operations return an error or a value.
\<close>

section \<open>Price variables\<close>

datatype var_side = InputSide | OutputSide | ConditionSide

record billing_var =
  bv_key :: jsstr
  bv_field :: "jsstr option"
  bv_tierField :: "jsstr option"
  bv_label :: jsstr
  bv_shortLabel :: jsstr
  bv_side :: var_side
  bv_isBase :: bool
  bv_isConditionOnly :: bool
  bv_group :: "jsstr option"

definition base_var :: "string \<Rightarrow> string \<Rightarrow> string \<Rightarrow> string \<Rightarrow> string \<Rightarrow> var_side \<Rightarrow> billing_var" where
  "base_var key field tier label short side =
     \<lparr>bv_key = js key, bv_field = Some (js field), bv_tierField = Some (js tier), bv_label = js label,
      bv_shortLabel = js short, bv_side = side, bv_isBase = True, bv_isConditionOnly = False,
      bv_group = None\<rparr>"

definition extra_var ::
  "string \<Rightarrow> string \<Rightarrow> string \<Rightarrow> string \<Rightarrow> string \<Rightarrow> var_side \<Rightarrow> string \<Rightarrow> billing_var" where
  "extra_var key field tier label short side grp =
     \<lparr>bv_key = js key, bv_field = Some (js field), bv_tierField = Some (js tier), bv_label = js label,
      bv_shortLabel = js short, bv_side = side, bv_isBase = False, bv_isConditionOnly = False,
      bv_group = Some (js grp)\<rparr>"

definition BILLING_VARS :: "billing_var list" where
  "BILLING_VARS =
     [base_var ''p'' ''inputPrice'' ''input_unit_cost'' ''Input price'' ''Input'' InputSide,
      base_var ''c'' ''outputPrice'' ''output_unit_cost'' ''Completion price'' ''Output'' OutputSide,
      \<lparr>bv_key = js ''len'', bv_field = None, bv_tierField = None, bv_label = js ''Input length'',
       bv_shortLabel = js ''Length'', bv_side = ConditionSide, bv_isBase = False,
       bv_isConditionOnly = True, bv_group = None\<rparr>,
      extra_var ''cr'' ''cacheReadPrice'' ''cache_read_unit_cost'' ''Cache read price'' ''Cache Read''
        InputSide ''cache'',
      extra_var ''cc'' ''cacheCreatePrice'' ''cache_create_unit_cost'' ''Cache create price'' ''Cache Write''
        InputSide ''cache'',
      extra_var ''img_cr'' ''imageCachePrice'' ''image_cache_unit_cost'' ''Image cache input price''
        ''Image Cache'' InputSide ''cache'',
      extra_var ''cc1h'' ''cacheCreate1hPrice'' ''cache_create_1h_unit_cost'' ''Cache create (1h) price''
        ''Cache Write (1h)'' InputSide ''cache'',
      extra_var ''img'' ''imagePrice'' ''image_unit_cost'' ''Image input price'' ''Image In'' InputSide ''media'',
      extra_var ''img_o'' ''imageOutputPrice'' ''image_output_unit_cost'' ''Image output price''
        ''Image Out'' OutputSide ''media'',
      extra_var ''ai'' ''audioInputPrice'' ''audio_input_unit_cost'' ''Audio input price'' ''Audio In''
        InputSide ''media'',
      extra_var ''ao'' ''audioOutputPrice'' ''audio_output_unit_cost'' ''Audio output price'' ''Audio Out''
        OutputSide ''media'']"

definition BILLING_PRICING_VARS :: "billing_var list" where
  "BILLING_PRICING_VARS = filter (\<lambda>v. \<not> bv_isConditionOnly v) BILLING_VARS"

definition BILLING_CONDITION_VARS :: "jsstr list" where
  "BILLING_CONDITION_VARS = map bv_key (filter (\<lambda>v. bv_isBase v \<or> bv_isConditionOnly v) BILLING_VARS)"

definition opt_text :: "jsstr option \<Rightarrow> jsstr" where
  "opt_text t = (case t of Some s \<Rightarrow> s | None \<Rightarrow> js ''null'')"

definition BILLING_VAR_KEY_TO_FIELD :: "(jsstr, jsstr) orec" where
  "BILLING_VAR_KEY_TO_FIELD = map (\<lambda>v. (bv_key v, opt_text (bv_field v))) BILLING_PRICING_VARS"

definition BILLING_EXTRA_VARS :: "billing_var list" where
  "BILLING_EXTRA_VARS = filter (\<lambda>v. \<not> bv_isBase v \<and> \<not> bv_isConditionOnly v) BILLING_VARS"

text \<open>Pairs of a tier field and the variable it prices.\<close>

definition BILLING_CACHE_VAR_MAP :: "(jsstr \<times> jsstr) list" where
  "BILLING_CACHE_VAR_MAP = map (\<lambda>v. (opt_text (bv_tierField v), bv_key v)) BILLING_EXTRA_VARS"

section \<open>Tier summaries\<close>

record parsed_tier =
  pt_label :: jsstr
  pt_imageCount :: bool
  pt_conditions :: "token_condition list"
  pt_billingUnit :: "billing_unit option"
  pt_fixedPrice :: "jsnum option"
  pt_conditionText :: "jsstr option"
  pt_prices :: "(jsstr, jsnum) orec"

definition price_field :: "jsstr \<Rightarrow> jsstr" where
  "price_field key =
     (case map_of BILLING_VAR_KEY_TO_FIELD key of Some f \<Rightarrow> f | None \<Rightarrow> js ''undefined'')"

definition mapTokenTier :: "'a token_tier_scheme \<Rightarrow> parsed_tier" where
  "mapTokenTier t =
     (let request = (tt_billingUnit t = Some URequest) in
      \<lparr>pt_label = tt_label t, pt_imageCount = tt_imageCount t, pt_conditions = tt_conditions t,
       pt_billingUnit = (if request then tt_billingUnit t else None),
       pt_fixedPrice = (if request then tt_fixedPrice t else None),
       pt_conditionText = (if tt_conditionText t = Some [] then None else tt_conditionText t),
       pt_prices = foldl (\<lambda>r (k, x). orec_set (price_field k) x r) [] (tt_prices t)\<rparr>)"

definition parseTiersFromExpr ::
  "host \<Rightarrow> jsstr \<Rightarrow> compile_cache \<Rightarrow> (expr_error + parsed_tier list) \<times> compile_cache" where
  "parseTiersFromExpr h exprStr cache =
     (if exprStr = [] then (Inr [], cache)
      else case compileBillingExpression exprStr cache of
        (Failed f, cache) \<Rightarrow> (Inr [], cache)
      | (Ready c, cache) \<Rightarrow>
          (case readTokenTierChain (cast c) of
             Some canonical \<Rightarrow> (Inr (map mapTokenTier canonical), cache)
           | None \<Rightarrow>
               (let (r, cache) = readTimeTokenPricing h exprStr None cache
                in (rbind r (\<lambda>p. Inr (case p of Some (tiers, current) \<Rightarrow> map mapTokenTier tiers | None \<Rightarrow> [])),
                    cache))))"

definition getCurrentTimePricingTiers ::
  "host \<Rightarrow> jsstr \<Rightarrow> date \<Rightarrow> compile_cache \<Rightarrow> (expr_error + parsed_tier list option) \<times> compile_cache" where
  "getCurrentTimePricingTiers h exprStr now cache =
     (let (r, cache) = readTimeTokenPricing h exprStr (Some now) cache
      in (rbind r (\<lambda>p. Inr (map_option (\<lambda>(tiers, current). map mapTokenTier current) p)), cache))"

text \<open>
  Labels are compared after comparison signs are unified and white space is removed. A sign is the
  ASCII one or the full-width one (65308, 65310), optionally with an equals sign (ASCII or the
  full-width 65309), or the composed sign (8804, 8805).
\<close>

definition sign_rx :: "jschar \<Rightarrow> jschar \<Rightarrow> jschar \<Rightarrow> rx" where
  "sign_rx ascii composed wide =
     RAlts [RSeq (RLit [ascii]) (ROpt (RCls (\<lambda>c. c = 61 \<or> c = 65309))), RLit [composed],
            RSeq (RLit [wide]) (ROpt (RCls (\<lambda>c. c = 61 \<or> c = 65309)))]"

definition normalizeTierLabel :: "host \<Rightarrow> jsstr option \<Rightarrow> jsstr" where
  "normalizeTierLabel h label =
     (case label of
        None \<Rightarrow> []
      | Some t \<Rightarrow> if t = [] then []
          else lower_case h (replace_all (RPlus is_space) []
                 (replace_all (sign_rx 62 8805 65310) [62] (replace_all (sign_rx 60 8804 65308) [60] t))))"

section \<open>Request rules\<close>

definition SOURCE_PARAM :: jsstr where "SOURCE_PARAM = js ''param''"
definition SOURCE_HEADER :: jsstr where "SOURCE_HEADER = js ''header''"
definition SOURCE_TIME :: jsstr where "SOURCE_TIME = js ''time''"
definition MATCH_EQ :: jsstr where "MATCH_EQ = js ''eq''"
definition MATCH_CONTAINS :: jsstr where "MATCH_CONTAINS = js ''contains''"
definition MATCH_GT :: jsstr where "MATCH_GT = js ''gt''"
definition MATCH_GTE :: jsstr where "MATCH_GTE = js ''gte''"
definition MATCH_LT :: jsstr where "MATCH_LT = js ''lt''"
definition MATCH_LTE :: jsstr where "MATCH_LTE = js ''lte''"
definition MATCH_EXISTS :: jsstr where "MATCH_EXISTS = js ''exists''"
definition MATCH_RANGE :: jsstr where "MATCH_RANGE = js ''range''"

definition TIME_FUNCS :: "jsstr list" where
  "TIME_FUNCS = [js ''hour'', js ''minute'', js ''weekday'', js ''month'', js ''day'']"

text \<open>\<open>/^-?(?:\d+\.?\d*|\.\d+)(?:[eE][+-]?\d+)?$/\<close>\<close>

definition NUMERIC_LITERAL_REGEX :: rx where
  "NUMERIC_LITERAL_REGEX =
     RSeqs [ROpt (RLit (js ''-'')),
            RAlt (RSeqs [RPlus is_digit, ROpt (RLit (js ''.'')), RRun is_digit])
                 (RSeq (RLit (js ''.'')) (RPlus is_digit)),
            ROpt (RSeqs [RCls (\<lambda>c. c = 101 \<or> c = 69), ROpt (RCls (\<lambda>c. c = 43 \<or> c = 45)), RPlus is_digit])]"

definition numeric_literal :: "jsstr \<Rightarrow> bool" where
  "numeric_literal t \<longleftrightarrow> match_all NUMERIC_LITERAL_REGEX t \<noteq> None"

record ph_condition =
  ph_source :: jsstr
  ph_path :: jsstr
  ph_mode :: jsstr
  ph_value :: jsstr

record time_condition =
  tm_func :: jsstr
  tm_timezone :: jsstr
  tm_mode :: jsstr
  tm_value :: jsstr
  tm_rangeStart :: jsstr
  tm_rangeEnd :: jsstr

datatype request_condition = TimeCondition time_condition | ParamHeader ph_condition

record rule_group =
  rg_conditions :: "request_condition list"
  rg_multiplier :: jsstr
  rg_conditionText :: "jsstr option"
  rg_matched :: "bool option"

definition the_parts :: "jsstr list option \<Rightarrow> jsstr list" where
  "the_parts ps = (case ps of Some qs \<Rightarrow> qs | None \<Rightarrow> [])"

definition splitTopLevelMultiply :: "jsstr \<Rightarrow> jsstr list" where
  "splitTopLevelMultiply expr = the_parts (splitExpressionAtTopLevel expr (js ''*''))"

definition splitTopLevelAnd :: "jsstr \<Rightarrow> jsstr list" where
  "splitTopLevelAnd expr = the_parts (splitExpressionAtTopLevel expr (js ''&&''))"

definition is_truth_word :: "jsstr \<Rightarrow> bool" where
  "is_truth_word t \<longleftrightarrow> t = js ''true'' \<or> t = js ''false''"

definition parseExprLiteral :: "jsstr \<Rightarrow> jsval" where
  "parseExprLiteral raw =
     (let t = trim raw in
      if is_truth_word t then VStr t
      else if numeric_literal t then VStr t
      else (case json_parse t of Some v \<Rightarrow> v | None \<Rightarrow> VNull))"

definition TIME_FUNC_RANGES :: "(jsstr, int \<times> int) orec" where
  "TIME_FUNC_RANGES = [(js ''hour'', 0, 23), (js ''minute'', 0, 59), (js ''weekday'', 0, 6),
     (js ''month'', 1, 12), (js ''day'', 1, 31)]"

definition isTimeValueInRange :: "jsstr \<Rightarrow> jsstr \<Rightarrow> bool" where
  "isTimeValueInRange timeFunc t \<longleftrightarrow>
     numeric_literal t \<and>
     (let value = js_number t in
      is_integer value \<and>
      (case map_of TIME_FUNC_RANGES timeFunc of
         Some (lo, hi) \<Rightarrow> num_le (num_of_int lo) value \<and> num_le value (num_of_int hi)
       | None \<Rightarrow> False))"

text \<open>The expressions of the rule parser; \<open>dq\<close> is a double quote.\<close>

abbreviation dq :: jsstr where
  "dq \<equiv> [34]"

definition quoted_group :: "int \<Rightarrow> rx" where
  "quoted_group n = RSeqs [RLit (js ''('' @ dq), RGroup n (RPlus rx_not_quote), RLit (dq @ js '')'')]"

definition time_call_rx :: rx where
  "time_call_rx = RSeq (RGroup 1 (rx_words TIME_FUNCS)) (quoted_group 2)"

definition time_range_rx :: rx where
  "time_range_rx =
     RSeqs [time_call_rx, RLit (js '' >= ''), RGroup 3 (RPlus rx_numeric), RLit (js '' ''),
            rx_words [js ''&&'', js ''||''], RLit (js '' ''), RBack 1, RLit (js ''('' @ dq), RBack 2,
            RLit (dq @ js '') < ''), RGroup 4 (RPlus rx_numeric)]"

definition wrapped_range_rx :: rx where
  "wrapped_range_rx = RSeqs [RLit (js ''(''), time_range_rx, RLit (js '')'')]"

definition time_scalar_rx :: rx where
  "time_scalar_rx =
     RSeqs [time_call_rx, RLit (js '' ''), RGroup 3 (rx_words [js ''=='', js ''>='', js ''<'']),
            RLit (js '' ''), RGroup 4 (RPlus rx_numeric)]"

definition range_condition :: "captures \<Rightarrow> request_condition option" where
  "range_condition m =
     (let f = cap_text 1 m; a = cap_text 3 m; b = cap_text 4 m in
      if \<not> isTimeValueInRange f a \<or> \<not> isTimeValueInRange f b then None
      else Some (TimeCondition \<lparr>tm_func = f, tm_timezone = cap_text 2 m, tm_mode = MATCH_RANGE,
             tm_value = [], tm_rangeStart = a, tm_rangeEnd = b\<rparr>))"

definition scalar_mode :: "jsstr \<Rightarrow> jsstr" where
  "scalar_mode op =
     (if op = js ''=='' then MATCH_EQ else if op = js ''>='' then MATCH_GTE
      else if op = js ''<'' then MATCH_LT else MATCH_EQ)"

definition scalar_condition :: "captures \<Rightarrow> request_condition option" where
  "scalar_condition m =
     (let f = cap_text 1 m; v = cap_text 4 m in
      if \<not> isTimeValueInRange f v then None
      else Some (TimeCondition \<lparr>tm_func = f, tm_timezone = cap_text 2 m,
             tm_mode = scalar_mode (cap_text 3 m), tm_value = v, tm_rangeStart = [], tm_rangeEnd = []\<rparr>))"

definition tryParseTimeCondition :: "jsstr \<Rightarrow> request_condition option" where
  "tryParseTimeCondition expr =
     (case match_all time_range_rx expr of
        Some m \<Rightarrow> range_condition m
      | None \<Rightarrow>
          (case match_all wrapped_range_rx expr of
             Some m \<Rightarrow> range_condition m
           | None \<Rightarrow>
               (case match_all time_scalar_rx expr of
                  Some m \<Rightarrow> scalar_condition m
                | None \<Rightarrow> None)))"

definition header_exists_rx :: rx where
  "header_exists_rx = RSeqs [RLit (js ''header''), quoted_group 1, RLit (js '' != '' @ dq @ dq)]"

definition param_exists_rx :: rx where
  "param_exists_rx = RSeqs [RLit (js ''param''), quoted_group 1, RLit (js '' != nil'')]"

text \<open>\<open>"(?:[^"\\]|\\.)*"\<close>\<close>

definition json_string_rx :: rx where
  "json_string_rx =
     RSeqs [RLit dq, RStar (RAlt (RCls (\<lambda>c. c \<noteq> 34 \<and> c \<noteq> 92)) (RSeq (RLit [92]) (RCls rx_dot))), RLit dq]"

definition header_contains_rx :: rx where
  "header_contains_rx =
     RSeqs [RLit (js ''has(header''), quoted_group 1, RLit (js '', ''), RGroup 2 json_string_rx, RLit (js '')'')]"

definition param_contains_rx :: rx where
  "param_contains_rx =
     RSeqs [RLit (js ''param''), quoted_group 1, RLit (js '' != nil && has(param''), quoted_group 2,
            RLit (js '', ''), RGroup 3 json_string_rx, RLit (js '')'')]"

definition param_compare_rx :: rx where
  "param_compare_rx =
     RSeqs [RLit (js ''param''), quoted_group 1, RLit (js '' != nil && param''), quoted_group 2, RLit (js '' ''),
            RGroup 3 (rx_words [js ''>'', js ''>='', js ''<'', js ''<='']), RLit (js '' ''),
            RGroup 4 (RPlus rx_numeric)]"

definition equals_rx :: rx where
  "equals_rx =
     RSeqs [RGroup 1 (rx_words [js ''param'', js ''header'']), quoted_group 2, RLit (js '' == ''),
            RGroup 3 (RPlus rx_dot)]"

definition ph :: "jsstr \<Rightarrow> jsstr \<Rightarrow> jsstr \<Rightarrow> jsstr \<Rightarrow> request_condition" where
  "ph source path mode value =
     ParamHeader \<lparr>ph_source = source, ph_path = path, ph_mode = mode, ph_value = value\<rparr>"

definition syntax_error :: expr_error where
  "syntax_error = NativeError (js ''SyntaxError'')"

definition contains_condition :: "jsstr \<Rightarrow> jsstr \<Rightarrow> jsstr \<Rightarrow> expr_error + request_condition option" where
  "contains_condition source path quoted =
     (case json_parse quoted of
        None \<Rightarrow> Inl syntax_error
      | Some v \<Rightarrow> Inr (Some (ph source path MATCH_CONTAINS (to_string v))))"

definition compare_mode :: "jsstr \<Rightarrow> jsstr" where
  "compare_mode op =
     (if op = js ''>'' then MATCH_GT else if op = js ''>='' then MATCH_GTE
      else if op = js ''<'' then MATCH_LT else MATCH_LTE)"

definition equals_condition :: "captures \<Rightarrow> request_condition option" where
  "equals_condition m =
     (let v = parseExprLiteral (cap_text 3 m) in
      if v = VNull then None else Some (ph (cap_text 1 m) (cap_text 2 m) MATCH_EQ (to_string v)))"

text \<open>The match of an expression, if its two paths agree.\<close>

definition same_path :: "captures option \<Rightarrow> captures option" where
  "same_path r = (case r of Some m \<Rightarrow> if cap 1 m = cap 2 m then Some m else None | None \<Rightarrow> None)"

definition tryParseRequestCondition :: "jsstr \<Rightarrow> expr_error + request_condition option" where
  "tryParseRequestCondition expr =
     (case tryParseTimeCondition expr of
        Some tc \<Rightarrow> Inr (Some tc)
      | None \<Rightarrow>
     (case match_all header_exists_rx expr of
        Some m \<Rightarrow> Inr (Some (ph (js ''header'') (cap_text 1 m) MATCH_EXISTS []))
      | None \<Rightarrow>
     (case match_all param_exists_rx expr of
        Some m \<Rightarrow> Inr (Some (ph (js ''param'') (cap_text 1 m) MATCH_EXISTS []))
      | None \<Rightarrow>
     (case match_all header_contains_rx expr of
        Some m \<Rightarrow> contains_condition (js ''header'') (cap_text 1 m) (cap_text 2 m)
      | None \<Rightarrow>
     (case same_path (match_all param_contains_rx expr) of
        Some m \<Rightarrow> contains_condition (js ''param'') (cap_text 1 m) (cap_text 3 m)
      | None \<Rightarrow>
     (case same_path (match_all param_compare_rx expr) of
        Some m \<Rightarrow> Inr (Some (ph (js ''param'') (cap_text 1 m) (compare_mode (cap_text 3 m)) (cap_text 4 m)))
      | None \<Rightarrow>
     (case match_all equals_rx expr of
        Some m \<Rightarrow> Inr (equals_condition m)
      | None \<Rightarrow> Inr None)))))))"

definition tryParseTimeRangePair :: "jsstr \<Rightarrow> jsstr \<Rightarrow> request_condition option" where
  "tryParseTimeRangePair lower upper =
     (case (tryParseTimeCondition lower, tryParseTimeCondition upper) of
        (Some (TimeCondition a), Some (TimeCondition b)) \<Rightarrow>
          if tm_func a \<noteq> tm_func b \<or> tm_timezone a \<noteq> tm_timezone b then None
          else if tm_mode a \<noteq> MATCH_GTE \<or> tm_mode b \<noteq> MATCH_LT then None
          else Some (TimeCondition \<lparr>tm_func = tm_func a, tm_timezone = tm_timezone a, tm_mode = MATCH_RANGE,
                 tm_value = [], tm_rangeStart = tm_value a, tm_rangeEnd = tm_value b\<rparr>)
      | _ \<Rightarrow> None)"

text \<open>The range read from a part and the part after it, when there is a non-empty one.\<close>

definition merged_range :: "jsstr \<Rightarrow> jsstr list \<Rightarrow> request_condition option" where
  "merged_range part rest =
     (case rest of
        [] \<Rightarrow> None
      | q # _ \<Rightarrow> if trim q = [] then None else tryParseTimeRangePair part (trim q))"

function parse_parts ::
  "jsstr list \<Rightarrow> request_condition list \<Rightarrow> expr_error + request_condition list option" where
  "parse_parts [] conditions = Inr (Some conditions)"
| "parse_parts (p # ps) conditions =
     (case merged_range (trim p) ps of
        Some m \<Rightarrow> parse_parts (tl ps) (conditions @ [m])
      | None \<Rightarrow>
          rbind (tryParseRequestCondition (trim p)) (\<lambda>c.
            case c of None \<Rightarrow> Inr None | Some d \<Rightarrow> parse_parts ps (conditions @ [d])))"
  by pat_completeness auto
termination parse_parts
  by (relation "measure (\<lambda>(ps, cs). length ps)") auto

definition tryParseRequestConditions :: "jsstr \<Rightarrow> expr_error + request_condition list option" where
  "tryParseRequestConditions conditionStr =
     (case tryParseTimeCondition (trim conditionStr) of
        Some c \<Rightarrow> Inr (Some [c])
      | None \<Rightarrow>
          rbind (parse_parts (splitTopLevelAnd conditionStr) []) (\<lambda>cs.
            Inr (if cs = Some [] then None else cs)))"

text \<open>\<open>/^\((.+) \? ([\d.eE+-]+) : 1\)$/s\<close>\<close>

definition rule_factor_rx :: rx where
  "rule_factor_rx =
     RSeqs [RLit (js ''(''), RGroup 1 (RPlus (\<lambda>c. True)), RLit (js '' ? ''), RGroup 2 (RPlus rx_numeric),
            RLit (js '' : 1)'')]"

definition tryParseRuleGroupFactor :: "jsstr \<Rightarrow> expr_error + rule_group option" where
  "tryParseRuleGroupFactor part =
     (case match_all rule_factor_rx part of
        None \<Rightarrow> Inr None
      | Some m \<Rightarrow>
          rbind (tryParseRequestConditions (cap_text 1 m)) (\<lambda>cs.
            Inr (map_option (\<lambda>conditions. \<lparr>rg_conditions = conditions, rg_multiplier = cap_text 2 m,
              rg_conditionText = None, rg_matched = None\<rparr>) cs)))"

fun requestRuleGroupsFromTrace :: "rule_trace list \<Rightarrow> expr_error + rule_group list" where
  "requestRuleGroupsFromTrace [] = Inr []"
| "requestRuleGroupsFromTrace (t # ts) =
     rbind (tryParseRequestConditions (trim (trace_cond t))) (\<lambda>cs.
     rbind (requestRuleGroupsFromTrace ts) (\<lambda>gs.
       Inr (\<lparr>rg_conditions = (case cs of Some c \<Rightarrow> c | None \<Rightarrow> []),
             rg_multiplier = num_to_string (trace_multiplier t),
             rg_conditionText = Some (trim (trace_cond t)), rg_matched = Some (trace_matched t)\<rparr> # gs)))"

fun parse_factors :: "jsstr list \<Rightarrow> rule_group list \<Rightarrow> expr_error + rule_group list option" where
  "parse_factors [] groups = Inr (Some groups)"
| "parse_factors (p # ps) groups =
     rbind (tryParseRuleGroupFactor p) (\<lambda>g.
       case g of None \<Rightarrow> Inr None | Some g \<Rightarrow> parse_factors ps (groups @ [g]))"

definition tryParseRequestRuleExpr :: "jsstr \<Rightarrow> expr_error + rule_group list option" where
  "tryParseRequestRuleExpr expr =
     (let trimmed = trim expr in
      if trimmed = [] then Inr (Some []) else parse_factors (splitTopLevelMultiply trimmed) [])"

section \<open>Price and request rules\<close>

definition unwrapOuterParens :: "jsstr \<Rightarrow> jsstr" where
  "unwrapOuterParens expr = unwrapExpressionParens expr"

definition traced :: "compilation \<Rightarrow> bool" where
  "traced r = (case r of Ready c \<Rightarrow> list_ex (\<lambda>q. rule_node q = cast c) (crules c) | Failed f \<Rightarrow> False)"

text \<open>The loop over the factors: the rules, the other factors and the compile cache.\<close>

fun sort_factors ::
  "jsstr list \<Rightarrow> jsstr list \<times> jsstr list \<Rightarrow> compile_cache \<Rightarrow>
   (expr_error + jsstr list \<times> jsstr list) \<times> compile_cache" where
  "sort_factors [] acc cache = (Inr acc, cache)"
| "sort_factors (part # ps) (ruleParts, baseParts) cache =
     (case tryParseRequestRuleExpr part of
        Inl e \<Rightarrow> (Inl e, cache)
      | Inr rules \<Rightarrow>
          (let (r, cache) = compileBillingExpression part cache in
           if (case rules of Some gs \<Rightarrow> gs \<noteq> [] | None \<Rightarrow> False) \<or> traced r
           then sort_factors ps (ruleParts @ [part], baseParts) cache
           else sort_factors ps (ruleParts, baseParts @ [part]) cache))"

record split_expr =
  sp_billingExpr :: jsstr
  sp_requestRuleExpr :: jsstr

definition splitBillingExprAndRequestRules ::
  "jsstr \<Rightarrow> compile_cache \<Rightarrow> (expr_error + split_expr) \<times> compile_cache" where
  "splitBillingExprAndRequestRules expr cache =
     (let trimmed = trim expr in
      if trimmed = [] then (Inr \<lparr>sp_billingExpr = [], sp_requestRuleExpr = []\<rparr>, cache)
      else (let parts = splitTopLevelMultiply trimmed in
        if slen parts \<le> 1 then (Inr \<lparr>sp_billingExpr = trimmed, sp_requestRuleExpr = []\<rparr>, cache)
        else (let (r, cache) = sort_factors parts ([], []) cache in
          (rbind r (\<lambda>(ruleParts, baseParts).
             let quantityParts = filter (\<lambda>p. unwrapOuterParens p = js ''image_count'') baseParts in
             if ruleParts = [] \<or> slen baseParts - slen quantityParts \<noteq> 1
             then Inr \<lparr>sp_billingExpr = trimmed, sp_requestRuleExpr = []\<rparr>
             else Inr \<lparr>sp_billingExpr = join (js '' * '') (map unwrapOuterParens baseParts),
                       sp_requestRuleExpr = join (js '' * '') ruleParts\<rparr>), cache))))"

definition combineBillingExpr :: "jsstr \<Rightarrow> jsstr \<Rightarrow> jsstr" where
  "combineBillingExpr baseExpr requestRuleExpr =
     (let base = trim baseExpr; rules = trim requestRuleExpr in
      if base = [] then [] else if rules = [] then base
      else js ''('' @ base @ js '') * '' @ rules)"

definition parseTaskTiersFromExpr ::
  "jsstr \<Rightarrow> usage_schema option \<Rightarrow> bool \<Rightarrow> compile_cache \<Rightarrow> (expr_error + task_tier list) \<times> compile_cache" where
  "parseTaskTiersFromExpr exprStr schema includeBooleanConditions cache =
     (case schema of
        None \<Rightarrow> (Inr [], cache)
      | Some sch \<Rightarrow>
          if exprStr = [] \<or> sch = [] then (Inr [], cache)
          else (case splitBillingExprAndRequestRules exprStr cache of
              (Inl e, cache) \<Rightarrow> (Inl e, cache)
            | (Inr sp, cache) \<Rightarrow>
                (case compileBillingExpression (sp_billingExpr sp) cache of
                   (Failed f, cache) \<Rightarrow> (Inr [], cache)
                 | (Ready c, cache) \<Rightarrow>
                     (Inr (case readTaskTierChain (cast c) sch includeBooleanConditions of
                        Some ts \<Rightarrow> ts | None \<Rightarrow> []), cache))))"

section \<open>The rule editor\<close>

definition createEmptyCondition :: ph_condition where
  "createEmptyCondition = \<lparr>ph_source = js ''param'', ph_path = [], ph_mode = MATCH_EQ, ph_value = []\<rparr>"

definition createEmptyTimeCondition :: time_condition where
  "createEmptyTimeCondition = \<lparr>tm_func = js ''hour'', tm_timezone = js ''Asia/Shanghai'', tm_mode = MATCH_GTE,
     tm_value = [], tm_rangeStart = [], tm_rangeEnd = []\<rparr>"

definition createEmptyRuleGroup :: rule_group where
  "createEmptyRuleGroup = \<lparr>rg_conditions = [ParamHeader createEmptyCondition], rg_multiplier = [],
     rg_conditionText = None, rg_matched = None\<rparr>"

definition createEmptyTimeRuleGroup :: rule_group where
  "createEmptyTimeRuleGroup = \<lparr>rg_conditions = [TimeCondition createEmptyTimeCondition], rg_multiplier = [],
     rg_conditionText = None, rg_matched = None\<rparr>"

record match_option =
  mo_value :: jsstr
  mo_labelKey :: jsstr

definition option_of :: "jsstr \<Rightarrow> string \<Rightarrow> match_option" where
  "option_of v key = \<lparr>mo_value = v, mo_labelKey = js key\<rparr>"

definition getRequestRuleMatchOptions :: "jsstr \<Rightarrow> match_option list" where
  "getRequestRuleMatchOptions source =
     (if source = SOURCE_TIME then
        [option_of MATCH_EQ ''Equals'', option_of MATCH_GTE ''Greater than or equal'',
         option_of MATCH_LT ''Less than'', option_of MATCH_RANGE ''Overnight range'']
      else (let base = [option_of MATCH_EQ ''Equals'', option_of MATCH_CONTAINS ''Contains'',
                        option_of MATCH_EXISTS ''Exists'']
        in if source = SOURCE_HEADER then base
           else base @ [option_of MATCH_GT ''Greater than'', option_of MATCH_GTE ''Greater than or equal'',
                        option_of MATCH_LT ''Less than'', option_of MATCH_LTE ''Less than or equal'']))"

definition isTimeFunc :: "jsstr option \<Rightarrow> bool" where
  "isTimeFunc v = (case v of Some t \<Rightarrow> t \<in> set TIME_FUNCS | None \<Rightarrow> False)"

text \<open>A condition some of whose fields may be missing.\<close>

record partial_condition =
  pc_source :: "jsstr option"
  pc_timeFunc :: "jsstr option"
  pc_timezone :: "jsstr option"
  pc_path :: "jsstr option"
  pc_mode :: "jsstr option"
  pc_value :: "jsstr option"
  pc_rangeStart :: "jsstr option"
  pc_rangeEnd :: "jsstr option"

definition no_fields :: partial_condition where
  "no_fields = \<lparr>pc_source = None, pc_timeFunc = None, pc_timezone = None, pc_path = None, pc_mode = None,
     pc_value = None, pc_rangeStart = None, pc_rangeEnd = None\<rparr>"

fun partial_of :: "request_condition \<Rightarrow> partial_condition" where
  "partial_of (TimeCondition t) =
     \<lparr>pc_source = Some SOURCE_TIME, pc_timeFunc = Some (tm_func t), pc_timezone = Some (tm_timezone t),
      pc_path = None, pc_mode = Some (tm_mode t), pc_value = Some (tm_value t),
      pc_rangeStart = Some (tm_rangeStart t), pc_rangeEnd = Some (tm_rangeEnd t)\<rparr>"
| "partial_of (ParamHeader p) =
     \<lparr>pc_source = Some (ph_source p), pc_timeFunc = None, pc_timezone = None, pc_path = Some (ph_path p),
      pc_mode = Some (ph_mode p), pc_value = Some (ph_value p), pc_rangeStart = None, pc_rangeEnd = None\<rparr>"

definition or_empty :: "jsstr option \<Rightarrow> jsstr" where
  "or_empty t = (case t of Some s \<Rightarrow> s | None \<Rightarrow> [])"

definition kept_mode :: "jsstr \<Rightarrow> jsstr option \<Rightarrow> jsstr \<Rightarrow> jsstr" where
  "kept_mode source mode fallback =
     (if list_ex (\<lambda>item. Some (mo_value item) = mode) (getRequestRuleMatchOptions source)
      then or_empty mode else fallback)"

definition normalizeCondition :: "partial_condition option \<Rightarrow> request_condition" where
  "normalizeCondition cond =
     (let c = (case cond of Some d \<Rightarrow> d | None \<Rightarrow> no_fields);
          source = (if pc_source c = Some SOURCE_TIME then SOURCE_TIME
                    else if pc_source c = Some SOURCE_HEADER then SOURCE_HEADER else SOURCE_PARAM)
      in if source = SOURCE_TIME then
           TimeCondition
             \<lparr>tm_func = (if isTimeFunc (pc_timeFunc c) then or_empty (pc_timeFunc c) else js ''hour''),
              tm_timezone = (if or_empty (pc_timezone c) = [] then js ''Asia/Shanghai''
                             else or_empty (pc_timezone c)),
              tm_mode = kept_mode SOURCE_TIME (pc_mode c) MATCH_GTE, tm_value = or_empty (pc_value c),
              tm_rangeStart = or_empty (pc_rangeStart c), tm_rangeEnd = or_empty (pc_rangeEnd c)\<rparr>
         else ph source (or_empty (pc_path c)) (kept_mode source (pc_mode c) MATCH_EQ) (or_empty (pc_value c)))"

section \<open>Building rule expressions\<close>

definition buildExprLiteral :: "jsstr \<Rightarrow> jsstr \<Rightarrow> jsstr" where
  "buildExprLiteral mode value =
     (let t = trim value in
      if mode = MATCH_CONTAINS then json_quote t
      else if is_truth_word t then t
      else if numeric_literal t then t
      else json_quote t)"

definition scalar_operator :: "jsstr \<Rightarrow> jsstr" where
  "scalar_operator mode =
     (if mode = MATCH_EQ then js ''=='' else if mode = MATCH_GTE then js ''>=''
      else if mode = MATCH_LT then js ''<'' else js ''=='')"

text \<open>The body of \<open>buildTimeConditionExpr\<close> on a normalised condition.\<close>

definition time_expr :: "time_condition \<Rightarrow> jsstr" where
  "time_expr n =
     (let fn = tm_func n @ js ''('' @ json_quote (tm_timezone n) @ js '')'' in
      if tm_mode n = MATCH_RANGE then
        (let s = trim (tm_rangeStart n); e = trim (tm_rangeEnd n) in
         if \<not> isTimeValueInRange (tm_func n) s \<or> \<not> isTimeValueInRange (tm_func n) e then []
         else if num_lt (js_number e) (js_number s)
         then fn @ js '' >= '' @ s @ js '' || '' @ fn @ js '' < '' @ e
         else fn @ js '' >= '' @ s @ js '' && '' @ fn @ js '' < '' @ e)
      else (let v = trim (tm_value n) in
        if \<not> isTimeValueInRange (tm_func n) v then []
        else fn @ js '' '' @ scalar_operator (tm_mode n) @ js '' '' @ v))"

definition compare_operator :: "jsstr \<Rightarrow> jsstr" where
  "compare_operator mode =
     (if mode = MATCH_GT then js ''>'' else if mode = MATCH_GTE then js ''>=''
      else if mode = MATCH_LT then js ''<'' else js ''<='')"

text \<open>The rest of \<open>buildRequestConditionExpr\<close> on a normalised condition.\<close>

definition ph_expr :: "ph_condition \<Rightarrow> jsstr" where
  "ph_expr n =
     (let path = trim (ph_path n); isHeader = (ph_source n = SOURCE_HEADER);
          src = (if isHeader then js ''header('' @ json_quote path @ js '')''
                 else js ''param('' @ json_quote path @ js '')'');
          lit = buildExprLiteral (ph_mode n) (ph_value n) in
      if path = [] then []
      else if ph_mode n = MATCH_EXISTS then
        (if isHeader then src @ js '' != '' @ dq @ dq else src @ js '' != nil'')
      else if ph_mode n = MATCH_CONTAINS then
        (if isHeader then js ''has('' @ src @ js '', '' @ lit @ js '')''
         else src @ js '' != nil && has('' @ src @ js '', '' @ lit @ js '')'')
      else if ph_mode n \<in> {MATCH_GT, MATCH_GTE, MATCH_LT, MATCH_LTE} then
        (let numText = trim (ph_value n) in
         if \<not> numeric_literal numText then []
         else src @ js '' != nil && '' @ src @ js '' '' @ compare_operator (ph_mode n) @ js '' '' @ numText)
      else src @ js '' == '' @ lit)"

text \<open>Both builders normalise the condition first; the source stays what it was.\<close>

definition buildRequestConditionExpr :: "request_condition \<Rightarrow> jsstr" where
  "buildRequestConditionExpr cond =
     (case normalizeCondition (Some (partial_of cond)) of
        TimeCondition t \<Rightarrow> time_expr t
      | ParamHeader p \<Rightarrow> ph_expr p)"

definition buildRuleGroupFactor :: "rule_group \<Rightarrow> jsstr" where
  "buildRuleGroupFactor g =
     (let multiplier = trim (rg_multiplier g);
          condExprs = filter (\<lambda>e. e \<noteq> []) (map buildRequestConditionExpr (rg_conditions g));
          combined = (case condExprs of
              [e] \<Rightarrow> e
            | _ \<Rightarrow> join (js '' && '')
                     (map (\<lambda>e. if str_includes e (js '' || '') then js ''('' @ e @ js '')'' else e) condExprs))
      in if \<not> numeric_literal multiplier then []
         else if condExprs = [] then []
         else js ''('' @ combined @ js '' ? '' @ multiplier @ js '' : 1)'')"

definition buildRequestRuleExpr :: "rule_group list \<Rightarrow> jsstr" where
  "buildRequestRuleExpr groups = join (js '' * '') (filter (\<lambda>e. e \<noteq> []) (map buildRuleGroupFactor groups))"

end
