(* ===== verification/JsArray.thy ===== *)
theory JsArray
  imports Json
begin

text \<open>
  \<open>Array.prototype.sort\<close> with a comparison function, and \<open>Number(value)\<close> on any value. The sort
  is stable; for a comparison function that is a total preorder the result is the only sorted
  arrangement that keeps the order of equal elements, so insertion sort computes it.
\<close>

section \<open>Sorting\<close>

text \<open>A comparison function returns a negative number, zero or a positive number.\<close>

type_synonym 'a comparison = "'a \<Rightarrow> 'a \<Rightarrow> int"

fun insert_by :: "'a comparison \<Rightarrow> 'a \<Rightarrow> 'a list \<Rightarrow> 'a list" where
  "insert_by cmp x [] = [x]"
| "insert_by cmp x (y # ys) = (if 0 < cmp x y then y # insert_by cmp x ys else x # y # ys)"

fun sort_by :: "'a comparison \<Rightarrow> 'a list \<Rightarrow> 'a list" where
  "sort_by cmp [] = []"
| "sort_by cmp (x # xs) = insert_by cmp x (sort_by cmp xs)"

lemma set_insert_by [simp]: "set (insert_by cmp x xs) = insert x (set xs)"
  by (induction xs) auto

lemma set_sort_by [simp]: "set (sort_by cmp xs) = set xs"
  by (induction xs) auto

lemma length_insert_by [simp]: "length (insert_by cmp x xs) = Suc (length xs)"
  by (induction xs) auto

lemma length_sort_by [simp]: "length (sort_by cmp xs) = length xs"
  by (induction xs) auto

lemma distinct_map_insert_by:
  "distinct (map f (insert_by cmp x xs)) \<longleftrightarrow> f x \<notin> f ` set xs \<and> distinct (map f xs)"
  by (induction xs) auto

lemma distinct_map_sort_by [simp]: "distinct (map f (sort_by cmp xs)) \<longleftrightarrow> distinct (map f xs)"
  by (induction xs) (auto simp: distinct_map_insert_by)

text \<open>The laws of a comparison function, and what they give for the sort.\<close>

locale comparison =
  fixes cmp :: "'a comparison"
  assumes cmp_flip: "0 < cmp x y \<longleftrightarrow> cmp y x < 0"
    and cmp_trans: "cmp x y \<le> 0 \<Longrightarrow> cmp y z \<le> 0 \<Longrightarrow> cmp x z \<le> 0"
begin

lemma insert_by_sorted:
  "sorted_wrt (\<lambda>a b. cmp a b \<le> 0) xs \<Longrightarrow> sorted_wrt (\<lambda>a b. cmp a b \<le> 0) (insert_by cmp x xs)"
proof (induction xs)
  case (Cons y ys)
  show ?case
  proof (cases "0 < cmp x y")
    case True
    with Cons show ?thesis using cmp_flip[of x y] by auto
  next
    case False
    then have "cmp x y \<le> 0" by simp
    with False Cons.prems show ?thesis using cmp_trans[of x y] by auto
  qed
qed simp

lemma sort_by_sorted: "sorted_wrt (\<lambda>a b. cmp a b \<le> 0) (sort_by cmp xs)"
  by (induction xs) (auto simp: insert_by_sorted)

lemma sort_by_id: "sorted_wrt (\<lambda>a b. cmp a b \<le> 0) xs \<Longrightarrow> sort_by cmp xs = xs"
proof (induction xs)
  case (Cons x xs)
  then show ?case by (cases xs) auto
qed simp

lemma sort_by_idem: "sort_by cmp (sort_by cmp xs) = sort_by cmp xs"
  by (rule sort_by_id[OF sort_by_sorted])

end

section \<open>Numbers of values\<close>

definition to_number :: "jsval \<Rightarrow> jsnum" where
  "to_number v =
     (case v of
        VUndef \<Rightarrow> NaN
      | VNull \<Rightarrow> Fin 0
      | VBool b \<Rightarrow> if b then Fin 1 else Fin 0
      | VNum x \<Rightarrow> x
      | VStr t \<Rightarrow> js_number t
      | VArr vs \<Rightarrow> js_number (to_string v)
      | VObj ms \<Rightarrow> NaN)"

text \<open>\<open>Number(value) || 0\<close>: \<open>NaN\<close> and both zeros become 0.\<close>

definition number_or_zero :: "jsnum \<Rightarrow> jsnum" where
  "number_or_zero x = (if x = NaN \<or> is_zero x then Fin 0 else x)"

text \<open>The order of \<open><\<close> on strings as a comparison function.\<close>

definition str_cmp :: "jsstr comparison" where
  "str_cmp a b = (if a = b then 0 else if str_lt a b then -1 else 1)"

interpretation str_cmp: comparison str_cmp
proof
  fix x y z
  show "0 < str_cmp x y \<longleftrightarrow> str_cmp y x < 0"
    using str_lt_linear[of x y] str_lt_trans[of x y x] by (auto simp: str_cmp_def)
  show "str_cmp x y \<le> 0 \<Longrightarrow> str_cmp y z \<le> 0 \<Longrightarrow> str_cmp x z \<le> 0"
    using str_lt_trans[of x y z] by (auto simp: str_cmp_def split: if_splits)
qed

end
