(* ===== verification/TaskExpr.thy ===== *)
theory TaskExpr
  imports BillingExpr JsArray
begin

text \<open>
  \<open>pricing/lib/task-expr.ts\<close>: task tiers priced by usage facts, the matrix of enum combinations,
  the preview of a task price and the text form of a tier table. The collation \<open>localeCompare\<close> is
  the argument \<open>cmp\<close>. A record lists its properties in insertion order.
\<close>

section \<open>Configurations\<close>

definition TASK_TOKEN_PRICE_SCALE :: jsnum where
  "TASK_TOKEN_PRICE_SCALE = Fin 1000000"

type_synonym task_config = "task_tier list"

record matrix_row =
  mr_combination :: "(jsstr, jsstr) orec"
  mr_constant :: jsnum
  mr_unitPrices :: "(jsstr, jsnum) orec"

type_synonym matrix_config = "matrix_row list"

datatype preview_part =
    ConstantPart jsnum
  | UsagePart (up_field: jsstr) (up_amount: jsnum) (up_quantity: jsnum) (up_unitPrice: jsnum)

record preview_result =
  pv_tier :: task_tier
  pv_total :: jsnum
  pv_parts :: "preview_part list"

definition by_name :: "jsstr comparison \<Rightarrow> (jsstr \<times> 'a) comparison" where
  "by_name cmp l r = cmp (fst l) (fst r)"

definition schema_entries :: "usage_schema option \<Rightarrow> (jsstr \<times> usage_field) list" where
  "schema_entries schema = (case schema of Some s \<Rightarrow> s | None \<Rightarrow> [])"

definition getTaskNumberFields :: "jsstr comparison \<Rightarrow> usage_schema option \<Rightarrow> (jsstr \<times> usage_field) list" where
  "getTaskNumberFields cmp schema =
     sort_by (by_name cmp)
       (filter (\<lambda>(k, f). uf_type f = Some UNumberType \<and> uf_unit f \<noteq> None) (schema_entries schema))"

definition enum_values :: "usage_field \<Rightarrow> jsstr list" where
  "enum_values f = (case uf_enum f of Some vs \<Rightarrow> vs | None \<Rightarrow> [])"

definition getTaskEnumFields :: "jsstr comparison \<Rightarrow> usage_schema option \<Rightarrow> (jsstr \<times> usage_field) list" where
  "getTaskEnumFields cmp schema =
     sort_by (by_name cmp) (filter (\<lambda>(k, f). enum_values f \<noteq> []) (schema_entries schema))"

text \<open>One round of the loop: every combination so far with every value of the field.\<close>

definition extend_combinations ::
  "jsstr \<times> usage_field \<Rightarrow> (jsstr, jsstr) orec list \<Rightarrow> (jsstr, jsstr) orec list" where
  "extend_combinations fd combinations =
     concat (map (\<lambda>c. map (\<lambda>v. orec_set (fst fd) v c) (enum_values (snd fd))) combinations)"

definition getTaskEnumCombinations :: "jsstr comparison \<Rightarrow> usage_schema option \<Rightarrow> (jsstr, jsstr) orec list" where
  "getTaskEnumCombinations cmp schema =
     fold extend_combinations (getTaskEnumFields cmp schema) ([] # [])"

definition zero_prices :: "jsstr comparison \<Rightarrow> usage_schema \<Rightarrow> (jsstr, jsnum) orec" where
  "zero_prices cmp schema = map (\<lambda>(field, d). (field, Fin 0)) (getTaskNumberFields cmp (Some schema))"

definition createDefaultTaskVisualConfig :: "jsstr comparison \<Rightarrow> usage_schema \<Rightarrow> task_config" where
  "createDefaultTaskVisualConfig cmp schema =
     [\<lparr>tk_label = js ''base'', tk_conditions = [], tk_constant = Fin 0,
       tk_unitPrices = zero_prices cmp schema\<rparr>]"

definition createDefaultTaskMatrixConfig :: "jsstr comparison \<Rightarrow> usage_schema \<Rightarrow> matrix_config" where
  "createDefaultTaskMatrixConfig cmp schema =
     map (\<lambda>c. \<lparr>mr_combination = c, mr_constant = Fin 0, mr_unitPrices = zero_prices cmp schema\<rparr>)
       (getTaskEnumCombinations cmp (Some schema))"

section \<open>Matrix and tiers\<close>

definition taskMatrixRowLabel :: "jsstr comparison \<Rightarrow> (jsstr, jsstr) orec \<Rightarrow> jsstr" where
  "taskMatrixRowLabel cmp combination =
     (let values = map snd (sort_by (by_name cmp) combination)
      in if values \<noteq> [] then join [183] values else js ''base'')"

definition price_of :: "(jsstr, jsnum) orec \<Rightarrow> jsstr \<Rightarrow> jsnum" where
  "price_of prices field = (case map_of prices field of Some x \<Rightarrow> x | None \<Rightarrow> Fin 0)"

definition prices_for :: "(jsstr \<times> usage_field) list \<Rightarrow> (jsstr, jsnum) orec \<Rightarrow> (jsstr, jsnum) orec" where
  "prices_for numberFields prices = map (\<lambda>(field, d). (field, price_of prices field)) numberFields"

text \<open>\<open>===\<close> on prices that may be missing.\<close>

definition same_price :: "jsnum option \<Rightarrow> jsnum option \<Rightarrow> bool" where
  "same_price a b = (case (a, b) of (Some x, Some y) \<Rightarrow> num_eq x y | (None, None) \<Rightarrow> True | _ \<Rightarrow> False)"

definition uniform_rows :: "(jsstr \<times> usage_field) list \<Rightarrow> matrix_row \<Rightarrow> matrix_config \<Rightarrow> bool" where
  "uniform_rows numberFields first rows =
     list_all (\<lambda>row. num_eq (mr_constant row) (mr_constant first) \<and>
       list_all (\<lambda>(field, d). same_price (map_of (mr_unitPrices row) field) (map_of (mr_unitPrices first) field))
         numberFields) rows"

definition row_conditions :: "jsstr comparison \<Rightarrow> matrix_row \<Rightarrow> task_condition list" where
  "row_conditions cmp row =
     map (\<lambda>(field, value). \<lparr>tk_field = field, tk_value = value\<rparr>) (sort_by (by_name cmp) (mr_combination row))"

text \<open>The rows in order; the last one becomes the fallback without conditions.\<close>

fun row_tiers :: "jsstr comparison \<Rightarrow> (jsstr \<times> usage_field) list \<Rightarrow> matrix_config \<Rightarrow> task_tier list" where
  "row_tiers cmp numberFields [] = []"
| "row_tiers cmp numberFields (row # rows) =
     \<lparr>tk_label = taskMatrixRowLabel cmp (mr_combination row),
      tk_conditions = (if rows = [] then [] else row_conditions cmp row),
      tk_constant = mr_constant row, tk_unitPrices = prices_for numberFields (mr_unitPrices row)\<rparr>
     # row_tiers cmp numberFields rows"

definition taskMatrixToTiers :: "jsstr comparison \<Rightarrow> matrix_config \<Rightarrow> usage_schema \<Rightarrow> task_tier list" where
  "taskMatrixToTiers cmp rows schema =
     (let numberFields = getTaskNumberFields cmp (Some schema) in
      case rows of
        [] \<Rightarrow> []
      | first # _ \<Rightarrow>
          if numberFields = [] then []
          else if uniform_rows numberFields first rows then
            [\<lparr>tk_label = js ''base'', tk_conditions = [], tk_constant = mr_constant first,
              tk_unitPrices = prices_for numberFields (mr_unitPrices first)\<rparr>]
          else row_tiers cmp numberFields rows)"

definition covers :: "(jsstr, jsstr) orec \<Rightarrow> task_tier \<Rightarrow> bool" where
  "covers combination tier =
     list_all (\<lambda>c. map_of combination (tk_field c) = Some (tk_value c)) (tk_conditions tier)"

definition matrix_row_of ::
  "(jsstr \<times> usage_field) list \<Rightarrow> task_tier list \<Rightarrow> task_tier \<Rightarrow> (jsstr, jsstr) orec \<Rightarrow> matrix_row" where
  "matrix_row_of numberFields tiers fallback combination =
     (let tier = (case List.find (covers combination) tiers of Some t \<Rightarrow> t | None \<Rightarrow> fallback)
      in \<lparr>mr_combination = combination, mr_constant = tk_constant tier,
          mr_unitPrices = prices_for numberFields (tk_unitPrices tier)\<rparr>)"

text \<open>The matrix of a tier list, when its last tier is unconditional and no tier repeats a field.\<close>

definition tiers_to_matrix :: "jsstr comparison \<Rightarrow> usage_schema \<Rightarrow> task_tier list \<Rightarrow> matrix_config option" where
  "tiers_to_matrix cmp schema tiers =
     (if tiers = [] then None
      else if tk_conditions (last tiers) \<noteq> [] then None
      else if list_ex (\<lambda>t. \<not> distinct (map tk_field (tk_conditions t))) tiers then None
      else Some (map (matrix_row_of (getTaskNumberFields cmp (Some schema)) tiers (last tiers))
             (getTaskEnumCombinations cmp (Some schema))))"

definition tryParseTaskMatrixConfig ::
  "jsstr comparison \<Rightarrow> jsstr option \<Rightarrow> usage_schema \<Rightarrow> compile_cache \<Rightarrow>
   (expr_error + matrix_config option) \<times> compile_cache" where
  "tryParseTaskMatrixConfig cmp exprStr schema cache =
     (if or_empty exprStr = [] then (Inr None, cache)
      else (let (r, cache) = parseTaskTiersFromExpr (or_empty exprStr) (Some schema) False cache
        in (rbind r (\<lambda>tiers. Inr (tiers_to_matrix cmp schema tiers)), cache)))"

section \<open>The preview of a price\<close>

type_synonym usage_sample = "(jsstr, jsval) orec"

definition sample_value :: "usage_sample \<Rightarrow> jsstr \<Rightarrow> jsval" where
  "sample_value sample field = (case map_of sample field of Some v \<Rightarrow> v | None \<Rightarrow> VUndef)"

definition tier_matches :: "usage_sample \<Rightarrow> task_tier \<Rightarrow> bool" where
  "tier_matches sample tier =
     list_all (\<lambda>c. strict_eq (sample_value sample (tk_field c)) (VStr (tk_value c))) (tk_conditions tier)"

definition matched_tier :: "task_config \<Rightarrow> usage_sample \<Rightarrow> task_tier" where
  "matched_tier tiers sample =
     (case List.find (tier_matches sample) (butlast tiers) of Some t \<Rightarrow> t | None \<Rightarrow> last tiers)"

definition valid_amount :: "jsnum \<Rightarrow> bool" where
  "valid_amount x \<longleftrightarrow> is_finite x \<and> \<not> num_lt x (Fin 0)"

definition is_token_field :: "usage_schema option \<Rightarrow> jsstr \<Rightarrow> bool" where
  "is_token_field schema field =
     (case map_of (schema_entries schema) field of Some d \<Rightarrow> uf_unit d = Some UTokenUnit | None \<Rightarrow> False)"

text \<open>The items of the preview, one per usage fact with a price; nothing when an amount is invalid.\<close>

fun usage_parts ::
  "usage_schema option \<Rightarrow> usage_sample \<Rightarrow> (jsstr, jsnum) orec \<Rightarrow> preview_part list \<Rightarrow> preview_part list option" where
  "usage_parts schema sample [] parts = Some parts"
| "usage_parts schema sample ((field, unitPrice) # prices) parts =
     (if \<not> valid_amount unitPrice then None
      else if is_zero unitPrice then usage_parts schema sample prices parts
      else (let quantity = to_number (sample_value sample field);
                amount = (if is_token_field schema field
                          then num_div (num_mul quantity unitPrice) TASK_TOKEN_PRICE_SCALE
                          else num_mul quantity unitPrice) in
        if \<not> valid_amount quantity then None
        else if \<not> is_finite amount then None
        else usage_parts schema sample prices (parts @ [UsagePart field amount quantity unitPrice])))"

definition preview_parts ::
  "usage_schema option \<Rightarrow> usage_sample \<Rightarrow> task_tier \<Rightarrow> preview_part list option" where
  "preview_parts schema sample tier =
     (let constant = tk_constant tier in
      if \<not> valid_amount constant then None
      else usage_parts schema sample (tk_unitPrices tier)
             (if num_lt (Fin 0) constant then [ConstantPart constant] else []))"

fun part_terms :: "usage_schema option \<Rightarrow> preview_part list \<Rightarrow> jsstr list" where
  "part_terms schema [] = []"
| "part_terms schema (ConstantPart x # ps) = part_terms schema ps"
| "part_terms schema (UsagePart field amount quantity unitPrice # ps) =
     (if field = [] then []
      else [js ''u('' @ json_quote field @ js '') * '' @ num_to_string unitPrice @
            (if is_token_field schema field then js '' / 1000000'' else [])])
     @ part_terms schema ps"

fun part_usage :: "preview_part list \<Rightarrow> usage_sample \<Rightarrow> usage_sample" where
  "part_usage [] usage = usage"
| "part_usage (ConstantPart x # ps) usage = part_usage ps usage"
| "part_usage (UsagePart field amount quantity unitPrice # ps) usage =
     part_usage ps (if field = [] then usage else orec_set field (VNum quantity) usage)"

definition preview_source :: "usage_schema option \<Rightarrow> task_tier \<Rightarrow> preview_part list \<Rightarrow> jsstr" where
  "preview_source schema tier parts =
     js ''tier('' @ json_quote (tk_label tier) @ js '', '' @
     join (js '' + '') (num_to_string (tk_constant tier) # part_terms schema parts) @ js '')''"

definition evaluateTaskVisualConfig ::
  "host \<Rightarrow> task_config \<Rightarrow> usage_sample \<Rightarrow> usage_schema option \<Rightarrow> compile_cache \<Rightarrow>
   preview_result option \<times> compile_cache" where
  "evaluateTaskVisualConfig h tiers sample schema cache =
     (if tiers = [] then (None, cache)
      else (let tier = matched_tier tiers sample in
        case preview_parts schema sample tier of
          None \<Rightarrow> (None, cache)
        | Some parts \<Rightarrow>
            (let (r, cache) = evaluateBillingExpression h (Inl (preview_source schema tier parts))
                   (empty_context\<lparr>ctx_usage := Some (part_usage parts sample)\<rparr>) cache
             in (case r of
                   EvalSuccess e \<Rightarrow> Some \<lparr>pv_tier = tier, pv_total = ev_cost e, pv_parts = parts\<rparr>
                 | EvalFailed f \<Rightarrow> None, cache))))"

section \<open>Tier tables as text\<close>

definition nonneg_or_zero :: "jsnum \<Rightarrow> jsnum" where
  "nonneg_or_zero x = (if is_finite x \<and> num_le (Fin 0) x then x else Fin 0)"

definition default_label :: "int \<Rightarrow> jsstr" where
  "default_label index = (if index = 0 then js ''base'' else js ''tier_'' @ show_int (index + 1))"

definition keep_condition :: "(jsstr \<times> usage_field) list \<Rightarrow> task_condition \<Rightarrow> bool" where
  "keep_condition enumFields c =
     (case map_of enumFields (tk_field c) of Some d \<Rightarrow> tk_value c \<in> set (enum_values d) | None \<Rightarrow> False)"

definition normalize_task_tier :: "jsstr comparison \<Rightarrow> usage_schema \<Rightarrow> int \<Rightarrow> task_tier \<Rightarrow> task_tier" where
  "normalize_task_tier cmp schema index tier =
     \<lparr>tk_label = (if tk_label tier = [] then default_label index else tk_label tier),
      tk_conditions = filter (keep_condition (getTaskEnumFields cmp (Some schema))) (tk_conditions tier),
      tk_constant = nonneg_or_zero (tk_constant tier),
      tk_unitPrices = map (\<lambda>(field, d). (field, case map_of (tk_unitPrices tier) field of
          Some x \<Rightarrow> nonneg_or_zero x | None \<Rightarrow> Fin 0)) (getTaskNumberFields cmp (Some schema))\<rparr>"

fun map_indexed :: "(int \<Rightarrow> 'a \<Rightarrow> 'b) \<Rightarrow> int \<Rightarrow> 'a list \<Rightarrow> 'b list" where
  "map_indexed f i [] = []"
| "map_indexed f i (x # xs) = f i x # map_indexed f (i + 1) xs"

definition normalizeTaskVisualConfig ::
  "jsstr comparison \<Rightarrow> task_config option \<Rightarrow> usage_schema \<Rightarrow> task_config" where
  "normalizeTaskVisualConfig cmp config schema =
     (case config of
        Some (t # ts) \<Rightarrow> map_indexed (normalize_task_tier cmp schema) 0 (t # ts)
      | _ \<Rightarrow> createDefaultTaskVisualConfig cmp schema)"

definition unit_term :: "task_tier \<Rightarrow> jsstr \<times> usage_field \<Rightarrow> jsstr" where
  "unit_term tier fd =
     (let price = num_to_string (price_of (tk_unitPrices tier) (fst fd));
          factor = js ''u('' @ json_quote (fst fd) @ js '') * '' @ price in
      if uf_unit (snd fd) = Some UTokenUnit
      then factor @ js '' / '' @ num_to_string TASK_TOKEN_PRICE_SCALE else factor)"

definition generateTaskTierBody :: "task_tier \<Rightarrow> (jsstr \<times> usage_field) list \<Rightarrow> jsstr" where
  "generateTaskTierBody tier numberFields =
     join (js '' + '')
       ((if num_lt (Fin 0) (tk_constant tier) then [num_to_string (tk_constant tier)] else [])
        @ map (unit_term tier) numberFields)"

definition generateTaskTierCall :: "task_tier \<Rightarrow> (jsstr \<times> usage_field) list \<Rightarrow> jsstr" where
  "generateTaskTierCall tier numberFields =
     js ''tier('' @ json_quote (tk_label tier) @ js '', '' @ generateTaskTierBody tier numberFields @ js '')''"

definition generateTaskCondition :: "task_condition list \<Rightarrow> jsstr" where
  "generateTaskCondition conditions =
     join (js '' && '')
       (map (\<lambda>c. js ''u('' @ json_quote (tk_field c) @ js '') == '' @ json_quote (tk_value c)) conditions)"

text \<open>The branches; nothing when a tier before the last has no condition.\<close>

fun task_branches :: "(jsstr \<times> usage_field) list \<Rightarrow> task_tier list \<Rightarrow> jsstr list option" where
  "task_branches numberFields [] = Some []"
| "task_branches numberFields [tier] = Some [generateTaskTierCall tier numberFields]"
| "task_branches numberFields (tier # tiers) =
     (let condition = generateTaskCondition (tk_conditions tier) in
      if condition = [] then None
      else map_option (\<lambda>bs. (condition @ js '' ? '' @ generateTaskTierCall tier numberFields) # bs)
             (task_branches numberFields tiers))"

definition generateTaskExprFromConfig ::
  "jsstr comparison \<Rightarrow> task_config option \<Rightarrow> usage_schema \<Rightarrow> jsstr" where
  "generateTaskExprFromConfig cmp config schema =
     (let numberFields = getTaskNumberFields cmp (Some schema) in
      if numberFields = [] then []
      else (case task_branches numberFields (normalizeTaskVisualConfig cmp config schema) of
          Some bs \<Rightarrow> join (js '' : '') bs
        | None \<Rightarrow> []))"

definition tryParseTaskVisualConfig ::
  "jsstr comparison \<Rightarrow> jsstr option \<Rightarrow> usage_schema \<Rightarrow> compile_cache \<Rightarrow>
   (expr_error + task_config option) \<times> compile_cache" where
  "tryParseTaskVisualConfig cmp exprStr schema cache =
     (if or_empty exprStr = [] then (Inr None, cache)
      else (let (r, cache) = parseTaskTiersFromExpr (or_empty exprStr) (Some schema) False cache
        in (rbind r (\<lambda>tiers. Inr (if tiers = [] then None
              else Some (normalizeTaskVisualConfig cmp (Some tiers) schema))), cache)))"

section \<open>Usage examples\<close>

record usage_example =
  ex_label :: jsstr
  ex_facts :: usage_sample

fun example_rows ::
  "host \<Rightarrow> task_config \<Rightarrow> usage_schema \<Rightarrow> usage_example list \<Rightarrow> compile_cache \<Rightarrow>
   (jsstr \<times> jsnum) list \<times> compile_cache" where
  "example_rows h config schema [] cache = ([], cache)"
| "example_rows h config schema (x # xs) cache =
     (let (r, cache) = evaluateTaskVisualConfig h config (ex_facts x) (Some schema) cache;
          (rows, cache) = example_rows h config schema xs cache
      in (case r of Some p \<Rightarrow> (ex_label x, pv_total p) # rows | None \<Rightarrow> rows, cache))"

definition evaluateTaskUsageExamples ::
  "host \<Rightarrow> jsstr comparison \<Rightarrow> jsstr option \<Rightarrow> usage_schema option \<Rightarrow> usage_example list option \<Rightarrow>
   compile_cache \<Rightarrow> (expr_error + (jsstr \<times> jsnum) list) \<times> compile_cache" where
  "evaluateTaskUsageExamples h cmp exprStr schema examples cache =
     (case (schema, examples) of
        (Some sch, Some (x # xs)) \<Rightarrow>
          if or_empty exprStr = [] then (Inr [], cache)
          else (case splitBillingExprAndRequestRules (or_empty exprStr) cache of
              (Inl e, cache) \<Rightarrow> (Inl e, cache)
            | (Inr sp, cache) \<Rightarrow>
                (case tryParseTaskVisualConfig cmp (Some (sp_billingExpr sp)) sch cache of
                   (Inl e, cache) \<Rightarrow> (Inl e, cache)
                 | (Inr None, cache) \<Rightarrow> (Inr [], cache)
                 | (Inr (Some config), cache) \<Rightarrow>
                     (let (rows, cache) = example_rows h config sch (x # xs) cache in (Inr rows, cache))))
      | _ \<Rightarrow> (Inr [], cache))"

end
