(* ===== verification/TaskFacts.thy ===== *)
theory TaskFacts
  imports TaskExpr
begin

text \<open>
  Facts on task pricing tables: the combinations of enum values are the full product, and a price
  matrix is recovered from the tiers it is turned into.
\<close>

section \<open>Combinations\<close>

text \<open>A combination chooses one declared value for every enum field.\<close>

definition chooses :: "(jsstr \<times> usage_field) list \<Rightarrow> (jsstr, jsstr) orec \<Rightarrow> bool" where
  "chooses fs c \<longleftrightarrow> list_all2 (\<lambda>fd e. fst e = fst fd \<and> snd e \<in> set (enum_values (snd fd))) fs c"

lemma chooses_keys: "chooses fs c \<Longrightarrow> map fst c = map fst fs"
  unfolding chooses_def by (induction fs c rule: list_all2_induct) auto

lemma chooses_snoc:
  "chooses (fs @ [fd]) c \<longleftrightarrow> (\<exists>c' v. c = c' @ [(fst fd, v)] \<and> chooses fs c' \<and> v \<in> set (enum_values (snd fd)))"
proof
  assume "chooses (fs @ [fd]) c"
  then obtain us e where "c = us @ [e]" "chooses fs us" "fst e = fst fd" "snd e \<in> set (enum_values (snd fd))"
    by (auto simp: chooses_def list_all2_append1 list_all2_Cons1)
  then show "\<exists>c' v. c = c' @ [(fst fd, v)] \<and> chooses fs c' \<and> v \<in> set (enum_values (snd fd))"
    by (metis prod.collapse)
qed (auto simp: chooses_def intro!: list_all2_appendI)

lemma chooses_new:
  assumes "distinct (map fst (fs @ [fd]))" and "chooses fs c"
  shows "orec_set (fst fd) v c = c @ [(fst fd, v)]"
proof (rule orec_set_new)
  have "set (map fst c) = set (map fst fs)" using chooses_keys[OF assms(2)] by (rule arg_cong)
  then show "fst fd \<notin> fst ` set c" using assms(1) by simp
qed

text \<open>Extending all choices of some fields by one more field.\<close>

lemma extend_choices:
  assumes "distinct (map fst (fs @ [fd]))" and "set cs = {c. chooses fs c}"
  shows "extend_combinations fd cs = map (\<lambda>(c, v). c @ [(fst fd, v)]) (List.product cs (enum_values (snd fd)))"
proof -
  have "map (\<lambda>v. orec_set (fst fd) v c) vs = map (\<lambda>v. c @ [(fst fd, v)]) vs" if "c \<in> set cs" for c vs
    using chooses_new[OF assms(1), of c] that assms(2) by simp
  then have eq: "map (\<lambda>c. map (\<lambda>v. orec_set (fst fd) v c) (enum_values (snd fd))) cs =
      map (\<lambda>c. map (\<lambda>v. c @ [(fst fd, v)]) (enum_values (snd fd))) cs" by simp
  show ?thesis
    unfolding extend_combinations_def eq by (simp add: product_concat_map map_concat comp_def)
qed

lemma combinations_fold:
  assumes "distinct (map fst fs)"
  shows "set (fold extend_combinations fs [[]]) = {c. chooses fs c}"
  using assms
proof (induction fs rule: rev_induct)
  case Nil
  then show ?case by (auto simp: chooses_def)
next
  case (snoc fd fs)
  have IH: "set (fold extend_combinations fs [[]]) = {c. chooses fs c}" using snoc by simp
  have "set (extend_combinations fd (fold extend_combinations fs [[]])) = {c. chooses (fs @ [fd]) c}"
    unfolding extend_choices[OF snoc.prems IH] chooses_snoc using IH by (auto simp: image_iff)
  then show ?case by simp
qed

lemma distinct_combinations_fold:
  assumes "distinct (map fst fs)" and "list_all (\<lambda>fd. distinct (enum_values (snd fd))) fs"
  shows "distinct (fold extend_combinations fs [[]])"
  using assms
proof (induction fs rule: rev_induct)
  case (snoc fd fs)
  let ?cs = "fold extend_combinations fs [[]]"
  have set: "set ?cs = {c. chooses fs c}" using combinations_fold snoc.prems(1) by simp
  have "distinct ?cs" "distinct (enum_values (snd fd))" using snoc by auto
  then have "distinct (List.product ?cs (enum_values (snd fd)))" by (rule distinct_product)
  then have "distinct (extend_combinations fd ?cs)"
    unfolding extend_choices[OF snoc.prems(1) set] by (auto simp: distinct_map inj_on_def)
  then show ?case by simp
qed simp

lemma enum_fields_distinct: "distinct (map fst schema) \<Longrightarrow> distinct (map fst (getTaskEnumFields cmp (Some schema)))"
  by (simp add: getTaskEnumFields_def schema_entries_def distinct_map_filter)

lemma enum_field_values: "fd \<in> set (getTaskEnumFields cmp (Some schema)) \<Longrightarrow> fd \<in> set schema \<and> enum_values (snd fd) \<noteq> []"
  by (auto simp: getTaskEnumFields_def schema_entries_def)

text \<open>
  C29. The combinations of a schema are the full product of its enum fields: with distinct field
  names they are exactly the choices of one declared value for every enum field, in the order of
  the fields, and none is repeated when no field declares a value twice.
\<close>

theorem enum_combinations_product:
  assumes "distinct (map fst schema)"
  shows "set (getTaskEnumCombinations cmp (Some schema)) = {c. chooses (getTaskEnumFields cmp (Some schema)) c} \<and>
    (list_all (\<lambda>fd. distinct (enum_values (snd fd))) schema \<longrightarrow> distinct (getTaskEnumCombinations cmp (Some schema)))"
  using combinations_fold[OF enum_fields_distinct[OF assms]]
    distinct_combinations_fold[OF enum_fields_distinct[OF assms]] enum_field_values
  by (fastforce simp: getTaskEnumCombinations_def list_all_iff)

definition demo_enum :: "string list \<Rightarrow> usage_field" where
  "demo_enum vs = \<lparr>uf_type = None, uf_unit = None, uf_enum = Some (map js vs)\<rparr>"

definition demo_schema :: usage_schema where
  "demo_schema = [(js ''resolution'', demo_enum [''720p'', ''1080p'']), (js ''audio'', demo_enum [''on'', ''off'']),
     (js ''seconds'', \<lparr>uf_type = Some UNumberType, uf_unit = Some UTokenUnit, uf_enum = None\<rparr>)]"

theorem enum_combinations_product_witness:
  "chooses (getTaskEnumFields str_cmp (Some demo_schema)) [(js ''audio'', js ''on''), (js ''resolution'', js ''1080p'')]"
proof -
  have d: "distinct (map fst demo_schema)"
    "[(js ''audio'', js ''on''), (js ''resolution'', js ''1080p'')] \<in> set (getTaskEnumCombinations str_cmp (Some demo_schema))"
    by code_simp+
  from enum_combinations_product[OF d(1)] d(2) show ?thesis by blast
qed

section \<open>From a matrix to tiers and back\<close>

text \<open>A price as the editor keeps it: no negative zero.\<close>

definition plain_price :: "jsnum \<Rightarrow> bool" where
  "plain_price x \<longleftrightarrow> x \<noteq> NegZero"

text \<open>A complete matrix: a row for every combination, with the number fields in order.\<close>

definition matrix_ok :: "jsstr comparison \<Rightarrow> usage_schema \<Rightarrow> matrix_config \<Rightarrow> bool" where
  "matrix_ok cmp schema rows \<longleftrightarrow>
     map mr_combination rows = getTaskEnumCombinations cmp (Some schema) \<and>
     list_all (\<lambda>row. plain_price (mr_constant row) \<and> list_all (\<lambda>p. plain_price (snd p)) (mr_unitPrices row) \<and>
       prices_for (getTaskNumberFields cmp (Some schema)) (mr_unitPrices row) = mr_unitPrices row) rows"

definition schema_ok :: "jsstr comparison \<Rightarrow> usage_schema \<Rightarrow> bool" where
  "schema_ok cmp schema \<longleftrightarrow> distinct (map fst schema) \<and>
     list_all (\<lambda>fd. distinct (enum_values (snd fd))) schema \<and> getTaskNumberFields cmp (Some schema) \<noteq> []"

lemma plain_eq: "plain_price x \<Longrightarrow> plain_price y \<Longrightarrow> num_eq x y \<Longrightarrow> x = y"
  by (cases x; cases y) (auto simp: plain_price_def num_eq_def)

lemma map_of_prices_for:
  "map_of (prices_for nf p) f = (if f \<in> fst ` set nf then Some (price_of p f) else None)"
  by (induction nf) (auto simp: prices_for_def)

lemma prices_for_cong:
  assumes "\<And>f. f \<in> fst ` set nf \<Longrightarrow> price_of p f = price_of q f"
  shows "prices_for nf p = prices_for nf q"
  unfolding prices_for_def by (rule map_cong[OF refl]) (use assms in force)

lemma prices_for_idem: "prices_for nf (prices_for nf p) = prices_for nf p"
  by (rule prices_for_cong) (simp add: price_of_def[of "prices_for nf p"] map_of_prices_for)

text \<open>Association lists with the same keys that agree are equal.\<close>

lemma same_keys_eq:
  assumes "map fst a = map fst b" and "distinct (map fst b)" and "list_all (\<lambda>(k, v). map_of b k = Some v) a"
  shows "a = b"
proof (rule nth_equalityI)
  show len: "length a = length b" using assms(1) by (metis length_map)
  fix i assume i: "i < length a"
  have k: "fst (a ! i) = fst (b ! i)" using assms(1) i len by (metis nth_map)
  have "map_of b (fst (b ! i)) = Some (snd (b ! i))" using assms(2) i len by (simp add: map_of_eq_Some_iff)
  moreover have "map_of b (fst (a ! i)) = Some (snd (a ! i))" using assms(3) i by (auto simp: list_all_length split: prod.splits)
  ultimately show "a ! i = b ! i" using k by (simp add: prod_eq_iff)
qed

lemma covers_row:
  "covers c \<lparr>tk_label = l, tk_conditions = row_conditions cmp row, tk_constant = x, tk_unitPrices = p\<rparr> \<longleftrightarrow>
     list_all (\<lambda>(k, v). map_of c k = Some v) (mr_combination row)"
  by (auto simp: covers_def row_conditions_def list_all_iff)

lemma covers_fallback: "covers c \<lparr>tk_label = l, tk_conditions = [], tk_constant = x, tk_unitPrices = p\<rparr>"
  by (simp add: covers_def)

lemma covers_own:
  "distinct (map fst (mr_combination row)) \<Longrightarrow> list_all (\<lambda>(k, v). map_of (mr_combination row) k = Some v) (mr_combination row)"
  by (auto simp: list_all_iff map_of_eq_Some_iff)

lemma find_row_tier:
  assumes "row \<in> set rows" and "distinct (map mr_combination rows)"
    and "\<And>r. r \<in> set rows \<Longrightarrow> map fst (mr_combination r) = ks" and "distinct ks"
  shows "\<exists>t. List.find (covers (mr_combination row)) (row_tiers cmp nf rows) = Some t \<and>
    tk_constant t = mr_constant row \<and> tk_unitPrices t = prices_for nf (mr_unitPrices row)"
  using assms(1-3)
proof (induction rows)
  case (Cons r rows)
  note ks = Cons.prems(3)
  show ?case
  proof (cases "row = r")
    case True
    then have "list_all (\<lambda>(k, v). map_of (mr_combination row) k = Some v) (mr_combination r)"
      using covers_own[of row] ks[of row] assms(4) by simp
    then show ?thesis using True by (simp add: covers_row covers_fallback)
  next
    case False
    then have row: "row \<in> set rows" "rows \<noteq> []" using Cons.prems(1) by auto
    then have "mr_combination r \<noteq> mr_combination row" using Cons.prems(2) by auto
    moreover have "map fst (mr_combination r) = map fst (mr_combination row)" "distinct (map fst (mr_combination row))"
      using ks[of r] ks[of row] row assms(4) by simp_all
    ultimately have "\<not> list_all (\<lambda>(k, v). map_of (mr_combination row) k = Some v) (mr_combination r)"
      using same_keys_eq by blast
    then show ?thesis using Cons.IH row Cons.prems(2,3) by (simp add: covers_row)
  qed
qed simp

lemma row_tiers_last: "rows \<noteq> [] \<Longrightarrow> row_tiers cmp nf rows \<noteq> [] \<and> tk_conditions (last (row_tiers cmp nf rows)) = []"
  by (induction rows) auto

lemma row_conditions_fields:
  "distinct (map fst (mr_combination row)) \<Longrightarrow> distinct (map tk_field (row_conditions cmp row))"
  by (simp add: row_conditions_def comp_def case_prod_beta)

lemma row_tiers_fields:
  assumes "\<And>r. r \<in> set rows \<Longrightarrow> distinct (map fst (mr_combination r))"
  shows "\<not> list_ex (\<lambda>t. \<not> distinct (map tk_field (tk_conditions t))) (row_tiers cmp nf rows)"
  using assms by (induction rows) (simp_all add: row_conditions_fields)

lemma combinations_not_Nil:
  assumes "distinct (map fst schema)"
  shows "getTaskEnumCombinations cmp (Some schema) \<noteq> []"
proof -
  let ?fs = "getTaskEnumFields cmp (Some schema)"
  have "chooses ?fs (map (\<lambda>fd. (fst fd, hd (enum_values (snd fd)))) ?fs)"
    using enum_field_values[of _ cmp schema] by (auto simp: chooses_def list_all2_map2 list_all2_same)
  then have "map (\<lambda>fd. (fst fd, hd (enum_values (snd fd)))) ?fs \<in> set (getTaskEnumCombinations cmp (Some schema))"
    using combinations_fold[OF enum_fields_distinct[OF assms]] by (simp add: getTaskEnumCombinations_def)
  then show ?thesis by auto
qed

text \<open>In a matrix with equal rows every row is the first one up to its combination.\<close>

lemma uniform_row:
  assumes "uniform_rows nf first rows" and "row \<in> set rows"
    and "plain_price (mr_constant row)" "list_all (\<lambda>p. plain_price (snd p)) (mr_unitPrices row)"
    and "prices_for nf (mr_unitPrices row) = mr_unitPrices row"
    and "plain_price (mr_constant first)" "list_all (\<lambda>p. plain_price (snd p)) (mr_unitPrices first)"
    and "prices_for nf (mr_unitPrices first) = mr_unitPrices first"
  shows "mr_constant row = mr_constant first" and "mr_unitPrices row = mr_unitPrices first"
proof -
  show "mr_constant row = mr_constant first"
    using assms(1,2,3,6) by (auto simp: uniform_rows_def list_all_iff intro: plain_eq)
  have "price_of (mr_unitPrices row) f = price_of (mr_unitPrices first) f" if "f \<in> fst ` set nf" for f
  proof -
    have m: "map_of (mr_unitPrices row) f = Some (price_of (mr_unitPrices row) f)"
      "map_of (mr_unitPrices first) f = Some (price_of (mr_unitPrices first) f)"
      using map_of_prices_for[of nf "mr_unitPrices row" f] map_of_prices_for[of nf "mr_unitPrices first" f] that assms(5,8)
      by simp_all
    then have "num_eq (price_of (mr_unitPrices row) f) (price_of (mr_unitPrices first) f)"
      using assms(1,2) that by (fastforce simp: uniform_rows_def list_all_iff same_price_def)
    moreover have "plain_price (price_of (mr_unitPrices row) f)" "plain_price (price_of (mr_unitPrices first) f)"
      using m[THEN map_of_SomeD] assms(4,7) by (auto simp: list_all_iff)
    ultimately show ?thesis by (intro plain_eq)
  qed
  then have "prices_for nf (mr_unitPrices row) = prices_for nf (mr_unitPrices first)" by (rule prices_for_cong)
  then show "mr_unitPrices row = mr_unitPrices first" using assms(5,8) by simp
qed

lemma matrix_combinations:
  assumes "distinct (map fst schema)" and "list_all (\<lambda>fd. distinct (enum_values (snd fd))) schema"
    and "map mr_combination rows = getTaskEnumCombinations cmp (Some schema)"
  shows "distinct (map mr_combination rows)"
    and "row \<in> set rows \<Longrightarrow> map fst (mr_combination row) = map fst (getTaskEnumFields cmp (Some schema))"
proof -
  let ?fs = "getTaskEnumFields cmp (Some schema)"
  note fd = enum_fields_distinct[OF assms(1), of cmp]
  have "list_all (\<lambda>fd. distinct (enum_values (snd fd))) ?fs"
    using assms(2) enum_field_values[of _ cmp schema] by (auto simp: list_all_iff)
  then show "distinct (map mr_combination rows)"
    unfolding assms(3) getTaskEnumCombinations_def by (rule distinct_combinations_fold[OF fd])
  assume "row \<in> set rows"
  then have "mr_combination row \<in> set (map mr_combination rows)" by simp
  then show "map fst (mr_combination row) = map fst ?fs"
    unfolding assms(3) getTaskEnumCombinations_def combinations_fold[OF fd] using chooses_keys by blast
qed

text \<open>
  C9. A price matrix survives its tier form. For a schema with distinct names, the tiers made from a
  complete matrix read back as the same matrix: every combination finds the tier of its own row
  first, the last row serves as the unconditional fallback, and rows that are all equal are
  restored from the single tier they collapse to.
\<close>

theorem matrix_tiers_round_trip:
  assumes "schema_ok cmp schema" and "matrix_ok cmp schema rows"
  shows "tiers_to_matrix cmp schema (taskMatrixToTiers cmp rows schema) = Some rows"
proof -
  let ?nf = "getTaskNumberFields cmp (Some schema)" and ?fs = "getTaskEnumFields cmp (Some schema)"
  have s: "distinct (map fst schema)" "list_all (\<lambda>fd. distinct (enum_values (snd fd))) schema" "?nf \<noteq> []"
    using assms(1) by (simp_all add: schema_ok_def)
  have c: "map mr_combination rows = getTaskEnumCombinations cmp (Some schema)"
    and r: "\<And>row. row \<in> set rows \<Longrightarrow> plain_price (mr_constant row) \<and> list_all (\<lambda>p. plain_price (snd p)) (mr_unitPrices row) \<and>
      prices_for ?nf (mr_unitPrices row) = mr_unitPrices row"
    using assms(2) by (simp_all add: matrix_ok_def list_all_iff)
  note fd = enum_fields_distinct[OF s(1), of cmp] and dist = matrix_combinations(1)[OF s(1,2) c]
    and keys = matrix_combinations(2)[OF s(1,2) c]
  obtain first rest where rows: "rows = first # rest"
    using combinations_not_Nil[OF s(1), of cmp] c by (cases rows) auto
  show ?thesis
  proof (cases "uniform_rows ?nf first rows")
    case True
    let ?t = "\<lparr>tk_label = js ''base'', tk_conditions = [], tk_constant = mr_constant first,
        tk_unitPrices = prices_for ?nf (mr_unitPrices first)\<rparr>"
    have t: "taskMatrixToTiers cmp rows schema = [?t]" using True rows s(3) by (simp add: taskMatrixToTiers_def)
    have "matrix_row_of ?nf [?t] ?t (mr_combination row) = row" if "row \<in> set rows" for row
      using uniform_row[OF True that] r[OF that] r[of first] rows
      by (cases row) (simp add: matrix_row_of_def covers_fallback prices_for_idem)
    then have "map (matrix_row_of ?nf [?t] ?t) (map mr_combination rows) = rows"
      unfolding map_map by (intro map_idI) simp
    then show ?thesis unfolding t tiers_to_matrix_def c[symmetric] by simp
  next
    case False
    let ?ts = "row_tiers cmp ?nf rows"
    have t: "taskMatrixToTiers cmp rows schema = ?ts" using False rows s(3) by (simp add: taskMatrixToTiers_def Let_def)
    have "matrix_row_of ?nf ?ts (last ?ts) (mr_combination row) = row" if row: "row \<in> set rows" for row
    proof -
      obtain t where "List.find (covers (mr_combination row)) ?ts = Some t" "tk_constant t = mr_constant row"
        "tk_unitPrices t = prices_for ?nf (mr_unitPrices row)"
        using find_row_tier[OF row dist keys fd] by blast
      then show ?thesis using r[OF row] by (cases row) (simp add: matrix_row_of_def)
    qed
    then have m: "map (matrix_row_of ?nf ?ts (last ?ts)) (map mr_combination rows) = rows"
      unfolding map_map by (intro map_idI) simp
    have "?ts \<noteq> []" "tk_conditions (last ?ts) = []" using row_tiers_last[of rows] rows by blast+
    moreover have "\<not> list_ex (\<lambda>t. \<not> distinct (map tk_field (tk_conditions t))) ?ts"
      using keys fd by (intro row_tiers_fields) simp
    ultimately show ?thesis unfolding t tiers_to_matrix_def c[symmetric] using m by simp
  qed
qed

definition demo_row :: "string \<Rightarrow> string \<Rightarrow> rat \<Rightarrow> matrix_row" where
  "demo_row a r x = \<lparr>mr_combination = [(js ''audio'', js a), (js ''resolution'', js r)], mr_constant = Fin 0,
     mr_unitPrices = [(js ''seconds'', Fin x)]\<rparr>"

definition demo_matrix :: matrix_config where
  "demo_matrix = [demo_row ''on'' ''720p'' 3, demo_row ''on'' ''1080p'' 5, demo_row ''off'' ''720p'' 2, demo_row ''off'' ''1080p'' 4]"

theorem matrix_tiers_round_trip_witness:
  "tiers_to_matrix str_cmp demo_schema (taskMatrixToTiers str_cmp demo_matrix demo_schema) = Some demo_matrix"
proof -
  have "schema_ok str_cmp demo_schema" "matrix_ok str_cmp demo_schema demo_matrix" by code_simp+
  then show ?thesis by (rule matrix_tiers_round_trip)
qed

end
