(* ===== verification/TierExpr.thy ===== *)
theory TierExpr
  imports BillingExpr JsArray
begin

text \<open>
  \<open>pricing/lib/tier-expr.ts\<close>: the table form of token tiers, its text form, the reader that
  recognises text written from a table, and the local cost estimator.
\<close>

section \<open>Tables\<close>

datatype cache_mode = Timed | Generic

record tier_condition_input =
  ci_var :: jsstr
  ci_op :: jsstr
  ci_value :: jsval

text \<open>
  A row some of whose fields may be missing; \<open>vt_costs\<close> holds the fields named \<open>..._unit_cost\<close>.
\<close>

record visual_tier =
  vt_billing_unit :: "billing_unit option"
  vt_fixed_price :: "jsstr option"
  vt_label :: "jsstr option"
  vt_conditions :: "tier_condition_input list option"
  vt_cache_mode :: "cache_mode option"
  vt_costs :: "(jsstr, jsval) orec"

type_synonym visual_config = "visual_tier list"

definition empty_tier :: visual_tier where
  "empty_tier = \<lparr>vt_billing_unit = None, vt_fixed_price = None, vt_label = None, vt_conditions = None,
     vt_cache_mode = None, vt_costs = []\<rparr>"

definition cost_of :: "visual_tier \<Rightarrow> jsstr \<Rightarrow> jsnum" where
  "cost_of tier field =
     to_number (case map_of (vt_costs tier) field of Some v \<Rightarrow> v | None \<Rightarrow> VUndef)"

definition getTierCacheMode :: "visual_tier \<Rightarrow> cache_mode" where
  "getTierCacheMode tier =
     (case vt_cache_mode tier of
        Some m \<Rightarrow> m
      | None \<Rightarrow> if num_lt (Fin 0) (cost_of tier (js ''cache_create_1h_unit_cost'')) then Timed else Generic)"

definition normalized_fields :: "jsstr list" where
  "normalized_fields =
     [js ''cache_read_unit_cost'', js ''cache_create_unit_cost'', js ''cache_create_1h_unit_cost'',
      js ''image_unit_cost'', js ''image_output_unit_cost'', js ''audio_input_unit_cost'',
      js ''audio_output_unit_cost'']"

text \<open>Defaults first, then the fields of the row, then seven cost fields as numbers.\<close>

definition normalizeVisualTier :: "visual_tier \<Rightarrow> visual_tier" where
  "normalizeVisualTier tier =
     (let number = (\<lambda>f. VNum (number_or_zero (cost_of tier f)));
          defaults = [(js ''input_unit_cost'', number (js ''input_unit_cost'')),
                      (js ''output_unit_cost'', number (js ''output_unit_cost''))];
          spread = foldl (\<lambda>r (k, v). orec_set k v r) defaults (vt_costs tier)
      in \<lparr>vt_billing_unit = vt_billing_unit tier, vt_fixed_price = vt_fixed_price tier,
          vt_label = Some (or_empty (vt_label tier)),
          vt_conditions = Some (case vt_conditions tier of Some cs \<Rightarrow> cs | None \<Rightarrow> []),
          vt_cache_mode = Some (getTierCacheMode tier),
          vt_costs = foldl (\<lambda>r f. orec_set f (number f) r) spread normalized_fields\<rparr>)"

definition createDefaultVisualConfig :: visual_config where
  "createDefaultVisualConfig =
     [normalizeVisualTier (empty_tier\<lparr>vt_conditions := Some [], vt_label := Some (js ''base''),
        vt_cache_mode := Some Generic,
        vt_costs := [(js ''input_unit_cost'', VNum (Fin 0)), (js ''output_unit_cost'', VNum (Fin 0))]\<rparr>)]"

definition normalizeVisualConfig :: "visual_config option \<Rightarrow> visual_config" where
  "normalizeVisualConfig config =
     (case config of
        Some (t # ts) \<Rightarrow> map normalizeVisualTier (t # ts)
      | _ \<Rightarrow> createDefaultVisualConfig)"

section \<open>Tables as text\<close>

definition condition_given :: "tier_condition_input \<Rightarrow> bool" where
  "condition_given c \<longleftrightarrow> ci_var c \<noteq> [] \<and> ci_op c \<noteq> [] \<and> \<not> is_nullish (ci_value c) \<and> ci_value c \<noteq> VStr []"

definition buildConditionStr :: "tier_condition_input list \<Rightarrow> jsstr" where
  "buildConditionStr conditions =
     join (js '' && '')
       (map (\<lambda>c. ci_var c @ js '' '' @ ci_op c @ js '' '' @ to_string (ci_value c))
         (filter condition_given conditions))"

definition buildTierBodyExpr :: "visual_tier \<Rightarrow> jsstr" where
  "buildTierBodyExpr tier =
     (if vt_billing_unit tier = Some URequest then js ''fixed('' @ or_empty (vt_fixed_price tier) @ js '')''
      else (let number = (\<lambda>f. number_or_zero (cost_of tier f)) in
        join (js '' + '')
          ([js ''p * '' @ num_to_string (number (js ''input_unit_cost'')),
            js ''c * '' @ num_to_string (number (js ''output_unit_cost''))]
           @ map (\<lambda>(field, exprVar). exprVar @ js '' * '' @ num_to_string (number field))
               (filter (\<lambda>(field, exprVar). \<not> is_zero (number field)) BILLING_CACHE_VAR_MAP))))"

definition tier_call :: "jsstr \<Rightarrow> visual_tier \<Rightarrow> jsstr" where
  "tier_call fallback tier =
     js ''tier('' @ dq @ (if or_empty (vt_label tier) = [] then fallback else or_empty (vt_label tier)) @ dq
     @ js '', '' @ buildTierBodyExpr tier @ js '')''"

definition tier_conditions :: "visual_tier \<Rightarrow> jsstr" where
  "tier_conditions tier = buildConditionStr (case vt_conditions tier of Some cs \<Rightarrow> cs | None \<Rightarrow> [])"

text \<open>The loop over two tiers or more, from the one with index \<open>i\<close> on.\<close>

fun tier_parts :: "int \<Rightarrow> visual_tier list \<Rightarrow> jsstr list" where
  "tier_parts i [] = []"
| "tier_parts i (tier # tiers) =
     (let body = tier_call (js ''tier_'' @ show_int (i + 1)) tier; cond = tier_conditions tier in
      if tiers \<noteq> [] \<and> cond \<noteq> [] then cond @ js '' ? '' @ body else body) # tier_parts (i + 1) tiers"

definition generateExprFromVisualConfig :: "visual_config option \<Rightarrow> jsstr" where
  "generateExprFromVisualConfig config =
     (case config of
        None \<Rightarrow> js ''p * 0 + c * 0''
      | Some [] \<Rightarrow> js ''p * 0 + c * 0''
      | Some [tier] \<Rightarrow>
          (let body = tier_call (js ''default'') tier; cond = tier_conditions tier in
           if cond \<noteq> [] then cond @ js '' ? '' @ body @ js '' : p * 0 + c * 0'' else body)
      | Some tiers \<Rightarrow> join (js '' : '') (tier_parts 0 tiers))"

section \<open>Reading text back\<close>

abbreviation ws :: rx where
  "ws \<equiv> RRun is_space"

text \<open>\<open>v * number\<close> with any white space, the number in group \<open>n\<close>.\<close>

definition price_rx :: "jsstr \<Rightarrow> int \<Rightarrow> rx" where
  "price_rx v n = RSeqs [RLit v, ws, RLit (js ''*''), ws, RGroup n (RPlus rx_numeric)]"

fun optional_prices :: "jsstr list \<Rightarrow> int \<Rightarrow> rx list" where
  "optional_prices [] n = []"
| "optional_prices (v # vs) n =
     ROpt (RSeqs [ws, RLit (js ''+''), ws, price_rx v n]) # optional_prices vs (n + 1)"

text \<open>The body of a tier, its first price in group \<open>n\<close>.\<close>

definition body_rx :: "int \<Rightarrow> rx" where
  "body_rx n =
     RSeqs ([price_rx (js ''p'') n, ws, RLit (js ''+''), ws, price_rx (js ''c'') (n + 1)]
            @ optional_prices (map snd BILLING_CACHE_VAR_MAP) (n + 2))"

definition tier_rx :: "int \<Rightarrow> rx" where
  "tier_rx n =
     RSeqs [RLit (js ''tier('' @ dq), RGroup n (RRun rx_not_quote), RLit (dq @ js '',''), ws, body_rx (n + 1),
            RLit (js '')'')]"

definition rx_unsigned :: "jschar \<Rightarrow> bool" where
  "rx_unsigned c \<longleftrightarrow> is_digit c \<or> c \<in> {46, 101, 69, 43}"

definition comparison_rx :: rx where
  "comparison_rx =
     RSeqs [rx_words [js ''p'', js ''c'', js ''len''], ws, rx_words [js ''<'', js ''<='', js ''>'', js ''>=''], ws,
            RPlus rx_unsigned]"

definition cond_group_rx :: rx where
  "cond_group_rx =
     RGroup 1 (RSeq comparison_rx (RStar (RSeqs [ws, RLit (js ''&&''), ws, comparison_rx])))"

definition branch_rx :: rx where
  "branch_rx = RSeq (ROpt (RSeqs [cond_group_rx, ws, RLit (js ''?''), ws])) (tier_rx 2)"

definition comparison_groups_rx :: rx where
  "comparison_groups_rx =
     RSeqs [RGroup 1 (rx_words [js ''p'', js ''c'', js ''len'']), ws,
            RGroup 2 (rx_words [js ''<'', js ''<='', js ''>'', js ''>='']), ws, RGroup 3 (RPlus rx_unsigned)]"

definition version_rx :: rx where
  "version_rx = RSeqs [RLit (js ''v''), RPlus is_digit, RLit (js '':''), RGroup 1 (RRun (\<lambda>c. True))]"

definition strip_version :: "jsstr \<Rightarrow> jsstr" where
  "strip_version s = (case match_all version_rx s of Some m \<Rightarrow> cap_text 1 m | None \<Rightarrow> s)"

text \<open>The pieces between the double ampersands.\<close>

fun split_and :: "jsstr \<Rightarrow> jsstr \<Rightarrow> jsstr list" where
  "split_and acc [] = acc # []"
| "split_and acc [c] = (acc @ [c]) # []"
| "split_and acc (c # d # s) =
     (if c = 38 \<and> d = 38 then acc # split_and [] s else split_and (acc @ [c]) (d # s))"

definition read_comparison_text :: "jsstr \<Rightarrow> tier_condition_input list" where
  "read_comparison_text cp =
     (case match_all comparison_groups_rx (trim cp) of
        Some m \<Rightarrow> [\<lparr>ci_var = cap_text 1 m, ci_op = cap_text 2 m, ci_value = VNum (js_number (cap_text 3 m))\<rparr>]
      | None \<Rightarrow> [])"

definition read_conditions :: "jsstr \<Rightarrow> tier_condition_input list" where
  "read_conditions condStr =
     (if condStr = [] then [] else concat (map read_comparison_text (split_and [] condStr)))"

text \<open>The optional prices in the groups from \<open>n\<close> on.\<close>

fun read_costs :: "captures \<Rightarrow> (jsstr \<times> jsstr) list \<Rightarrow> int \<Rightarrow> (jsstr, jsval) orec" where
  "read_costs m [] n = []"
| "read_costs m ((field, exprVar) # fs) n =
     (case cap n m of
        Some t \<Rightarrow> (field, VNum (js_number t)) # read_costs m fs (n + 1)
      | None \<Rightarrow> read_costs m fs (n + 1))"

definition read_row :: "captures \<Rightarrow> tier_condition_input list \<Rightarrow> int \<Rightarrow> visual_tier" where
  "read_row m conditions n =
     normalizeVisualTier (empty_tier\<lparr>vt_conditions := Some conditions, vt_label := Some (cap_text n m),
       vt_costs := [(js ''input_unit_cost'', VNum (js_number (cap_text (n + 1) m))),
                    (js ''output_unit_cost'', VNum (js_number (cap_text (n + 2) m)))]
                   @ read_costs m BILLING_CACHE_VAR_MAP (n + 3)\<rparr>)"

definition without_spaces :: "jsstr \<Rightarrow> jsstr" where
  "without_spaces s = filter (\<lambda>c. \<not> is_space c) s"

definition tryParseVisualConfig :: "jsstr option \<Rightarrow> visual_config option" where
  "tryParseVisualConfig exprStr =
     (if or_empty exprStr = [] then None
      else (let body = strip_version (or_empty exprStr) in
        case match_all (tier_rx 1) body of
          Some m \<Rightarrow> Some (normalizeVisualConfig (Some [read_row m [] 1]))
        | None \<Rightarrow>
            (let tiers = map (\<lambda>m. read_row m (read_conditions (cap_text 1 m)) 2) (exec_all branch_rx body);
                 cfg = normalizeVisualConfig (Some tiers) in
             if tiers = [] then None
             else if without_spaces (generateExprFromVisualConfig (Some cfg)) \<noteq> without_spaces body then None
             else Some cfg)))"

section \<open>The estimator\<close>

record extra_tokens =
  cacheReadTokens :: jsnum
  cacheCreateTokens :: jsnum
  cacheCreate1hTokens :: jsnum
  imageTokens :: jsnum
  imageCacheTokens :: jsnum
  imageOutputTokens :: jsnum
  audioInputTokens :: jsnum
  audioOutputTokens :: jsnum

definition ESTIMATOR_VARS :: "(jsstr \<times> (extra_tokens \<Rightarrow> jsnum)) list" where
  "ESTIMATOR_VARS =
     [(js ''cr'', cacheReadTokens), (js ''cc'', cacheCreateTokens), (js ''cc1h'', cacheCreate1hTokens),
      (js ''img'', imageTokens), (js ''img_cr'', imageCacheTokens), (js ''img_o'', imageOutputTokens),
      (js ''ai'', audioInputTokens), (js ''ao'', audioOutputTokens)]"

definition buildEstimatorTokens :: "jsnum \<Rightarrow> jsnum \<Rightarrow> extra_tokens \<Rightarrow> (jsstr, jsval) orec" where
  "buildEstimatorTokens promptTokens completionTokens x =
     [(js ''p'', VNum promptTokens), (js ''c'', VNum completionTokens),
      (js ''len'', VNum (foldl num_add promptTokens
        [cacheReadTokens x, imageCacheTokens x, imageTokens x, audioInputTokens x, cacheCreateTokens x,
         cacheCreate1hTokens x]))]
     @ map (\<lambda>(v, get). (v, VNum (get x))) ESTIMATOR_VARS"

record local_result =
  lr_cost :: jsnum
  lr_matchedTier :: jsstr
  lr_error :: "jsstr option"
  lr_billingUnit :: "billing_unit option"

definition estimator_context ::
  "jsnum \<Rightarrow> jsnum \<Rightarrow> extra_tokens \<Rightarrow> simulation_context option \<Rightarrow> simulation_context" where
  "estimator_context promptTokens completionTokens x context =
     (let ctx = (case context of Some c \<Rightarrow> c | None \<Rightarrow> empty_context);
          given = (case ctx_tokens ctx of Some ts \<Rightarrow> ts | None \<Rightarrow> [])
      in ctx\<lparr>ctx_tokens := Some (foldl (\<lambda>r (k, v). orec_set k v r)
               (buildEstimatorTokens promptTokens completionTokens x) given)\<rparr>)"

definition evalExprLocally ::
  "host \<Rightarrow> jsstr \<Rightarrow> jsnum \<Rightarrow> jsnum \<Rightarrow> extra_tokens \<Rightarrow> simulation_context option \<Rightarrow> compile_cache \<Rightarrow>
   local_result \<times> compile_cache" where
  "evalExprLocally h exprStr promptTokens completionTokens x context cache =
     (if trim exprStr = []
      then (\<lparr>lr_cost = Fin 0, lr_matchedTier = [], lr_error = None, lr_billingUnit = None\<rparr>, cache)
      else (let (r, cache) = evaluateBillingExpression h (Inl exprStr)
                   (estimator_context promptTokens completionTokens x context) cache
        in (case r of
              EvalFailed f \<Rightarrow>
                \<lparr>lr_cost = Fin 0, lr_matchedTier = [], lr_error = Some (detail (fdiagnostic f)),
                 lr_billingUnit = None\<rparr>
            | EvalSuccess e \<Rightarrow>
                \<lparr>lr_cost = ev_cost e, lr_matchedTier = ev_matchedTier e, lr_error = None,
                 lr_billingUnit = (if ev_unit e = URequest then Some URequest else None)\<rparr>, cache)))"

definition exprUsesExtraVars :: "jsstr \<Rightarrow> compile_cache \<Rightarrow> bool \<times> compile_cache" where
  "exprUsesExtraVars exprStr cache =
     (if exprStr = [] then (False, cache)
      else (case compileBillingExpression exprStr cache of
          (Failed f, cache) \<Rightarrow> (False, cache)
        | (Ready c, cache) \<Rightarrow> (list_ex (\<lambda>(v, get). v \<in> set (cvariables c)) ESTIMATOR_VARS, cache)))"

end
