(* ===== verification/ConditionDisplay.thy ===== *)
theory ConditionDisplay
  imports Visual Json
begin

text \<open>
  \<open>billing-expression/condition-display.ts\<close>: a localised description of a billing condition. The
  translation function of the i18n library and the number and weekday formats of \<open>Intl\<close> are
  arguments; a format is missing when \<open>Intl\<close> raises a \<open>RangeError\<close> for the locale.
\<close>

record locale_host =
  lh_translate :: "jsstr \<Rightarrow> (jsstr, jsval) orec \<Rightarrow> jsstr"
  lh_weekday :: "jsstr \<Rightarrow> int \<Rightarrow> jsstr option"
  lh_number :: "jsstr \<Rightarrow> jsnum \<Rightarrow> jsstr option"

datatype description_kind = Calendar | Clock | Combined

record description =
  de_text :: jsstr
  de_kind :: description_kind
  de_timezone :: jsstr
  de_disjunction :: bool

record time_comparison =
  cp_name :: jsstr
  cp_timezone :: jsstr
  cp_operator :: jsstr
  cp_value :: jsnum

definition DOMAINS :: "(jsstr, int \<times> int) orec" where
  "DOMAINS = [(js ''hour'', 0, 24), (js ''minute'', 0, 60), (js ''weekday'', 0, 7), (js ''month'', 1, 13),
     (js ''day'', 1, 32)]"

definition timeComparison :: "node \<Rightarrow> time_comparison option" where
  "timeComparison n =
     (case n of
        Binary op (Call f (Lit (LStr zone) b' i'' j'' # _) i' j') (Lit (LNum x) b i j) s e \<Rightarrow>
          if op \<in> set [js ''=='', js ''>='', js ''>'', js ''<='', js ''<''] \<and> f \<in> set time_functions \<and> is_integer x
          then Some \<lparr>cp_name = f, cp_timezone = (if trim zone = [] then js ''UTC'' else trim zone),
                     cp_operator = op, cp_value = x\<rparr>
          else None
      | _ \<Rightarrow> None)"

section \<open>The interval of a range\<close>

definition narrow :: "time_comparison \<Rightarrow> jsnum \<times> jsnum \<Rightarrow> jsnum \<times> jsnum" where
  "narrow c b =
     (let (start, stop) = b; op = cp_operator c; v = cp_value c; next = num_add v (Fin 1) in
      if op = js ''>='' then (num_max start v, stop)
      else if op = js ''>'' then (num_max start next, stop)
      else if op = js ''<'' then (start, num_min stop v)
      else if op = js ''<='' then (start, num_min stop next)
      else if op = js ''=='' then (num_max start v, num_min stop next)
      else (start, stop))"

definition domain_of :: "jsstr \<Rightarrow> jsnum \<times> jsnum" where
  "domain_of name =
     (case map_of DOMAINS name of Some (lo, hi) \<Rightarrow> (num_of_int lo, num_of_int hi) | None \<Rightarrow> (NaN, NaN))"

definition range_bounds :: "time_comparison list \<Rightarrow> jsnum \<times> jsnum" where
  "range_bounds comparisons = fold narrow comparisons (domain_of (cp_name (hd comparisons)))"

definition two_digits :: "jsnum \<Rightarrow> jsstr" where
  "two_digits x = pad_start 2 48 (num_to_string x) @ js '':00''"

definition span_key :: jsstr where
  "span_key = js ''{{start}}'' @ [8211] @ js ''{{end}}''"

definition range_error :: expr_error where
  "range_error = NativeError (js ''RangeError'')"

text \<open>Milliseconds of the Sunday 2026-01-04 in UTC, plus days.\<close>

definition weekday_time :: "jsnum \<Rightarrow> int" where
  "weekday_time d = 1767484800000 + 86400000 * \<lfloor>num_val d\<rfloor>"

definition intl_locale :: "jsstr \<Rightarrow> jsstr" where
  "intl_locale l = (if l = js ''zhCN'' then js ''zh-CN'' else l)"

definition from_option :: "'a option \<Rightarrow> expr_error + 'a" where
  "from_option x = (case x of Some y \<Rightarrow> Inr y | None \<Rightarrow> Inl range_error)"

definition weekday_text :: "locale_host \<Rightarrow> jsstr \<Rightarrow> jsnum \<Rightarrow> jsnum \<Rightarrow> expr_error + jsstr" where
  "weekday_text h l start stop =
     (let last = num_sub stop (Fin 1) in
      rbind (from_option (lh_weekday h (intl_locale l) (weekday_time start))) (\<lambda>from.
      rbind (from_option (lh_weekday h (intl_locale l) (weekday_time last))) (\<lambda>to.
        Inr (if num_eq start last then from
             else lh_translate h span_key [(js ''start'', VStr from), (js ''end'', VStr to)]))))"

definition unit_labels :: "(jsstr, jsstr) orec" where
  "unit_labels = [(js ''minute'', js ''Minute''), (js ''month'', js ''Month''), (js ''day'', js ''Day'')]"

definition unit_text :: "locale_host \<Rightarrow> jsstr \<Rightarrow> jsnum \<Rightarrow> jsnum \<Rightarrow> jsstr" where
  "unit_text h name start stop =
     (let last = num_sub stop (Fin 1);
          values = (if num_eq start last then num_to_string start
                    else lh_translate h span_key [(js ''start'', VNum start), (js ''end'', VNum last)])
      in lh_translate h (case map_of unit_labels name of Some l \<Rightarrow> l | None \<Rightarrow> js ''undefined'') []
         @ js '': '' @ values)"

definition describeTimeRange ::
  "locale_host \<Rightarrow> jsstr \<Rightarrow> time_comparison list \<Rightarrow> expr_error + description option" where
  "describeTimeRange h l comparisons =
     (let (start, stop) = range_bounds comparisons; name = cp_name (hd comparisons);
          mk = (\<lambda>t k. Some \<lparr>de_text = t, de_kind = k, de_timezone = cp_timezone (hd comparisons),
                             de_disjunction = False\<rparr>) in
      if num_le stop start then Inr None
      else if name = js ''hour'' then
        Inr (mk (lh_translate h span_key
          [(js ''start'', VStr (two_digits start)), (js ''end'', VStr (two_digits stop))]) Clock)
      else if name = js ''weekday'' then
        rbind (weekday_text h l start stop) (\<lambda>t. Inr (mk t Calendar))
      else Inr (mk (unit_text h name start stop) Calendar))"

section \<open>Conditions\<close>

definition size_labels :: "(jsstr, jsstr) orec" where
  "size_labels = [(js ''p'', js ''Input''), (js ''c'', js ''Output''), (js ''len'', js ''Full input length'')]"

text \<open>A comparison of a variable with a number; \<open>None\<close> when the node is not one.\<close>

definition describe_size :: "locale_host \<Rightarrow> jsstr \<Rightarrow> node \<Rightarrow> (expr_error + description option) option" where
  "describe_size h l n =
     (case n of
        Binary op (Var v i j) (Lit (LNum x) b i' j') s e \<Rightarrow>
          if op \<notin> set comparison_operators then None
          else Some (case map_of size_labels v of
              None \<Rightarrow> Inr None
            | Some label \<Rightarrow>
                rbind (from_option (lh_number h (intl_locale l) x)) (\<lambda>num.
                  Inr (Some \<lparr>de_text = lh_translate h label [] @ js '' '' @ op @ js '' '' @ num,
                             de_kind = Combined, de_timezone = [], de_disjunction = False\<rparr>)))
      | _ \<Rightarrow> None)"

definition range_key :: "time_comparison \<Rightarrow> jsstr" where
  "range_key c = cp_name c @ js '':'' @ cp_timezone c"

definition add_range ::
  "time_comparison \<Rightarrow> (jsstr, time_comparison list) orec \<Rightarrow> (jsstr, time_comparison list) orec" where
  "add_range c ranges =
     orec_set (range_key c) ((case map_of ranges (range_key c) of Some r \<Rightarrow> r | None \<Rightarrow> []) @ [c]) ranges"

text \<open>All descriptions in order, or nothing when one is missing.\<close>

fun all_described :: "(expr_error + 'a option) list \<Rightarrow> expr_error + 'a list option" where
  "all_described [] = Inr (Some [])"
| "all_described (r # rs) =
     rbind r (\<lambda>d. case d of None \<Rightarrow> Inr None | Some x \<Rightarrow>
       rbind (all_described rs) (\<lambda>ds. Inr (map_option (\<lambda>xs. x # xs) ds)))"

definition in_parens :: "bool \<Rightarrow> description \<Rightarrow> jsstr" where
  "in_parens isAnd d = (if isAnd \<and> de_disjunction d then js ''('' @ de_text d @ js '')'' else de_text d)"

definition join_descriptions :: "locale_host \<Rightarrow> bool \<Rightarrow> description list \<Rightarrow> jsstr" where
  "join_descriptions h isAnd parts =
     foldl (\<lambda>t d. lh_translate h
         (if isAnd then js ''{{first}} and {{second}}'' else js ''{{first}} or {{second}}'')
         [(js ''first'', VStr t), (js ''second'', VStr (in_parens isAnd d))])
       (in_parens isAnd (hd parts)) (tl parts)"

definition zones_of :: "description list \<Rightarrow> jsstr list" where
  "zones_of parts = remdups (filter (\<lambda>z. z \<noteq> []) (map de_timezone parts))"

definition combine_descriptions :: "locale_host \<Rightarrow> bool \<Rightarrow> description list \<Rightarrow> description option" where
  "combine_descriptions h isAnd parts =
     (let zones = zones_of parts;
          calendars = filter (\<lambda>d. de_kind d = Calendar) parts;
          clocks = filter (\<lambda>d. de_kind d = Clock) parts in
      if parts = [] \<or> 1 < slen zones then None
      else (case parts of
          [d] \<Rightarrow> Some d
        | _ \<Rightarrow>
            if isAnd \<and> slen parts = 2 \<and> slen calendars = 1 \<and> slen clocks = 1
            then Some \<lparr>de_text = de_text (hd calendars) @ js '' '' @ de_text (hd clocks), de_kind = Combined,
                       de_timezone = de_timezone (hd parts), de_disjunction = False\<rparr>
            else Some \<lparr>de_text = join_descriptions h isAnd parts,
                       de_kind = (if slen clocks = slen parts then Clock else Combined),
                       de_timezone = (case zones of z # _ \<Rightarrow> z | [] \<Rightarrow> []),
                       de_disjunction = \<not> isAnd\<rparr>))"

definition negate_description :: "locale_host \<Rightarrow> description \<Rightarrow> description" where
  "negate_description h d =
     d\<lparr>de_text := lh_translate h (js ''Outside these times: {{condition}}'') [(js ''condition'', VStr (de_text d))],
       de_kind := Combined\<rparr>"

text \<open>The time comparisons of a conjunction grouped by function and zone, in order of appearance.\<close>

definition ranges_of :: "node list \<Rightarrow> (jsstr, time_comparison list) orec" where
  "ranges_of nodes = fold add_range (List.map_filter timeComparison nodes) []"

function describeBillingCondition ::
  "locale_host \<Rightarrow> jsstr \<Rightarrow> node \<Rightarrow> expr_error + description option" where
  "describeBillingCondition h l n =
     (case n of
        Unary op a i j \<Rightarrow>
          if op = js ''!'' then
            rbind (describeBillingCondition h l a) (\<lambda>d. Inr (map_option (negate_description h) d))
          else Inr None
      | Binary op a b i j \<Rightarrow>
          (case describe_size h l n of
             Some r \<Rightarrow> r
           | None \<Rightarrow>
               (case timeComparison n of
                  Some c \<Rightarrow> describeTimeRange h l [c]
                | None \<Rightarrow>
                    if op = js ''&&'' then
                      rbind (all_described (map (describeBillingCondition h l)
                               (filter (\<lambda>m. timeComparison m = None) (flattenBinary n op)))) (\<lambda>ds.
                      case ds of None \<Rightarrow> Inr None | Some ds \<Rightarrow>
                        rbind (all_described (map (describeTimeRange h l \<circ> snd) (ranges_of (flattenBinary n op))))
                          (\<lambda>rs. Inr (case rs of None \<Rightarrow> None | Some rs \<Rightarrow> combine_descriptions h True (ds @ rs))))
                    else if op = js ''||'' then
                      rbind (all_described (map (describeBillingCondition h l) (flattenBinary n op))) (\<lambda>ds.
                        Inr (case ds of None \<Rightarrow> None | Some ds \<Rightarrow> combine_descriptions h False ds))
                    else Inr None))
      | _ \<Rightarrow> Inr None)"
  by pat_completeness auto
termination describeBillingCondition
  by (relation "measure (\<lambda>(h, l, n). node_weight n)") (auto dest!: flattenBinary_weight)

declare describeBillingCondition.simps [simp del]

definition formatBillingCondition ::
  "locale_host \<Rightarrow> jsstr \<Rightarrow> jsstr \<Rightarrow> compile_cache \<Rightarrow> jsstr option \<times> compile_cache" where
  "formatBillingCondition h l source cache =
     (case compileBillingExpression source cache of
        (Failed f, cache) \<Rightarrow> (None, cache)
      | (Ready c, cache) \<Rightarrow>
          (case describeBillingCondition h l (cast c) of
             Inl e \<Rightarrow> None
           | Inr None \<Rightarrow> None
           | Inr (Some d) \<Rightarrow>
               if de_timezone d = [] then Some (de_text d)
               else Some (lh_translate h (js ''{{condition}} ({{timezone}})'')
                      [(js ''condition'', VStr (de_text d)), (js ''timezone'', VStr (de_timezone d))]), cache))"

end
