(* ===== verification/ConditionFacts.thy ===== *)
theory ConditionFacts
  imports ConditionDisplay RuntimeFacts
begin

text \<open>
  The interval that describes a group of time comparisons stands for exactly the values of the
  time function on which the evaluator finds every comparison true.
\<close>

section \<open>Bounds as integers\<close>

definition int_num :: "jsnum \<Rightarrow> int \<Rightarrow> bool" where
  "int_num x n \<longleftrightarrow> is_finite x \<and> num_val x = of_int n"

lemma int_num_of_int: "\<bar>n\<bar> < 2 ^ 53 \<Longrightarrow> int_num (num_of_int n) n"
  by (simp add: int_num_def num_of_int_exact)

lemma int_num_lt: "int_num x m \<Longrightarrow> int_num y n \<Longrightarrow> num_lt x y \<longleftrightarrow> m < n"
  by (auto simp: int_num_def num_lt_def)

lemma int_num_le: "int_num x m \<Longrightarrow> int_num y n \<Longrightarrow> num_le x y \<longleftrightarrow> m \<le> n"
  using int_num_lt[of y n x m] by (auto simp: num_le_def int_num_def)

lemma int_num_eq: "int_num x m \<Longrightarrow> int_num y n \<Longrightarrow> num_eq x y \<longleftrightarrow> m = n"
  by (auto simp: int_num_def num_eq_def)

lemma int_num_max: "int_num x m \<Longrightarrow> int_num y n \<Longrightarrow> int_num (num_max x y) (max m n)"
  using int_num_lt[of x m y n] int_num_lt[of y n x m] by (auto simp: num_max_def int_num_def max_def)

lemma int_num_min: "int_num x m \<Longrightarrow> int_num y n \<Longrightarrow> int_num (num_min x y) (min m n)"
  using int_num_lt[of x m y n] int_num_lt[of y n x m] by (auto simp: num_min_def int_num_def min_def)

lemma int_num_succ:
  assumes "int_num x n" and "\<bar>n\<bar> < 2 ^ 53 - 1"
  shows "int_num (num_add x (Fin 1)) (n + 1)"
proof -
  have "num_add x (Fin 1) = num_of_int (n + 1)"
    using assms(1) by (cases x) (auto simp: int_num_def num_add_def is_infinite_def num_of_int_def)
  with int_num_of_int[of "n + 1"] assms(2) show ?thesis by simp
qed

section \<open>Narrowing\<close>

text \<open>Whether the evaluator finds \<open>v OP value\<close> true.\<close>

definition satisfies :: "time_comparison \<Rightarrow> int \<Rightarrow> bool" where
  "satisfies c v \<longleftrightarrow>
     binary_values (cp_operator c) (plain (VNum (num_of_int v))) (plain (VNum (cp_value c))) 0 =
     Inr (plain (VBool True))"

definition range_operators :: "jsstr list" where
  "range_operators = [js ''=='', js ''>='', js ''>'', js ''<='', js ''<'']"

lemma satisfies_iff:
  assumes "int_num (cp_value c) n" and "\<bar>v\<bar> < 2 ^ 53" and "cp_operator c \<in> set range_operators"
  shows "satisfies c v \<longleftrightarrow>
    (if cp_operator c = js ''=='' then v = n else if cp_operator c = js ''>='' then n \<le> v
     else if cp_operator c = js ''>'' then n < v else if cp_operator c = js ''<='' then v \<le> n else v < n)"
proof -
  note v = int_num_of_int[OF assms(2)]
  show ?thesis
    using assms(3) int_num_lt[OF v assms(1)] int_num_lt[OF assms(1) v] int_num_le[OF v assms(1)]
      int_num_le[OF assms(1) v] int_num_eq[OF v assms(1)]
    by (auto simp: satisfies_def binary_values_def Let_def binary_equality_def compare_values_def
        strict_eq_def typeof_object_def range_operators_def)
qed

definition small_comparison :: "time_comparison \<Rightarrow> bool" where
  "small_comparison c \<longleftrightarrow> cp_operator c \<in> set range_operators \<and> is_integer (cp_value c) \<and>
     \<bar>num_val (cp_value c)\<bar> < 2 ^ 53 - 1"

lemma small_comparison_int:
  assumes "small_comparison c"
  obtains n where "int_num (cp_value c) n" and "\<bar>n\<bar> < 2 ^ 53 - 1"
proof
  let ?n = "\<lfloor>num_val (cp_value c)\<rfloor>"
  show i: "int_num (cp_value c) ?n"
    using assms by (auto simp: small_comparison_def is_integer_def int_num_def)
  have "\<bar>of_int ?n :: rat\<bar> < of_int (2 ^ 53 - 1)"
    using i assms by (simp add: int_num_def small_comparison_def)
  then show "\<bar>?n\<bar> < 2 ^ 53 - 1" by linarith
qed

lemma narrow_bounds:
  assumes "small_comparison c" and "int_num lo l" and "int_num hi h"
  obtains l' h' where "int_num (fst (narrow c (lo, hi))) l'" and "int_num (snd (narrow c (lo, hi))) h'"
    and "l \<le> l'" and "h' \<le> h"
    and "\<And>v. \<bar>v\<bar> < 2 ^ 53 \<Longrightarrow> (l' \<le> v \<and> v < h') \<longleftrightarrow> (l \<le> v \<and> v < h) \<and> satisfies c v"
proof -
  obtain n where n: "int_num (cp_value c) n" "\<bar>n\<bar> < 2 ^ 53 - 1" by (rule small_comparison_int[OF assms(1)])
  have op: "cp_operator c \<in> set range_operators" using assms(1) by (simp add: small_comparison_def)
  define l' where "l' = (if cp_operator c \<in> {js ''=='', js ''>=''} then max l n
    else if cp_operator c = js ''>'' then max l (n + 1) else l)"
  define h' where "h' = (if cp_operator c \<in> {js ''=='', js ''<=''} then min h (n + 1)
    else if cp_operator c = js ''<'' then min h n else h)"
  note f = n(1) int_num_succ[OF n] assms(2,3)
  have "int_num (fst (narrow c (lo, hi))) l'"
    using op f by (auto simp: narrow_def Let_def l'_def range_operators_def int_num_max)
  moreover have "int_num (snd (narrow c (lo, hi))) h'"
    using op f by (auto simp: narrow_def Let_def h'_def range_operators_def int_num_min)
  moreover have "l \<le> l'" "h' \<le> h" by (simp_all add: l'_def h'_def)
  moreover have "(l' \<le> v \<and> v < h') \<longleftrightarrow> (l \<le> v \<and> v < h) \<and> satisfies c v" if "\<bar>v\<bar> < 2 ^ 53" for v
    unfolding satisfies_iff[OF n(1) that op] using op by (auto simp: l'_def h'_def range_operators_def)
  ultimately show thesis by (rule that)
qed

lemma fold_narrow:
  assumes "list_all small_comparison cs" and "int_num lo l" and "int_num hi h"
  shows "\<exists>l' h'. int_num (fst (fold narrow cs (lo, hi))) l' \<and> int_num (snd (fold narrow cs (lo, hi))) h' \<and>
    l \<le> l' \<and> h' \<le> h \<and>
    (\<forall>v. \<bar>v\<bar> < 2 ^ 53 \<longrightarrow> (l' \<le> v \<and> v < h') \<longleftrightarrow> (l \<le> v \<and> v < h) \<and> (\<forall>c \<in> set cs. satisfies c v))"
  using assms
proof (induction cs arbitrary: lo hi l h)
  case Nil
  then show ?case by auto
next
  case (Cons c cs)
  then have c: "small_comparison c" and cs: "list_all small_comparison cs" by simp_all
  obtain l1 h1 where 1: "int_num (fst (narrow c (lo, hi))) l1" "int_num (snd (narrow c (lo, hi))) h1"
    "l \<le> l1" "h1 \<le> h" "\<And>v. \<bar>v\<bar> < 2 ^ 53 \<Longrightarrow> (l1 \<le> v \<and> v < h1) \<longleftrightarrow> (l \<le> v \<and> v < h) \<and> satisfies c v"
    by (rule narrow_bounds[OF c Cons.prems(2,3)]) (rule that)
  obtain lo1 hi1 where b: "narrow c (lo, hi) = (lo1, hi1)" by (cases "narrow c (lo, hi)")
  from Cons.IH[OF cs, of lo1 l1 hi1 h1] 1 b obtain l' h' where
    "int_num (fst (fold narrow cs (lo1, hi1))) l'" "int_num (snd (fold narrow cs (lo1, hi1))) h'"
    "l1 \<le> l'" "h' \<le> h1"
    "\<forall>v. \<bar>v\<bar> < 2 ^ 53 \<longrightarrow> (l' \<le> v \<and> v < h') \<longleftrightarrow> (l1 \<le> v \<and> v < h1) \<and> (\<forall>c \<in> set cs. satisfies c v)"
    by auto
  with 1(3-5) b show ?case by (intro exI[of _ l'] exI[of _ h']) auto
qed

lemma domain_of_ints:
  assumes "map_of DOMAINS name = Some (lo, hi)"
  shows "fst (domain_of name) = num_of_int lo \<and> snd (domain_of name) = num_of_int hi \<and>
    0 \<le> lo \<and> lo < hi \<and> hi \<le> 60"
  using assms by (auto simp: domain_of_def DOMAINS_def split: if_splits)

lemma range_bounds_ints:
  assumes "list_all small_comparison cs" and "map_of DOMAINS (cp_name (hd cs)) = Some (lo, hi)"
  obtains l h where "int_num (fst (range_bounds cs)) l" and "int_num (snd (range_bounds cs)) h"
    and "lo \<le> l" and "h \<le> hi" and "0 \<le> lo" and "hi \<le> 60"
    and "\<And>v. \<bar>v\<bar> < 2 ^ 53 \<Longrightarrow> (l \<le> v \<and> v < h) \<longleftrightarrow> (lo \<le> v \<and> v < hi) \<and> (\<forall>c \<in> set cs. satisfies c v)"
proof -
  note d = domain_of_ints[OF assms(2)]
  have "int_num (fst (domain_of (cp_name (hd cs)))) lo" "int_num (snd (domain_of (cp_name (hd cs)))) hi"
    using d by (auto intro!: int_num_of_int)
  from fold_narrow[OF assms(1) this] d show thesis
    unfolding range_bounds_def prod.collapse by (elim exE conjE) (rule that, auto simp: range_bounds_def)
qed

text \<open>In the domain of the function, the interval holds of a value when every comparison does.\<close>

lemma range_bounds_exact:
  assumes "list_all small_comparison cs" and "map_of DOMAINS (cp_name (hd cs)) = Some (lo, hi)"
    and "lo \<le> v" and "v < hi"
  shows "(num_le (fst (range_bounds cs)) (num_of_int v) \<and> num_lt (num_of_int v) (snd (range_bounds cs))) \<longleftrightarrow>
    (\<forall>c \<in> set cs. satisfies c v)"
proof (rule range_bounds_ints[OF assms(1,2)], goal_cases)
  case (1 l h)
  then have "\<bar>v\<bar> < 2 ^ 53" using assms(3,4) by simp
  then show ?case
    using 1(7) assms(3,4) int_num_le[OF 1(1) int_num_of_int] int_num_lt[OF int_num_of_int 1(2)] by simp
qed

lemma range_bounds_empty:
  assumes "list_all small_comparison cs" and "map_of DOMAINS (cp_name (hd cs)) = Some (lo, hi)"
  shows "num_le (snd (range_bounds cs)) (fst (range_bounds cs)) \<longleftrightarrow>
    \<not> (\<exists>v. lo \<le> v \<and> v < hi \<and> (\<forall>c \<in> set cs. satisfies c v))"
proof (rule range_bounds_ints[OF assms], goal_cases)
  case (1 l h)
  have small: "\<bar>v\<bar> < 2 ^ 53" if "lo \<le> v" "v < hi" for v using that 1(5,6) by simp
  have "h \<le> l \<longleftrightarrow> \<not> (\<exists>v. lo \<le> v \<and> v < hi \<and> (\<forall>c \<in> set cs. satisfies c v))"
  proof
    assume "h \<le> l"
    then show "\<not> (\<exists>v. lo \<le> v \<and> v < hi \<and> (\<forall>c \<in> set cs. satisfies c v))" using 1(7) small by fastforce
  next
    assume none: "\<not> (\<exists>v. lo \<le> v \<and> v < hi \<and> (\<forall>c \<in> set cs. satisfies c v))"
    show "h \<le> l"
    proof (rule ccontr)
      assume "\<not> h \<le> l"
      then have "lo \<le> l" "l < hi" using 1(3,4) by simp_all
      with 1(7)[OF small[OF this]] \<open>\<not> h \<le> l\<close> none show False by auto
    qed
  qed
  with int_num_le[OF 1(2,1)] show ?case by simp
qed

section \<open>Descriptions\<close>

lemma describe_none:
  "describeTimeRange h l cs = Inr None \<longleftrightarrow> num_le (snd (range_bounds cs)) (fst (range_bounds cs))"
  by (auto simp: describeTimeRange_def Let_def rsimps split: prod.splits)

text \<open>
  C31. The description of a group of time comparisons covers exactly the values of the time
  function on which the evaluator finds every comparison true, and there is no description exactly
  when no value of the function satisfies them all.
\<close>

theorem time_range_exact:
  assumes "list_all small_comparison cs" and "map_of DOMAINS (cp_name (hd cs)) = Some (lo, hi)"
  shows "(\<forall>v. lo \<le> v \<longrightarrow> v < hi \<longrightarrow>
      (num_le (fst (range_bounds cs)) (num_of_int v) \<and> num_lt (num_of_int v) (snd (range_bounds cs))) =
      (\<forall>c \<in> set cs. satisfies c v)) \<and>
    (describeTimeRange h l cs = Inr None \<longleftrightarrow>
      \<not> (\<exists>v. lo \<le> v \<and> v < hi \<and> (\<forall>c \<in> set cs. satisfies c v)))"
  using range_bounds_exact[OF assms] range_bounds_empty[OF assms] describe_none by blast

definition demo_hours :: "time_comparison list" where
  "demo_hours =
     [\<lparr>cp_name = js ''hour'', cp_timezone = js ''UTC'', cp_operator = js ''>'', cp_value = Fin 8\<rparr>,
      \<lparr>cp_name = js ''hour'', cp_timezone = js ''UTC'', cp_operator = js ''<'', cp_value = Fin 17\<rparr>]"

theorem time_range_exact_witness:
  "list_all (\<lambda>c. satisfies c 9) demo_hours \<and> \<not> list_all (\<lambda>c. satisfies c 8) demo_hours"
proof -
  have d: "list_all small_comparison demo_hours" "map_of DOMAINS (cp_name (hd demo_hours)) = Some (0, 24)"
    by (simp_all add: demo_hours_def small_comparison_def range_operators_def is_integer_def DOMAINS_def)
  have "num_le (fst (range_bounds demo_hours)) (num_of_int 9)"
    "num_lt (num_of_int 9) (snd (range_bounds demo_hours))"
    "\<not> num_le (fst (range_bounds demo_hours)) (num_of_int 8)"
    by code_simp+
  moreover have in_range: "(num_le (fst (range_bounds demo_hours)) (num_of_int v) \<and>
      num_lt (num_of_int v) (snd (range_bounds demo_hours))) = (\<forall>c \<in> set demo_hours. satisfies c v)"
    if "0 \<le> v" "v < 24" for v
    using time_range_exact[OF d] that by blast
  ultimately show ?thesis using in_range[of 9] in_range[of 8] by (simp add: list_all_iff)
qed

end
