(* ===== verification/SplitFacts.thy ===== *)
theory SplitFacts
  imports Structure Lexer
begin

text \<open>
  When the top-level split takes a text apart exactly at the operators that joined it: the pieces
  are closed (their brackets and quotes match) and quiet (no operator and no question mark
  outside brackets and quotes).
\<close>

section \<open>Quiet text\<close>

text \<open>
  The state of the split loop after a text, from a depth and an open quote on; nothing when the
  loop would stop in the text or could see an operator that starts with \<open>h\<close> there.
\<close>

fun quiet_scan :: "jschar \<Rightarrow> jsstr \<Rightarrow> int \<Rightarrow> jschar option \<Rightarrow> (int \<times> jschar option) option" where
  "quiet_scan h [] d q = Some (d, q)"
| "quiet_scan h (c # s) d (Some q) =
     (if c = 92 then (case s of [] \<Rightarrow> None | _ # s' \<Rightarrow> quiet_scan h s' d (Some q))
      else quiet_scan h s d (if c = q then None else Some q))"
| "quiet_scan h (c # s) d None =
     (if is_quote c then quiet_scan h s d (Some c)
      else (let d' = (if is_open c then d + 1 else if is_close c then d - 1 else d) in
        if d' = 0 \<and> (c = 63 \<or> c = h) then None else quiet_scan h s d' None))"

lemma quiet_scan_append:
  "quiet_scan h a d q = Some (d', q') \<Longrightarrow> quiet_scan h (a @ b) d q = quiet_scan h b d' q'"
  by (induction h a d q rule: quiet_scan.induct) (auto simp: Let_def split: if_splits list.splits)

lemma split_loop_step:
  assumes "\<not> is_quote c" and "d' = (if is_open c then d + 1 else if is_close c then d - 1 else d)"
    and "d' \<noteq> 0 \<or> (c \<noteq> 63 \<and> c \<noteq> h)"
  shows "split_loop source (h # op) (c # rest) i start d None parts =
    split_loop source (h # op) rest (i + 1) start d' None parts"
proof -
  have "split_loop source (h # op) (c # rest) i start d None parts =
    (if d' \<noteq> 0 then split_loop source (h # op) rest (i + 1) start d' None parts
     else if c = 63 then Some (Inl [trim source])
     else if starts_with (h # op) (c # rest) then
       split_loop source (h # op) (idrop (slen (h # op)) (c # rest)) (i + slen (h # op))
         (i + slen (h # op)) d' None (parts @ [trim (slice source start i)])
     else split_loop source (h # op) rest (i + 1) start d' None parts)"
    using assms(1) unfolding split_loop_Cons[of source "h # op" c] option.case Let_def assms(2) by simp
  also have "\<dots> = split_loop source (h # op) rest (i + 1) start d' None parts"
    using assms(3) by (cases "d' = 0") (simp_all del: split_loop_simps)
  finally show ?thesis .
qed

lemma split_loop_quiet:
  "quiet_scan h e d q = Some (d', q') \<Longrightarrow>
   split_loop source (h # op) (e @ rest) i start d q parts =
   split_loop source (h # op) rest (i + slen e) start d' q' parts"
proof (induction h e d q arbitrary: i rule: quiet_scan.induct)
  case (2 h c s d q)
  show ?case
  proof (cases "c = 92")
    case True
    with 2 show ?thesis by (cases s) (auto simp: add.assoc)
  next
    case False
    with 2 show ?thesis by (auto simp: add.assoc)
  qed
next
  case (3 h c s d)
  show ?case
  proof (cases "is_quote c")
    case True
    with 3 show ?thesis by (auto simp: add.assoc)
  next
    case False
    define d1 where "d1 = (if is_open c then d + 1 else if is_close c then d - 1 else d)"
    with False 3(3) have ok: "d1 \<noteq> 0 \<or> (c \<noteq> 63 \<and> c \<noteq> h)" "quiet_scan h s d1 None = Some (d', q')"
      by (auto simp: Let_def split: if_splits)
    from 3(2)[OF False d1_def _ ok(2), of "i + 1"] ok(1)
    have "split_loop source (h # op) (s @ rest) (i + 1) start d1 None parts =
      split_loop source (h # op) rest (i + 1 + slen s) start d' q' parts" by blast
    with split_loop_step[OF False d1_def ok(1)] show ?thesis by (simp add: add.assoc del: split_loop_simps)
  qed
qed simp

definition quiet :: "jschar \<Rightarrow> jsstr \<Rightarrow> bool" where
  "quiet h e \<longleftrightarrow> (\<forall>d \<ge> 0. quiet_scan h e d None = Some (d, None))"

definition balanced :: "jschar \<Rightarrow> jsstr \<Rightarrow> bool" where
  "balanced h e \<longleftrightarrow> (\<forall>d \<ge> 1. quiet_scan h e d None = Some (d, None))"

lemma quiet_balanced: "quiet h e \<Longrightarrow> balanced h e"
  by (auto simp: quiet_def balanced_def)

lemma quiet_append [intro]: "quiet h a \<Longrightarrow> quiet h b \<Longrightarrow> quiet h (a @ b)"
  by (auto simp: quiet_def quiet_scan_append)

lemma balanced_append [intro]: "balanced h a \<Longrightarrow> balanced h b \<Longrightarrow> balanced h (a @ b)"
  by (auto simp: balanced_def quiet_scan_append)

lemma quiet_Nil [simp]: "quiet h []"
  by (simp add: quiet_def)

lemma balanced_Nil [simp]: "balanced h []"
  by (simp add: balanced_def)

text \<open>Characters without a role in the split.\<close>

definition neutral :: "jschar \<Rightarrow> bool" where
  "neutral c \<longleftrightarrow> \<not> is_quote c \<and> \<not> is_open c \<and> \<not> is_close c"

lemma quiet_neutral: "list_all neutral e \<Longrightarrow> h \<notin> set e \<Longrightarrow> 63 \<notin> set e \<Longrightarrow> quiet h e"
  by (induction e) (auto simp: quiet_def neutral_def Let_def)

lemma balanced_neutral: "list_all neutral e \<Longrightarrow> balanced h e"
  by (induction e) (auto simp: balanced_def neutral_def Let_def)

lemma quiet_parens:
  assumes "balanced h e" and "h \<noteq> 41"
  shows "quiet h (40 # e @ [41])"
proof -
  have "quiet_scan h (e @ [41]) (d + 1) None = Some (d, None)" if "0 \<le> d" for d
    using assms that by (subst quiet_scan_append[of h e "d + 1" None "d + 1" None])
      (auto simp: balanced_def is_quote_def is_open_def is_close_def)
  then show ?thesis by (auto simp: quiet_def is_quote_def is_open_def)
qed

text \<open>A text quoted as JSON.\<close>

lemma quiet_quote_char:
  "quiet_scan h (quote_char c @ s) d (Some 34) = quiet_scan h s d (Some 34)"
  "quiet_scan h (92 # 117 # hex4 c @ s) d (Some 34) = quiet_scan h s d (Some 34)"
proof -
  have digit: "hex_digit n \<noteq> 92 \<and> hex_digit n \<noteq> 34" if "0 \<le> n" "n < 16" for n
    using that by (auto simp: hex_digit_def)
  show u: "quiet_scan h (92 # 117 # hex4 c @ s) d (Some 34) = quiet_scan h s d (Some 34)"
    using digit[of "c div 4096 mod 16"] digit[of "c div 256 mod 16"] digit[of "c div 16 mod 16"]
      digit[of "c mod 16"] by (simp add: hex4_def)
  then show "quiet_scan h (quote_char c @ s) d (Some 34) = quiet_scan h s d (Some 34)"
    by (auto simp: quote_char_def)
qed

lemma quiet_quote_body: "quiet_scan h (quote_body t @ s) d (Some 34) = quiet_scan h s d (Some 34)"
proof (induction t rule: quote_body.induct)
  case (3 c e t)
  then show ?case
    using quiet_quote_char[of h c _ d]
    by (auto simp: is_high_surrogate_def is_low_surrogate_def simp del: quiet_scan.simps(2))
      (simp_all add: is_high_surrogate_def is_low_surrogate_def)
qed (use quiet_quote_char in auto)

lemma quiet_json_quote [simp]: "quiet h (json_quote t)"
  using quiet_quote_body[of h t "[34]"] by (auto simp: quiet_def json_quote_def is_quote_def)

section \<open>Splitting what was joined\<close>

lemma trim_pad:
  assumes "trim e = e" and "e \<noteq> []" and "list_all is_space a" and "list_all is_space b"
  shows "trim (a @ e @ b) = e"
proof -
  have hl: "\<not> is_space (hd e)" "\<not> is_space (last e)" using trim_hd[of e] trim_last[of e] assms(1,2) by simp_all
  have drop: "dropWhile is_space (xs @ ys) = ys" if "list_all is_space xs" "ys \<noteq> []" "\<not> is_space (hd ys)" for xs ys
    using that by (induction xs) (auto simp: dropWhile_hd)
  have "trim_start (a @ e @ b) = e @ b" unfolding trim_start_def using hl assms(2,3) by (intro drop) auto
  moreover have "dropWhile is_space (rev b @ rev e) = rev e"
    using hl assms(2,4) by (intro drop) (auto simp: hd_rev list_all_iff)
  ultimately show ?thesis by (simp add: trim_def trim_end_def)
qed

lemma idrop_plus: "0 \<le> i \<Longrightarrow> idrop i s = a @ r \<Longrightarrow> idrop (i + slen a) s = r"
proof -
  assume i: "0 \<le> i" and "idrop i s = a @ r"
  then have "drop (nat i) s = a @ r" by (simp add: idrop_drop)
  then have "drop (length a) (drop (nat i) s) = r" by simp
  with i show ?thesis by (simp add: idrop_drop slen_length nat_add_distrib add.commute)
qed

lemma split_loop_at_operator:
  assumes "neutral h" and "h \<noteq> 63" and "idrop i source = a @ h # op @ rest" and "0 \<le> i" and "quiet h a"
  shows "split_loop source (h # op) (a @ h # op @ rest) i i 0 None parts =
    split_loop source (h # op) rest (i + slen a + slen (h # op)) (i + slen a + slen (h # op)) 0 None
      (parts @ [trim a])"
proof -
  let ?j = "i + slen a"
  have slice: "slice source i ?j = a" using slice_prefix[OF assms(3,4)] .
  have "idrop (slen (h # op)) ((h # op) @ rest) = rest"
    by (simp add: idrop_drop slen_length nat_add_distrib)
  then have "split_loop source (h # op) (h # op @ rest) ?j i 0 None parts =
    split_loop source (h # op) rest (?j + slen (h # op)) (?j + slen (h # op)) 0 None (parts @ [trim a])"
    using assms(1,2) slice unfolding split_loop_Cons[of source "h # op" h] neutral_def
    by (simp add: Let_def starts_with_iff del: split_loop_simps)
  moreover have "split_loop source (h # op) (a @ h # op @ rest) i i 0 None parts =
    split_loop source (h # op) (h # op @ rest) ?j i 0 None parts"
    using assms(5) by (intro split_loop_quiet) (simp add: quiet_def)
  ultimately show ?thesis by simp
qed

definition piece :: "jschar \<Rightarrow> jsstr \<Rightarrow> bool" where
  "piece h e \<longleftrightarrow> quiet h e \<and> e \<noteq> [] \<and> trim e = e"

lemma split_loop_join:
  assumes "neutral h" and "h \<noteq> 63" and "h \<noteq> 32" and "es \<noteq> []" and "list_all (piece h) es"
    and "lead = [] \<or> lead = [32]" and "idrop i source = lead @ join (32 # h # op @ [32]) es" and "0 \<le> i"
  shows "\<exists>start. split_loop source (h # op) (lead @ join (32 # h # op @ [32]) es) i i 0 None parts =
      Some (Inr (start, parts @ butlast es)) \<and> trim (slice source start (slen source)) = last es"
  using assms(4-8)
proof (induction es arbitrary: i lead parts)
  case (Cons e es)
  note prems = Cons.prems and IH = Cons.IH
  have sp: "quiet h [32]" "list_all is_space [32]" "list_all is_space lead"
    using assms(3) prems(3) by (auto simp: quiet_def is_quote_def is_open_def is_close_def is_space_def)
  have lead: "quiet h lead" using prems(3) sp(1) by auto
  have e: "quiet h e" "e \<noteq> []" "trim e = e" using prems(2) by (auto simp: piece_def)
  show ?case
  proof (cases es)
    case Nil
    with prems have src: "idrop i source = lead @ e" by simp
    have "slice source i (slen source) = idrop i source"
      using prems(5) by (simp add: slice_alt idrop_drop slen_length nat_diff_distrib)
    then have "slice source i (slen source) = lead @ e" using src by simp
    moreover have "trim (lead @ e) = e" using trim_pad[OF e(3,2) sp(3), of "[]"] by simp
    moreover have "split_loop source (h # op) ((lead @ e) @ []) i i 0 None parts =
        split_loop source (h # op) [] (i + slen (lead @ e)) i 0 None parts"
      using quiet_append[OF lead e(1)] by (intro split_loop_quiet) (simp add: quiet_def)
    ultimately show ?thesis using Nil by (intro exI[of _ i]) simp
  next
    case (Cons e' es')
    let ?a = "lead @ e @ [32]" and ?rest = "[32] @ join (32 # h # op @ [32]) es"
    have whole: "lead @ join (32 # h # op @ [32]) (e # es) = ?a @ h # op @ ?rest" using Cons by simp
    have src: "idrop i source = ?a @ h # op @ ?rest" using prems(4) whole by simp
    let ?j = "i + slen ?a + slen (h # op)"
    have "idrop (i + slen (?a @ h # op)) source = ?rest"
      using idrop_plus[OF prems(5), of source "?a @ h # op" ?rest] src by simp
    then have rest: "idrop ?j source = ?rest" by (simp add: slen_append add.assoc)
    have trim: "trim ?a = e" by (rule trim_pad[OF e(3,2) sp(3,2)])
    have "split_loop source (h # op) (?a @ h # op @ ?rest) i i 0 None parts =
        split_loop source (h # op) ?rest ?j ?j 0 None (parts @ [trim ?a])"
      using lead e(1) sp(1) by (intro split_loop_at_operator[OF assms(1,2) src prems(5)]) auto
    moreover have "\<exists>start. split_loop source (h # op) ?rest ?j ?j 0 None (parts @ [e]) =
        Some (Inr (start, (parts @ [e]) @ butlast es)) \<and> trim (slice source start (slen source)) = last es"
      by (rule IH) (use Cons prems(2,5) rest in \<open>simp_all del: join.simps\<close>)
    ultimately show ?thesis unfolding whole trim using Cons by (simp del: split_loop_simps join.simps)
  qed
qed simp

text \<open>The pieces that were joined with the operator between spaces come back.\<close>

lemma split_join:
  assumes "neutral h" and "h \<noteq> 63" and "h \<noteq> 32" and "es \<noteq> []" and "list_all (piece h) es"
  shows "splitExpressionAtTopLevel (join (32 # h # op @ [32]) es) (h # op) = Some es"
proof -
  obtain start where
    "split_loop (join (32 # h # op @ [32]) es) (h # op) (join (32 # h # op @ [32]) es) 0 0 0 None [] =
       Some (Inr (start, butlast es))"
    "trim (slice (join (32 # h # op @ [32]) es) start (slen (join (32 # h # op @ [32]) es))) = last es"
    using split_loop_join[OF assms, of "[]" 0 "join (32 # h # op @ [32]) es" op "[]"] by auto
  moreover have "filter (\<lambda>p. p \<noteq> []) (butlast es @ [last es]) = es"
    using assms(4,5) by (simp add: list_all_iff piece_def filter_id_conv)
  ultimately show ?thesis
    by (simp only: splitExpressionAtTopLevel_def option.map sum.case prod.case)
qed

end
