(* ===== verification/RuleFacts.thy ===== *)
theory RuleFacts
  imports BillingExpr SplitFacts
begin

text \<open>
  The request-rule parser reads back what the rule editor writes. The first part says which texts
  the regular expressions of the parser match and with which captures; the second part follows a
  rule through the builder, the two splits and the expressions.
\<close>

section \<open>Numeric text\<close>

lemma numeric_literal_chars:
  assumes "numeric_literal t"
  shows "t \<noteq> [] \<and> list_all rx_numeric t"
proof -
  obtain m where "match_all NUMERIC_LITERAL_REGEX t = Some m" using assms by (auto simp: numeric_literal_def)
  then obtain u where "matches NUMERIC_LITERAL_REGEX [] t u [] m" by (auto dest: match_all_Some)
  then show ?thesis
    by (auto simp: NUMERIC_LITERAL_REGEX_def matches_simps rx_numeric_def js_eval list_all_iff)
qed

lemma numeric_no_space: "list_all rx_numeric t \<Longrightarrow> 32 \<notin> set t"
  by (auto simp: list_all_iff rx_numeric_def is_digit_def)

lemma numeric_not_space: "rx_numeric c \<Longrightarrow> \<not> is_space c"
  by (auto simp: rx_numeric_def is_digit_def is_space_def)

lemma numeric_trim: "list_all rx_numeric t \<Longrightarrow> trim t = t"
  by (rule trim_id) (metis hd_in_set last_in_set list_all_iff numeric_not_space)

lemma numeric_quiet: "list_all rx_numeric t \<Longrightarrow> h \<in> {38, 42} \<Longrightarrow> quiet h t"
  by (rule quiet_neutral)
    (auto simp: list_all_iff rx_numeric_def is_digit_def neutral_def is_quote_def is_open_def is_close_def)

lemma in_range_numeric: "isTimeValueInRange f v \<Longrightarrow> v \<noteq> [] \<and> list_all rx_numeric v"
  using numeric_literal_chars by (simp add: isTimeValueInRange_def)

section \<open>Calls in rule text\<close>

definition call_text :: "jsstr \<Rightarrow> jsstr \<Rightarrow> jsstr" where
  "call_text f z = f @ js ''('' @ dq @ z @ dq @ js '')''"

lemma call_text_unique:
  assumes "call_text f z @ r = call_text g y @ q" and "40 \<notin> set f" and "40 \<notin> set g"
    and "34 \<notin> set z" and "34 \<notin> set y"
  shows "f = g \<and> z = y \<and> r = q"
proof -
  have "f @ 40 # 34 # z @ 34 # 41 # r = g @ 40 # 34 # y @ 34 # 41 # q"
    using assms(1) by (simp add: call_text_def js_eval)
  from delimited_unique[OF this assms(2,3)] have f: "f = g" and "z @ 34 # 41 # r = y @ 34 # 41 # q" by simp_all
  from delimited_unique[OF this(2) assms(4,5)] f show ?thesis by simp
qed

lemma time_funcs_no_paren: "f \<in> set TIME_FUNCS \<Longrightarrow> 40 \<notin> set f \<and> f \<noteq> [] \<and> hd f \<noteq> 40"
  by (auto simp: TIME_FUNCS_def js_eval)

lemma matches_quoted:
  "matches (quoted_group n) c s t r c' \<longleftrightarrow>
     (\<exists>z. z \<noteq> [] \<and> 34 \<notin> set z \<and> t = call_text [] z \<and> s = t @ r \<and> c' = (n, z) # c)"
  by (auto simp: quoted_group_def matches_simps rx_not_quote_def call_text_def list_all_iff)

lemma matches_time_call:
  "matches time_call_rx c s t r c' \<longleftrightarrow>
     (\<exists>f z. f \<in> set TIME_FUNCS \<and> z \<noteq> [] \<and> 34 \<notin> set z \<and> t = call_text f z \<and> s = t @ r \<and>
        c' = (2, z) # (1, f) # c)"
  by (auto simp: time_call_rx_def matches_simps matches_quoted call_text_def)

text \<open>The two texts of a time condition.\<close>

definition range_text :: "jsstr \<Rightarrow> jsstr \<Rightarrow> jsstr \<Rightarrow> jsstr \<Rightarrow> jsstr \<Rightarrow> jsstr" where
  "range_text f z a op b =
     call_text f z @ js '' >= '' @ a @ js '' '' @ op @ js '' '' @ call_text f z @ js '' < '' @ b"

definition scalar_text :: "jsstr \<Rightarrow> jsstr \<Rightarrow> jsstr \<Rightarrow> jsstr \<Rightarrow> jsstr" where
  "scalar_text f z op v = call_text f z @ js '' '' @ op @ js '' '' @ v"

definition range_ops :: "jsstr list" where
  "range_ops = [js ''&&'', js ''||'']"

definition scalar_ops :: "jsstr list" where
  "scalar_ops = [js ''=='', js ''>='', js ''<'']"

definition time_args :: "jsstr \<Rightarrow> jsstr \<Rightarrow> bool" where
  "time_args f z \<longleftrightarrow> f \<in> set TIME_FUNCS \<and> z \<noteq> [] \<and> 34 \<notin> set z"

lemma fits_time_call [fits_intros]:
  "time_args f z \<Longrightarrow> fits time_call_rx c (call_text f z) r ((2, z) # (1, f) # c)"
  "z \<noteq> [] \<Longrightarrow> 34 \<notin> set z \<Longrightarrow> fits (quoted_group n) c (call_text [] z) r ((n, z) # c)"
  by (auto simp: fits_def matches_time_call matches_quoted time_args_def)

lemma range_rx_alt:
  "time_range_rx = RSeqs [time_call_rx, RLit (js '' >= ''), RGroup 3 (RPlus rx_numeric), RLit (js '' ''),
     rx_words range_ops, RLit (js '' ''), RBack 1, RLit (js ''('' @ dq), RBack 2, RLit (dq @ js '')'' @ js '' < ''),
     RGroup 4 (RPlus rx_numeric)]"
  by (simp add: time_range_rx_def range_ops_def js_Cons)

lemma fits_range:
  assumes "time_args f z" and "a \<noteq> []" and "list_all rx_numeric a" and "op \<in> set range_ops"
    and "b \<noteq> []" and "list_all rx_numeric b"
  shows "fits time_range_rx c (range_text f z a op b) r ((4, b) # (3, a) # (2, z) # (1, f) # c)"
proof -
  have "fits time_range_rx c (call_text f z @ js '' >= '' @ a @ js '' '' @ op @ js '' '' @ f @ (js ''('' @ dq) @ z @
      (dq @ js '')'' @ js '' < '') @ b) r ((4, b) # (3, a) # (2, z) # (1, f) # c)"
    unfolding range_rx_alt RSeqs.simps
    by (rule fits_intros assms | simp add: cap_text_def cap_def)+
  then show ?thesis by (simp add: range_text_def call_text_def)
qed

lemma matches_range:
  "matches time_range_rx c s t r c' \<longleftrightarrow>
     (\<exists>f z a op b. time_args f z \<and> a \<noteq> [] \<and> list_all rx_numeric a \<and> op \<in> set range_ops \<and>
        b \<noteq> [] \<and> list_all rx_numeric b \<and> t = range_text f z a op b \<and> s = t @ r \<and>
        c' = (4, b) # (3, a) # (2, z) # (1, f) # c)"
  (is "?l \<longleftrightarrow> ?r")
proof
  assume ?l
  then obtain f z a op b where "f \<in> set TIME_FUNCS" "z \<noteq> []" "34 \<notin> set z" "a \<noteq> []" "list_all rx_numeric a"
    "op \<in> set range_ops" "b \<noteq> []" "list_all rx_numeric b" "c' = (4, b) # (3, a) # (2, z) # (1, f) # c"
    "t = range_text f z a op b" "s = t @ r"
    by (clarsimp simp: range_rx_alt matches_simps matches_time_call cap_text_def cap_def range_text_def call_text_def)
  then show ?r by (auto simp: time_args_def)
next
  assume ?r
  then obtain f z a op b where b: "time_args f z" "a \<noteq> []" "list_all rx_numeric a" "op \<in> set range_ops"
    "b \<noteq> []" "list_all rx_numeric b" "c' = (4, b) # (3, a) # (2, z) # (1, f) # c"
    "t = range_text f z a op b" "s = t @ r" by blast
  with fits_range[OF b(1-6), of c r] show ?l by (simp add: fits_def)
qed

lemma matches_scalar:
  "matches time_scalar_rx c s t r c' \<longleftrightarrow>
     (\<exists>f z op v. time_args f z \<and> op \<in> set scalar_ops \<and> v \<noteq> [] \<and> list_all rx_numeric v \<and>
        t = scalar_text f z op v \<and> s = t @ r \<and> c' = (4, v) # (3, op) # (2, z) # (1, f) # c)"
  by (auto simp: time_scalar_rx_def matches_simps matches_time_call time_args_def scalar_ops_def scalar_text_def)

section \<open>Time conditions\<close>

lemma range_ops_no_space: "op \<in> set range_ops \<Longrightarrow> 32 \<notin> set op"
  by (auto simp: range_ops_def js_eval)

lemma scalar_ops_no_space: "op \<in> set scalar_ops \<Longrightarrow> 32 \<notin> set op"
  by (auto simp: scalar_ops_def js_eval)

lemma time_args_call: "time_args f z \<Longrightarrow> 40 \<notin> set f \<and> 34 \<notin> set z \<and> f \<noteq> [] \<and> hd f \<noteq> 40"
  using time_funcs_no_paren by (auto simp: time_args_def)

lemma js_space: "js '' '' @ s = 32 # s"
  by (simp add: js_Cons)

lemma range_text_unique:
  assumes "range_text f z a op b @ r = range_text f' z' a' op' b' @ r'"
    and "time_args f z" and "time_args f' z'" and "list_all rx_numeric a" and "list_all rx_numeric a'"
    and "op \<in> set range_ops" and "op' \<in> set range_ops"
  shows "f = f' \<and> z = z' \<and> a = a' \<and> op = op' \<and> b @ r = b' @ r'"
proof -
  have eq: "call_text f z @ js '' >= '' @ a @ 32 # op @ 32 # call_text f z @ js '' < '' @ b @ r =
      call_text f' z' @ js '' >= '' @ a' @ 32 # op' @ 32 # call_text f' z' @ js '' < '' @ b' @ r'"
    using assms(1) by (simp add: range_text_def js_space)
  from call_text_unique[OF eq] time_args_call[OF assms(2)] time_args_call[OF assms(3)]
  have f: "f = f'" "z = z'" and "a @ 32 # op @ 32 # call_text f z @ js '' < '' @ b @ r =
      a' @ 32 # op' @ 32 # call_text f' z' @ js '' < '' @ b' @ r'" by blast+
  from delimited_unique[OF this(3)] numeric_no_space assms(4,5)
  have a: "a = a'" and "op @ 32 # call_text f z @ js '' < '' @ b @ r =
      op' @ 32 # call_text f' z' @ js '' < '' @ b' @ r'" by blast+
  from delimited_unique[OF this(2)] range_ops_no_space assms(6,7) f
  have "op = op'" "b @ r = b' @ r'" by auto
  with f a show ?thesis by simp
qed

lemma scalar_text_unique:
  assumes "scalar_text f z op v = scalar_text f' z' op' v'" and "time_args f z" and "time_args f' z'"
    and "op \<in> set scalar_ops" and "op' \<in> set scalar_ops"
  shows "f = f' \<and> z = z' \<and> op = op' \<and> v = v'"
proof -
  have eq: "call_text f z @ 32 # op @ 32 # v = call_text f' z' @ 32 # op' @ 32 # v'"
    using assms(1) by (simp add: scalar_text_def js_space)
  from call_text_unique[OF eq] time_args_call[OF assms(2)] time_args_call[OF assms(3)]
  have f: "f = f'" "z = z'" and "op @ 32 # v = op' @ 32 # v'" by simp_all
  from delimited_unique[OF this(3)] scalar_ops_no_space assms(4,5) f show ?thesis by blast
qed

lemma scalar_not_range:
  assumes "time_args f z" and "time_args f' z'" and "list_all rx_numeric v" and "op \<in> set scalar_ops"
  shows "scalar_text f z op v \<noteq> range_text f' z' a op' b"
proof
  assume "scalar_text f z op v = range_text f' z' a op' b"
  then have eq: "call_text f z @ 32 # op @ 32 # v =
      call_text f' z' @ 32 # js ''>='' @ 32 # a @ 32 # op' @ 32 # call_text f' z' @ js '' < '' @ b"
    by (simp add: scalar_text_def range_text_def js_Cons)
  from call_text_unique[OF eq] time_args_call[OF assms(1)] time_args_call[OF assms(2)]
  have "op @ 32 # v = js ''>='' @ 32 # a @ 32 # op' @ 32 # call_text f' z' @ js '' < '' @ b" by simp
  from delimited_unique[OF this] scalar_ops_no_space[OF assms(4)]
  have "v = a @ 32 # op' @ 32 # call_text f' z' @ js '' < '' @ b" by (auto simp: js_eval)
  with numeric_no_space[OF assms(3)] show False by simp
qed

lemma starts_with_call:
  assumes "time_args f z"
  shows "call_text f z @ r \<noteq> [] \<and> hd (call_text f z @ r) \<noteq> 40"
  using time_args_call[OF assms] by (auto simp: call_text_def hd_append)

lemma wrapped_range_None:
  assumes "s = [] \<or> hd s \<noteq> 40"
  shows "match_all wrapped_range_rx s = None"
  using assms by (auto simp: match_all_None wrapped_range_rx_def matches_simps js_Cons)

lemma range_rx_None:
  assumes "\<And>f z a op b. time_args f z \<Longrightarrow> list_all rx_numeric a \<Longrightarrow> op \<in> set range_ops \<Longrightarrow>
    list_all rx_numeric b \<Longrightarrow> s \<noteq> range_text f z a op b"
  shows "match_all time_range_rx s = None"
  using assms by (force simp: match_all_None matches_range)

lemma parse_range:
  assumes "time_args f z" and "isTimeValueInRange f a" and "isTimeValueInRange f b" and "op \<in> set range_ops"
  shows "tryParseTimeCondition (range_text f z a op b) =
    Some (TimeCondition \<lparr>tm_func = f, tm_timezone = z, tm_mode = MATCH_RANGE, tm_value = [],
      tm_rangeStart = a, tm_rangeEnd = b\<rparr>)"
proof -
  note n = in_range_numeric[OF assms(2)] in_range_numeric[OF assms(3)]
  have "match_all time_range_rx (range_text f z a op b) = Some [(4, b), (3, a), (2, z), (1, f)]"
  proof (rule match_all_eqI)
    show "matches time_range_rx [] (range_text f z a op b) (range_text f z a op b) [] [(4, b), (3, a), (2, z), (1, f)]"
      using assms n by (auto simp: matches_range)
  next
    fix t c
    assume "matches time_range_rx [] (range_text f z a op b) t [] c"
    then show "c = [(4, b), (3, a), (2, z), (1, f)]"
      using range_text_unique[of f z a op b "[]"] assms n by (fastforce simp: matches_range)
  qed
  with assms show ?thesis by (simp add: tryParseTimeCondition_def range_condition_def cap_text_def cap_def Let_def)
qed

lemma parse_wrapped:
  assumes "time_args f z" and "isTimeValueInRange f a" and "isTimeValueInRange f b" and "op \<in> set range_ops"
  shows "tryParseTimeCondition (40 # range_text f z a op b @ [41]) =
    Some (TimeCondition \<lparr>tm_func = f, tm_timezone = z, tm_mode = MATCH_RANGE, tm_value = [],
      tm_rangeStart = a, tm_rangeEnd = b\<rparr>)"
proof -
  let ?s = "40 # range_text f z a op b @ [41]" and ?c = "[(4, b), (3, a), (2, z), (1, f)]"
  note n = in_range_numeric[OF assms(2)] in_range_numeric[OF assms(3)]
  have "match_all time_range_rx ?s = None"
  proof (rule range_rx_None, rule notI)
    fix f' z' a' op' b'
    assume "time_args f' z'" and "40 # range_text f z a op b @ [41] = range_text f' z' a' op' b'"
    then show False using starts_with_call by (metis list.sel(1) range_text_def append_assoc)
  qed
  moreover have "match_all wrapped_range_rx ?s = Some ?c"
  proof (rule match_all_eqI)
    show "matches wrapped_range_rx [] ?s ?s [] ?c"
      using assms n by (auto simp: wrapped_range_rx_def matches_simps matches_range js_Cons)
  next
    fix t c
    assume "matches wrapped_range_rx [] ?s t [] c"
    then show "c = ?c"
      using range_text_unique[of f z a op b "[41]"] assms n
      by (fastforce simp: wrapped_range_rx_def matches_simps matches_range js_Cons)
  qed
  ultimately show ?thesis
    using assms by (simp add: tryParseTimeCondition_def range_condition_def cap_text_def cap_def Let_def)
qed

lemma parse_scalar:
  assumes "time_args f z" and "isTimeValueInRange f v" and "op \<in> set scalar_ops"
  shows "tryParseTimeCondition (scalar_text f z op v) =
    Some (TimeCondition \<lparr>tm_func = f, tm_timezone = z, tm_mode = scalar_mode op, tm_value = v,
      tm_rangeStart = [], tm_rangeEnd = []\<rparr>)"
proof -
  let ?s = "scalar_text f z op v" and ?c = "[(4, v), (3, op), (2, z), (1, f)]"
  note n = in_range_numeric[OF assms(2)]
  have "match_all time_range_rx ?s = None"
    using scalar_not_range[OF assms(1)] assms(3) n by (intro range_rx_None) blast
  moreover have "match_all wrapped_range_rx ?s = None"
    using starts_with_call[OF assms(1)] by (intro wrapped_range_None) (simp add: scalar_text_def)
  moreover have "match_all time_scalar_rx ?s = Some ?c"
  proof (rule match_all_eqI)
    show "matches time_scalar_rx [] ?s ?s [] ?c" using assms n by (auto simp: matches_scalar)
  next
    fix t c
    assume "matches time_scalar_rx [] ?s t [] c"
    then show "c = ?c" using scalar_text_unique[of f z op v] assms n by (fastforce simp: matches_scalar)
  qed
  ultimately show ?thesis
    using assms by (simp add: tryParseTimeCondition_def scalar_condition_def cap_text_def cap_def Let_def)
qed

lemma parse_time_none:
  assumes "40 \<notin> set g" and "g \<noteq> []" and "g \<notin> set TIME_FUNCS"
  shows "tryParseTimeCondition (g @ 40 # r) = None"
proof -
  have other: "g @ 40 # r \<noteq> call_text f z @ t" if "time_args f z" for f z t
  proof
    assume "g @ 40 # r = call_text f z @ t"
    then have "g @ 40 # r = f @ 40 # (34 # z @ [34, 41] @ t)" by (simp add: call_text_def js_Cons)
    from delimited_unique[OF this assms(1)] time_args_call[OF that] have "g = f" by blast
    with that assms(3) show False by (simp add: time_args_def)
  qed
  have "match_all time_range_rx (g @ 40 # r) = None"
    using other by (intro range_rx_None) (simp add: range_text_def)
  moreover have "match_all wrapped_range_rx (g @ 40 # r) = None"
    using assms by (intro wrapped_range_None) (cases g; auto)
  moreover have "match_all time_scalar_rx (g @ 40 # r) = None"
    using other by (force simp: match_all_None matches_scalar scalar_text_def)
  ultimately show ?thesis by (simp add: tryParseTimeCondition_def)
qed

end
