(* ===== verification/RuleText.thy ===== *)
theory RuleText
  imports RuleFacts
begin

text \<open>
  The text of one condition of a request rule: what the regular expressions for headers and
  parameters match, which conditions are readable, and the text the builder writes for them.
\<close>

section \<open>Quoted text in regular expressions\<close>

lemma star_captures:
  assumes "\<And>c s t r c'. matches a c s t r c' \<Longrightarrow> s = t @ r \<and> c' = c"
  shows "matches (RStar a) c s t r c' \<Longrightarrow> s = t @ r \<and> c' = c"
proof (induction "length s" arbitrary: s c t rule: less_induct)
  case less
  from less.prems consider "t = []" "r = s" "c' = c" | t1 r1 c1 t2 where "matches a c s t1 r1 c1"
      "length r1 < length s" "matches (RStar a) c1 r1 t2 r c'" "t = t1 @ t2"
    by (subst (asm) matches_star) blast
  then show ?case using less.hyps assms by cases (auto, metis append_assoc)
qed

abbreviation string_unit :: rx where
  "string_unit \<equiv> RAlt (RCls (\<lambda>c. c \<noteq> 34 \<and> c \<noteq> 92)) (RSeq (RLit [92]) (RCls rx_dot))"

lemma matches_string_star: "matches (RStar string_unit) c s t r c' \<Longrightarrow> s = t @ r \<and> c' = c"
  by (rule star_captures) (auto simp: matches_simps)

lemma matches_json_string:
  assumes "matches json_string_rx c s t r c'"
  shows "s = t @ r \<and> c' = c"
proof -
  from assms obtain b u where "matches (RStar string_unit) c u b (34 # r) c'" "s = 34 # u" "t = 34 # b @ [34]"
    unfolding json_string_rx_def RSeqs.simps matches_comp(1) matches_leaf(2) by auto
  with matches_string_star[OF this(1)] show ?thesis by simp
qed

lemma star_plain: "c \<noteq> 34 \<Longrightarrow> c \<noteq> 92 \<Longrightarrow> fits (RStar string_unit) k u r k \<Longrightarrow> fits (RStar string_unit) k (c # u) r k"
  using fits_star_step[of string_unit k "[c]" u r k k] by (simp add: fits_def matches_simps)

lemma star_escape: "rx_dot c \<Longrightarrow> fits (RStar string_unit) k u r k \<Longrightarrow> fits (RStar string_unit) k (92 # c # u) r k"
  using fits_star_step[of string_unit k "[92, c]" u r k k] by (simp add: fits_def matches_simps)

definition hex_char :: "jschar \<Rightarrow> bool" where
  "hex_char c \<longleftrightarrow> c \<in> {48..57} \<union> {97..102}"

lemma hex_digit_plain: "0 \<le> n \<Longrightarrow> n < 16 \<Longrightarrow> hex_char (hex_digit n)"
  by (auto simp: hex_digit_def hex_char_def)

lemma list_all_hex4: "list_all hex_char (hex4 c)"
  by (simp add: hex4_def hex_digit_plain)

lemma star_plains:
  "list_all (\<lambda>c. c \<noteq> 34 \<and> c \<noteq> 92) t \<Longrightarrow> fits (RStar string_unit) k u r k \<Longrightarrow>
   fits (RStar string_unit) k (t @ u) r k"
  by (induction t) (simp_all add: star_plain)

lemma star_hex4:
  assumes "fits (RStar string_unit) k u r k"
  shows "fits (RStar string_unit) k (92 # 117 # hex4 c @ u) r k"
proof (rule star_escape)
  show "fits (RStar string_unit) k (hex4 c @ u) r k"
    using list_all_hex4[of c] by (intro star_plains[OF _ assms]) (auto simp: list_all_iff hex_char_def)
qed (simp add: rx_dot_def)

lemma star_quote_char: "fits (RStar string_unit) k u r k \<Longrightarrow> fits (RStar string_unit) k (quote_char c @ u) r k"
  using star_hex4[of k u r c] by (auto simp: quote_char_def rx_dot_def intro!: star_escape star_plain)

lemma star_quote_body: "fits (RStar string_unit) k (quote_body s) r k"
proof (induction s rule: quote_body.induct)
  case 1
  then show ?case by (simp add: fits_star_Nil)
next
  case (2 c)
  then show ?case
    using star_hex4[OF fits_star_Nil, where c = c] star_quote_char[OF fits_star_Nil, where c = c] by auto
next
  case (3 c d s)
  then show ?case
    using star_hex4[where c = c] star_quote_char[where c = c]
    by (auto simp: is_high_surrogate_def is_low_surrogate_def intro!: star_plain)
qed

lemma fits_json_quote [fits_intros]: "fits json_string_rx c (json_quote s) r c"
proof -
  have "fits json_string_rx c (dq @ quote_body s @ dq) r c"
    unfolding json_string_rx_def RSeqs.simps by (rule fits_seq fits_leaf star_quote_body)+
  then show ?thesis by (simp add: json_quote_def)
qed

section \<open>Headers and parameters\<close>

lemma matches_exists:
  "matches header_exists_rx c s t r c' \<longleftrightarrow>
     (\<exists>z. z \<noteq> [] \<and> 34 \<notin> set z \<and> t = call_text (js ''header'') z @ js '' != '' @ dq @ dq \<and> s = t @ r \<and> c' = (1, z) # c)"
  "matches param_exists_rx c s t r c' \<longleftrightarrow>
     (\<exists>z. z \<noteq> [] \<and> 34 \<notin> set z \<and> t = call_text (js ''param'') z @ js '' != nil'' \<and> s = t @ r \<and> c' = (1, z) # c)"
  by (auto simp: header_exists_rx_def param_exists_rx_def matches_simps matches_quoted call_text_def)

lemma matches_header_contains:
  "matches header_contains_rx c s t r c' \<Longrightarrow>
     \<exists>z q. z \<noteq> [] \<and> 34 \<notin> set z \<and> t = js ''has('' @ call_text (js ''header'') z @ js '', '' @ q @ js '')'' \<and>
       s = t @ r \<and> c' = (2, q) # (1, z) # c"
  by (clarsimp simp: header_contains_rx_def matches_simps matches_quoted call_text_def)
    (auto dest!: matches_json_string simp: js_Cons)

lemma matches_param_long:
  "matches param_contains_rx c s t r c' \<Longrightarrow>
     \<exists>z q. z \<noteq> [] \<and> 34 \<notin> set z \<and> s = call_text (js ''param'') z @ js '' != '' @ q"
  "matches param_compare_rx c s t r c' \<Longrightarrow>
     \<exists>z q. z \<noteq> [] \<and> 34 \<notin> set z \<and> s = call_text (js ''param'') z @ js '' != '' @ q"
  by (auto simp: param_contains_rx_def param_compare_rx_def matches_simps matches_quoted call_text_def js_Cons)

lemma matches_equals:
  "matches equals_rx c s t r c' \<longleftrightarrow>
     (\<exists>f z v. f \<in> {js ''param'', js ''header''} \<and> z \<noteq> [] \<and> 34 \<notin> set z \<and> v \<noteq> [] \<and> list_all rx_dot v \<and>
        t = call_text f z @ js '' == '' @ v \<and> s = t @ r \<and> c' = (3, v) # (2, z) # (1, f) # c)"
  by (auto simp: equals_rx_def matches_simps matches_quoted call_text_def)

text \<open>The three ways a header or parameter condition is written.\<close>

definition ph_sources :: "jsstr list" where
  "ph_sources = [js ''param'', js ''header'']"

lemma ph_source_call:
  "f \<in> set ph_sources \<Longrightarrow> 40 \<notin> set f \<and> f \<noteq> [] \<and> f \<notin> set TIME_FUNCS"
  by (auto simp: ph_sources_def TIME_FUNCS_def js_Cons)

lemma other_source_call:
  assumes "f \<in> set ph_sources" and "g \<in> set ph_sources" and "34 \<notin> set z" and "34 \<notin> set y"
  shows "call_text f z @ r = call_text g y @ q \<longleftrightarrow> f = g \<and> z = y \<and> r = q"
  using call_text_unique[of f z r g y q] ph_source_call assms by blast

lemma ph_time_none:
  assumes "f \<in> set ph_sources"
  shows "tryParseTimeCondition (call_text f z @ r) = None"
    and "tryParseTimeCondition (js ''has('' @ r) = None"
proof -
  show "tryParseTimeCondition (call_text f z @ r) = None"
    using parse_time_none[of f "34 # z @ 34 # 41 # r"] ph_source_call[OF assms]
    by (simp add: call_text_def js_Cons)
  show "tryParseTimeCondition (js ''has('' @ r) = None"
    using parse_time_none[of "js ''has''" r] by (simp add: js_Cons TIME_FUNCS_def)
qed

lemma ph_sources_in [simp]: "js ''param'' \<in> set ph_sources" "js ''header'' \<in> set ph_sources"
  by (simp_all add: ph_sources_def)

lemma call_text_same [simp]: "call_text f z = call_text f y \<longleftrightarrow> z = y"
  by (simp add: call_text_def)

lemma match_exists_on_call:
  assumes "f \<in> set ph_sources" and "z \<noteq> []" and "34 \<notin> set z"
  shows "match_all header_exists_rx (call_text f z @ r) =
      (if f = js ''header'' \<and> r = js '' != '' @ dq @ dq then Some [(1, z)] else None)"
    and "match_all param_exists_rx (call_text f z @ r) =
      (if f = js ''param'' \<and> r = js '' != nil'' then Some [(1, z)] else None)"
  using assms
  by (auto simp: match_all_None matches_exists other_source_call intro!: match_all_eqI)

lemma has_not_call: "f \<in> set ph_sources \<Longrightarrow> js ''has('' @ q \<noteq> call_text f z @ r"
  by (auto simp: ph_sources_def call_text_def js_Cons)

lemma match_on_has:
  "match_all header_exists_rx (js ''has('' @ q) = None"
  "match_all param_exists_rx (js ''has('' @ q) = None"
  using has_not_call by (auto simp: match_all_None matches_exists)

lemma match_contains_on_call:
  "f \<in> set ph_sources \<Longrightarrow> match_all header_contains_rx (call_text f z @ r) = None"
  by (auto simp: match_all_None dest!: matches_header_contains dest: has_not_call[THEN notE, OF _ sym])

lemma match_long_on_call:
  assumes "f \<in> set ph_sources" and "34 \<notin> set z" and "\<not> (\<exists>q. r = js '' != '' @ q)"
  shows "match_all param_contains_rx (call_text f z @ r) = None"
    and "match_all param_compare_rx (call_text f z @ r) = None"
  using assms by (auto simp: match_all_None other_source_call dest!: matches_param_long)

lemma parse_exists:
  assumes "f \<in> set ph_sources" and "z \<noteq> []" and "34 \<notin> set z"
  shows "tryParseRequestCondition (call_text f z @ (if f = js ''header'' then js '' != '' @ dq @ dq else js '' != nil'')) =
    Inr (Some (ph f z MATCH_EXISTS []))"
  using assms ph_time_none(1)[OF assms(1)] match_exists_on_call[OF assms]
  by (auto simp: tryParseRequestCondition_def ph_sources_def cap_text_def cap_def)

lemma parse_contains:
  assumes "z \<noteq> []" and "34 \<notin> set z" and "valid_text v"
  shows "tryParseRequestCondition (js ''has('' @ call_text (js ''header'') z @ js '', '' @ json_quote v @ js '')'') =
    Inr (Some (ph (js ''header'') z MATCH_CONTAINS v))"
proof -
  let ?s = "js ''has('' @ call_text (js ''header'') z @ js '', '' @ json_quote v @ js '')''"
  have "match_all header_contains_rx ?s = Some [(2, json_quote v), (1, z)]"
  proof (rule match_all_eqI)
    have "fits header_contains_rx [] (js ''has(header'' @ call_text [] z @ js '', '' @ json_quote v @ js '')'') []
        [(2, json_quote v), (1, z)]"
      unfolding header_contains_rx_def RSeqs.simps by (rule fits_intros assms)+
    then show "matches header_contains_rx [] ?s ?s [] [(2, json_quote v), (1, z)]"
      by (simp add: fits_def call_text_def js_Cons)
  next
    fix t c
    assume "matches header_contains_rx [] ?s t [] c"
    then obtain y q where y: "34 \<notin> set y" "c = [(2, q), (1, y)]"
      "?s = js ''has('' @ call_text (js ''header'') y @ js '', '' @ q @ js '')''"
      using matches_header_contains by fastforce
    then have "call_text (js ''header'') z @ js '', '' @ json_quote v @ js '')'' =
        call_text (js ''header'') y @ js '', '' @ q @ js '')''" by simp
    with y assms(2) show "c = [(2, json_quote v), (1, z)]" by (simp add: other_source_call)
  qed
  then show ?thesis
    using ph_time_none(2)[of "js ''header''"] assms(3)
    by (simp add: tryParseRequestCondition_def match_on_has contains_condition_def cap_text_def cap_def json_parse_quote)
qed

lemma parse_equals:
  assumes "f \<in> set ph_sources" and "z \<noteq> []" and "34 \<notin> set z" and "v \<noteq> []" and "list_all rx_dot v"
    and "parseExprLiteral v = VStr w"
  shows "tryParseRequestCondition (call_text f z @ js '' == '' @ v) = Inr (Some (ph f z MATCH_EQ w))"
proof -
  have "match_all equals_rx (call_text f z @ js '' == '' @ v) = Some [(3, v), (2, z), (1, f)]"
    using assms by (intro match_all_eqI) (auto simp: matches_equals other_source_call ph_sources_def)
  moreover have "\<not> (\<exists>q. js '' == '' @ v = js '' != '' @ q)" by (simp add: js_Cons)
  ultimately show ?thesis
    using assms ph_time_none(1)[OF assms(1)] match_exists_on_call[OF assms(1-3)]
      match_contains_on_call[OF assms(1)] match_long_on_call[OF assms(1,3)]
    by (simp add: tryParseRequestCondition_def equals_condition_def same_path_def cap_text_def cap_def js_Cons)
qed

section \<open>Readable conditions\<close>

text \<open>
  Text that is the same inside and outside of JSON quotes, without the bar, which would make the
  builder add parentheses around a condition of a conjunction.
\<close>

definition plain_char :: "jschar \<Rightarrow> bool" where
  "plain_char c \<longleftrightarrow> 32 \<le> c \<and> c < 55296 \<and> c \<notin> {34, 92, 124}"

definition plain_text :: "jsstr \<Rightarrow> bool" where
  "plain_text z \<longleftrightarrow> z \<noteq> [] \<and> list_all plain_char z"

definition readable_value :: "jsstr \<Rightarrow> bool" where
  "readable_value v \<longleftrightarrow> trim v = v \<and> valid_text v \<and> 124 \<notin> set v"

fun readable :: "request_condition \<Rightarrow> bool" where
  "readable (TimeCondition t) \<longleftrightarrow>
     tm_func t \<in> set TIME_FUNCS \<and> plain_text (tm_timezone t) \<and>
     (if tm_mode t = MATCH_RANGE then
        tm_value t = [] \<and> isTimeValueInRange (tm_func t) (tm_rangeStart t) \<and>
        isTimeValueInRange (tm_func t) (tm_rangeEnd t)
      else
        tm_mode t \<in> set [MATCH_EQ, MATCH_GTE, MATCH_LT] \<and> isTimeValueInRange (tm_func t) (tm_value t) \<and>
        tm_rangeStart t = [] \<and> tm_rangeEnd t = [])"
| "readable (ParamHeader p) \<longleftrightarrow>
     ph_source p \<in> set ph_sources \<and> plain_text (ph_path p) \<and> trim (ph_path p) = ph_path p \<and>
     (if ph_mode p = MATCH_EXISTS then ph_value p = []
      else if ph_mode p = MATCH_CONTAINS then ph_source p = SOURCE_HEADER \<and> readable_value (ph_value p)
      else ph_mode p = MATCH_EQ \<and> readable_value (ph_value p) \<and> 8232 \<notin> set (ph_value p) \<and> 8233 \<notin> set (ph_value p))"

definition range_op :: "time_condition \<Rightarrow> jsstr" where
  "range_op t = (if num_lt (js_number (tm_rangeEnd t)) (js_number (tm_rangeStart t)) then js ''||'' else js ''&&'')"

text \<open>The text of a readable condition, and the pieces it has in a conjunction.\<close>

fun rule_text :: "request_condition \<Rightarrow> jsstr" where
  "rule_text (TimeCondition t) =
     (if tm_mode t = MATCH_RANGE
      then range_text (tm_func t) (tm_timezone t) (tm_rangeStart t) (range_op t) (tm_rangeEnd t)
      else scalar_text (tm_func t) (tm_timezone t) (scalar_operator (tm_mode t)) (tm_value t))"
| "rule_text (ParamHeader p) =
     (let call = call_text (ph_source p) (ph_path p) in
      if ph_mode p = MATCH_EXISTS then
        call @ (if ph_source p = js ''header'' then js '' != '' @ dq @ dq else js '' != nil'')
      else if ph_mode p = MATCH_CONTAINS then js ''has('' @ call @ js '', '' @ json_quote (ph_value p) @ js '')''
      else call @ js '' == '' @ buildExprLiteral MATCH_EQ (ph_value p))"

definition split_range :: "time_condition \<Rightarrow> bool" where
  "split_range t \<longleftrightarrow> tm_mode t = MATCH_RANGE \<and> range_op t = js ''&&''"

definition wrapped_range :: "time_condition \<Rightarrow> bool" where
  "wrapped_range t \<longleftrightarrow> tm_mode t = MATCH_RANGE \<and> range_op t \<noteq> js ''&&''"

fun cond_pieces :: "request_condition \<Rightarrow> jsstr list" where
  "cond_pieces (TimeCondition t) =
     (if split_range t
      then [scalar_text (tm_func t) (tm_timezone t) (js ''>='') (tm_rangeStart t),
            scalar_text (tm_func t) (tm_timezone t) (js ''<'') (tm_rangeEnd t)]
      else if wrapped_range t then [40 # rule_text (TimeCondition t) @ [41]]
      else [rule_text (TimeCondition t)])"
| "cond_pieces (ParamHeader p) = [rule_text (ParamHeader p)]"

lemmas match_modes = MATCH_EQ_def MATCH_CONTAINS_def MATCH_GT_def MATCH_GTE_def MATCH_LT_def MATCH_LTE_def
  MATCH_EXISTS_def MATCH_RANGE_def SOURCE_PARAM_def SOURCE_HEADER_def SOURCE_TIME_def

lemma quote_plain: "list_all plain_char z \<Longrightarrow> quote_body z = z"
  by (induction z rule: quote_body.induct)
    (auto simp: plain_char_def quote_char_def is_high_surrogate_def is_low_surrogate_def)

lemma plain_call: "plain_text z \<Longrightarrow> f @ js ''('' @ json_quote z @ js '')'' = call_text f z"
  by (simp add: plain_text_def json_quote_def call_text_def quote_plain)

lemma plain_no_quote: "plain_text z \<Longrightarrow> z \<noteq> [] \<and> 34 \<notin> set z \<and> 124 \<notin> set z"
  by (auto simp: plain_text_def plain_char_def list_all_iff)

lemma normalize_readable: "readable c \<Longrightarrow> normalizeCondition (Some (partial_of c)) = c"
  by (cases c)
    (auto simp: normalizeCondition_def ph_sources_def plain_text_def isTimeFunc_def or_empty_def kept_mode_def
      getRequestRuleMatchOptions_def option_of_def match_modes ph_def Let_def split: if_splits)

lemma in_range_not_Nil [simp]: "\<not> isTimeValueInRange f []"
  using in_range_numeric by blast

lemma in_range_trim: "isTimeValueInRange f v \<Longrightarrow> trim v = v"
  using in_range_numeric numeric_trim by blast

lemma spaced_ops:
  "js '' || '' = js '' '' @ js ''||'' @ js '' ''" "js '' && '' = js '' '' @ js ''&&'' @ js '' ''"
  "js ''param('' = js ''param'' @ js ''(''" "js ''header('' = js ''header'' @ js ''(''"
  by (simp_all add: js_Cons)

lemma build_readable:
  assumes "readable c"
  shows "buildRequestConditionExpr c = rule_text c"
proof (cases c)
  case (TimeCondition t)
  with assms show ?thesis
    using plain_call[of "tm_timezone t" "tm_func t"]
    by (auto simp: buildRequestConditionExpr_def normalize_readable time_expr_def in_range_trim range_text_def
      range_op_def scalar_text_def spaced_ops Let_def simp del: partial_of.simps split: if_splits)
next
  case (ParamHeader p)
  with assms show ?thesis
    using plain_call[of "ph_path p" "ph_source p"]
    by (auto simp: buildRequestConditionExpr_def normalize_readable ph_expr_def ph_sources_def readable_value_def
      buildExprLiteral_def match_modes spaced_ops(3,4) Let_def plain_text_def simp del: partial_of.simps split: if_splits)
qed

end
