(* ===== verification/RuleConj.thy ===== *)
theory RuleConj
  imports RuleText
begin

text \<open>
  The conditions of one group of a request rule: the conjunction that the builder writes is taken
  apart into the pieces of its conditions, and the parser reads the conditions back from them.
\<close>

section \<open>Pieces of a conjunction\<close>

lemma quiet_call:
  assumes "plain_text z" and "list_all neutral f" and "h \<notin> set f" and "63 \<notin> set f" and "h \<noteq> 41"
  shows "quiet h (call_text f z)"
proof -
  have "quiet h (f @ (40 # json_quote z @ [41]))"
    using assms by (intro quiet_append quiet_neutral quiet_parens quiet_balanced quiet_json_quote)
  with plain_call[OF assms(1), of f] show ?thesis by (simp add: js_Cons)
qed

lemma neutral_names:
  "f \<in> set TIME_FUNCS \<or> f \<in> set ph_sources \<Longrightarrow> h \<in> {38, 42} \<Longrightarrow> list_all neutral f \<and> h \<notin> set f \<and> 63 \<notin> set f"
  by (auto simp: TIME_FUNCS_def ph_sources_def js_Cons neutral_def is_quote_def is_open_def is_close_def)

lemma quiet_named_call:
  "plain_text z \<Longrightarrow> f \<in> set TIME_FUNCS \<or> f \<in> set ph_sources \<Longrightarrow> h \<in> {38, 42} \<Longrightarrow> quiet h (call_text f z)"
  using neutral_names by (intro quiet_call) auto

lemma quiet_js:
  "h \<in> {38, 42} \<Longrightarrow> quiet h (js '' >= '')" "h \<in> {38, 42} \<Longrightarrow> quiet h (js '' < '')"
  "h \<in> {38, 42} \<Longrightarrow> quiet h (js '' '')" "h \<in> {38, 42} \<Longrightarrow> quiet h (js '' == '')"
  "h \<in> {38, 42} \<Longrightarrow> quiet h (js '' != nil'')" "h \<in> {38, 42} \<Longrightarrow> quiet h (js '' != '' @ dq @ dq)"
  "h \<in> {38, 42} \<Longrightarrow> quiet h (js ''||'')" "quiet 42 (js ''&&'')"
  "h \<in> {38, 42} \<Longrightarrow> quiet h (js ''has'')"  "h \<in> {38, 42} \<Longrightarrow> quiet h (js '', '')"
  "h \<in> {38, 42} \<Longrightarrow> quiet h (js ''true'')"  "h \<in> {38, 42} \<Longrightarrow> quiet h (js ''false'')"
  by (auto simp: quiet_def js_Cons is_quote_def is_open_def is_close_def)

lemma quiet_scalar_op: "op \<in> set scalar_ops \<Longrightarrow> h \<in> {38, 42} \<Longrightarrow> quiet h op"
  by (auto simp: scalar_ops_def quiet_def js_Cons is_quote_def is_open_def is_close_def)

lemma quiet_scalar:
  assumes "plain_text z" and "f \<in> set TIME_FUNCS" and "op \<in> set scalar_ops" and "list_all rx_numeric v" and "h \<in> {38, 42}"
  shows "quiet h (scalar_text f z op v)"
  using quiet_named_call[OF assms(1) _ assms(5), of f] quiet_scalar_op[OF assms(3,5)] numeric_quiet[OF assms(4,5)]
    assms(2) quiet_js(3)[OF assms(5)] by (simp add: scalar_text_def quiet_append)

lemma quiet_range:
  assumes "plain_text z" and "f \<in> set TIME_FUNCS" and "list_all rx_numeric a" and "list_all rx_numeric b"
    and "quiet h op" and "h \<in> {38, 42}"
  shows "quiet h (range_text f z a op b)"
  using quiet_named_call[OF assms(1) _ assms(6), of f] numeric_quiet[OF assms(3,6)] numeric_quiet[OF assms(4,6)]
    assms(2,5) quiet_js(1-3)[OF assms(6)] by (simp add: range_text_def quiet_append)

lemma quiet_literal: "h \<in> {38, 42} \<Longrightarrow> quiet h (buildExprLiteral m v)"
  using quiet_js(11,12) numeric_quiet numeric_literal_chars
  by (auto simp: buildExprLiteral_def is_truth_word_def Let_def)

lemma scalar_operator_ops: "scalar_operator m \<in> set scalar_ops"
  by (simp add: scalar_operator_def scalar_ops_def)

lemma quiet_ph:
  assumes "readable (ParamHeader p)" and "h \<in> {38, 42}"
  shows "quiet h (rule_text (ParamHeader p))"
proof -
  have call: "quiet h (call_text (ph_source p) (ph_path p))" using assms by (intro quiet_named_call) auto
  have "quiet h (40 # (call_text (ph_source p) (ph_path p) @ js '', '' @ json_quote (ph_value p)) @ [41])"
    using assms(2) quiet_js(10) by (intro quiet_parens quiet_balanced quiet_append call quiet_json_quote) auto
  with quiet_js(9) assms(2)
  have "quiet h (js ''has('' @ call_text (ph_source p) (ph_path p) @ js '', '' @ json_quote (ph_value p) @ js '')'')"
    using quiet_append[of h "js ''has''"] by (fastforce simp: js_Cons)
  then show ?thesis
    using call quiet_js(4-6)[OF assms(2)] quiet_literal[OF assms(2)] by (simp add: Let_def quiet_append)
qed

lemma quiet_time:
  assumes "readable (TimeCondition t)" and "h \<in> {38, 42}" and "h = 42 \<or> \<not> split_range t"
  shows "quiet h (rule_text (TimeCondition t))"
proof -
  have "quiet h (range_op t)" if "tm_mode t = MATCH_RANGE"
    using assms that quiet_js(7,8) by (auto simp: range_op_def split_range_def)
  with assms show ?thesis
    using in_range_numeric scalar_operator_ops by (auto intro!: quiet_range quiet_scalar split: if_splits)
qed

lemma pieces_quiet:
  assumes "readable c"
  shows "list_all (quiet 38) (cond_pieces c)"
proof (cases c)
  case (TimeCondition t)
  have "quiet 38 (40 # rule_text (TimeCondition t) @ [41])" if "\<not> split_range t"
    using quiet_time[of t 38] assms TimeCondition that by (intro quiet_parens quiet_balanced) auto
  then show ?thesis
    using quiet_time[of t 38] assms TimeCondition in_range_numeric
    by (auto simp: split_range_def scalar_ops_def simp del: rule_text.simps intro!: quiet_scalar)
next
  case (ParamHeader p)
  then show ?thesis using quiet_ph assms by simp
qed

lemma trim_call:
  assumes "f \<in> set TIME_FUNCS \<or> f \<in> set ph_sources" and "r \<noteq> []" and "\<not> is_space (last r)"
  shows "trim (call_text f z @ r) = call_text f z @ r"
proof (rule trim_id)
  have "f \<noteq> [] \<and> \<not> is_space (hd f)"
    using assms(1) by (auto simp: TIME_FUNCS_def ph_sources_def js_Cons is_space_def)
  with assms(2,3) show "call_text f z @ r = [] \<or>
      \<not> is_space (hd (call_text f z @ r)) \<and> \<not> is_space (last (call_text f z @ r))"
    by (simp add: call_text_def hd_append)
qed

lemma numeric_last: "v \<noteq> [] \<Longrightarrow> list_all rx_numeric v \<Longrightarrow> \<not> is_space (last v)"
  by (metis last_in_set list_all_iff numeric_not_space)

lemma literal_last: "buildExprLiteral m v \<noteq> [] \<and> \<not> is_space (last (buildExprLiteral m v))"
  using numeric_literal_chars[of "trim v"] numeric_last[of "trim v"]
  by (auto simp: buildExprLiteral_def is_truth_word_def json_quote_def js_Cons is_space_def Let_def)

lemma trim_scalar:
  assumes "f \<in> set TIME_FUNCS" and "v \<noteq> []" and "list_all rx_numeric v"
  shows "trim (scalar_text f z op v) = scalar_text f z op v"
  unfolding scalar_text_def using assms numeric_last[OF assms(2,3)] by (intro trim_call) auto

lemma trim_range:
  assumes "f \<in> set TIME_FUNCS" and "b \<noteq> []" and "list_all rx_numeric b"
  shows "trim (range_text f z a op b) = range_text f z a op b"
  unfolding range_text_def using assms numeric_last[OF assms(2,3)] by (intro trim_call) auto

lemma trim_parens: "trim (40 # e @ [41]) = 40 # e @ [41]"
  by (rule trim_id) (simp add: is_space_def)

lemma trim_rule_text:
  assumes "readable c"
  shows "trim (rule_text c) = rule_text c"
proof (cases c)
  case (TimeCondition t)
  then show ?thesis using assms in_range_numeric by (auto intro!: trim_range trim_scalar)
next
  case (ParamHeader p)
  have has: "trim (js ''has('' @ e @ js '')'') = js ''has('' @ e @ js '')''" for e
    by (rule trim_id) (simp add: js_Cons is_space_def)
  have call: "trim (call_text (ph_source p) (ph_path p) @ r) = call_text (ph_source p) (ph_path p) @ r"
    if "r \<noteq> []" "\<not> is_space (last r)" for r
    using assms ParamHeader that by (intro trim_call) auto
  have ends: "\<not> is_space (last (js '' != '' @ dq @ dq))" "\<not> is_space (last (js '' != nil''))"
    by (simp_all add: js_Cons is_space_def)
  show ?thesis
    using has[of "call_text (ph_source p) (ph_path p) @ js '', '' @ json_quote (ph_value p)"]
      call[OF _ ends(1)] call[OF _ ends(2)] call[of "js '' == '' @ buildExprLiteral MATCH_EQ (ph_value p)"]
      literal_last[of MATCH_EQ "ph_value p"] ParamHeader by (auto simp: Let_def)
qed

lemma rule_text_not_Nil: "rule_text c \<noteq> []"
  by (cases c) (auto simp: range_text_def scalar_text_def call_text_def Let_def)

lemma pieces_trim:
  assumes "readable c"
  shows "list_all (\<lambda>e. e \<noteq> [] \<and> trim e = e) (cond_pieces c)"
proof (cases c)
  case (TimeCondition t)
  then show ?thesis
    using trim_rule_text[OF assms] rule_text_not_Nil[of c] trim_parens assms in_range_numeric trim_scalar
    by (auto simp: split_range_def scalar_text_def[of _ _ _ "[]"] simp del: rule_text.simps)
      (simp_all add: scalar_text_def call_text_def)
next
  case (ParamHeader p)
  then show ?thesis using trim_rule_text[OF assms] rule_text_not_Nil[of c] by (simp del: rule_text.simps)
qed

lemma pieces_piece: "readable c \<Longrightarrow> list_all (piece 38) (cond_pieces c)"
  using pieces_quiet pieces_trim by (fastforce simp: piece_def list_all_iff)

section \<open>Conjunctions\<close>

lemma bar_quote: "124 \<notin> set v \<Longrightarrow> 124 \<notin> set (json_quote v)"
proof -
  have hex: "124 \<notin> set (hex4 c)" for c
    using list_all_hex4[of c] by (auto simp: list_all_iff hex_char_def)
  have "124 \<notin> set v \<Longrightarrow> 124 \<notin> set (quote_body v)"
    by (induction v rule: quote_body.induct) (auto simp: hex quote_char_def)
  then show "124 \<notin> set v \<Longrightarrow> 124 \<notin> set (json_quote v)" by (simp add: json_quote_def)
qed

lemma numeric_no_bar: "list_all rx_numeric v \<Longrightarrow> 124 \<notin> set v"
  by (auto simp: list_all_iff rx_numeric_def is_digit_def)

lemma names_no_bar: "f \<in> set TIME_FUNCS \<or> f \<in> set ph_sources \<Longrightarrow> 124 \<notin> set f"
  by (auto simp: TIME_FUNCS_def ph_sources_def js_Cons)

lemma literal_no_bar: "readable_value v \<Longrightarrow> 124 \<notin> set (buildExprLiteral m v)"
  using bar_quote numeric_no_bar numeric_literal_chars
  by (auto simp: buildExprLiteral_def is_truth_word_def readable_value_def js_Cons Let_def)

lemma call_no_bar:
  "f \<in> set TIME_FUNCS \<or> f \<in> set ph_sources \<Longrightarrow> plain_text z \<Longrightarrow> 124 \<notin> set (call_text f z)"
  using names_no_bar plain_no_quote by (auto simp: call_text_def js_Cons)

lemma rule_text_no_bar:
  assumes "readable c" and "\<forall>t. c = TimeCondition t \<longrightarrow> \<not> wrapped_range t"
  shows "124 \<notin> set (rule_text c)"
proof (cases c)
  case (TimeCondition t)
  have "124 \<notin> set (call_text (tm_func t) (tm_timezone t))" using assms TimeCondition by (intro call_no_bar) auto
  with TimeCondition assms show ?thesis
    using in_range_numeric[THEN conjunct2, THEN numeric_no_bar]
    by (auto simp: range_text_def scalar_text_def wrapped_range_def scalar_operator_def js_Cons split: if_splits)
next
  case (ParamHeader p)
  have "124 \<notin> set (call_text (ph_source p) (ph_path p))" using assms ParamHeader by (intro call_no_bar) auto
  with ParamHeader assms show ?thesis
    using literal_no_bar bar_quote
    by (auto simp: Let_def js_Cons readable_value_def split: if_splits)
qed

lemma split_range_text:
  "split_range t \<Longrightarrow> rule_text (TimeCondition t) =
     scalar_text (tm_func t) (tm_timezone t) (js ''>='') (tm_rangeStart t) @ js '' && '' @
     scalar_text (tm_func t) (tm_timezone t) (js ''<'') (tm_rangeEnd t)"
  by (simp add: split_range_def range_text_def scalar_text_def js_Cons)

lemma wrapped_has_bar: "wrapped_range t \<Longrightarrow> str_includes (rule_text (TimeCondition t)) (js '' || '')"
  unfolding str_includes_iff
  by (rule exI[of _ "call_text (tm_func t) (tm_timezone t) @ js '' >= '' @ tm_rangeStart t"],
      rule exI[of _ "call_text (tm_func t) (tm_timezone t) @ js '' < '' @ tm_rangeEnd t"])
    (auto simp: wrapped_range_def range_op_def range_text_def spaced_ops split: if_splits)

lemma no_bar_no_or: "124 \<notin> set s \<Longrightarrow> \<not> str_includes s (js '' || '')"
  by (auto simp: str_includes_iff js_Cons)

text \<open>A condition in a conjunction is the conjunction of its pieces.\<close>

lemma join_pieces:
  assumes "readable c"
  shows "join (js '' && '') (cond_pieces c) =
    (if str_includes (rule_text c) (js '' || '') then js ''('' @ rule_text c @ js '')'' else rule_text c)"
proof (cases "\<exists>t. c = TimeCondition t \<and> wrapped_range t")
  case True
  then obtain t where "c = TimeCondition t" "wrapped_range t" by blast
  moreover from this have "\<not> split_range t" by (auto simp: wrapped_range_def split_range_def)
  ultimately show ?thesis using wrapped_has_bar by (simp add: js_Cons del: rule_text.simps)
next
  case False
  with rule_text_no_bar[OF assms] no_bar_no_or have "\<not> str_includes (rule_text c) (js '' || '')" by blast
  with False show ?thesis
    by (cases c) (auto simp: split_range_text simp del: rule_text.simps)
qed

lemma join_append: "xs \<noteq> [] \<Longrightarrow> ys \<noteq> [] \<Longrightarrow> join sep (xs @ ys) = join sep xs @ sep @ join sep ys"
  by (induction sep xs rule: join.induct) (simp_all add: join_Cons)

lemma join_concat:
  "list_all (\<lambda>ps. ps \<noteq> []) pss \<Longrightarrow> join sep (concat pss) = join sep (map (join sep) pss)"
proof (induction pss)
  case (Cons ps pss)
  then show ?case by (cases pss) (auto simp: join_append)
qed simp

lemma pieces_not_Nil [simp]: "cond_pieces c \<noteq> []"
  by (cases c) (auto simp del: rule_text.simps)

fun mergeable :: "request_condition \<Rightarrow> request_condition \<Rightarrow> bool" where
  "mergeable (TimeCondition a) (TimeCondition b) \<longleftrightarrow>
     tm_mode a = MATCH_GTE \<and> tm_mode b = MATCH_LT \<and> tm_func a = tm_func b \<and> tm_timezone a = tm_timezone b"
| "mergeable _ _ \<longleftrightarrow> False"

text \<open>No lower bound is directly followed by an upper bound on the same clock.\<close>

fun separate :: "request_condition list \<Rightarrow> bool" where
  "separate (c # d # cs) \<longleftrightarrow> \<not> mergeable c d \<and> separate (d # cs)"
| "separate [c] \<longleftrightarrow> True"
| "separate [] \<longleftrightarrow> True"

definition lower_bound :: "time_condition \<Rightarrow> time_condition" where
  "lower_bound t = t\<lparr>tm_mode := MATCH_GTE, tm_value := tm_rangeStart t, tm_rangeStart := [], tm_rangeEnd := []\<rparr>"

definition upper_bound :: "time_condition \<Rightarrow> time_condition" where
  "upper_bound t = t\<lparr>tm_mode := MATCH_LT, tm_value := tm_rangeEnd t, tm_rangeStart := [], tm_rangeEnd := []\<rparr>"

lemma readable_time_args: "readable (TimeCondition t) \<Longrightarrow> time_args (tm_func t) (tm_timezone t)"
  using plain_no_quote by (auto simp: time_args_def)

lemma scalar_mode_operator: "m \<in> {MATCH_EQ, MATCH_GTE, MATCH_LT} \<Longrightarrow> scalar_mode (scalar_operator m) = m"
  by (auto simp: scalar_mode_def scalar_operator_def match_modes)

lemma time_piece:
  assumes "readable (TimeCondition t)"
  shows "tryParseTimeCondition (hd (cond_pieces (TimeCondition t))) =
    Some (TimeCondition (if split_range t then lower_bound t else t))"
    and "tryParseTimeCondition (rule_text (TimeCondition t)) = Some (TimeCondition t)"
    and "split_range t \<Longrightarrow> tryParseTimeCondition
      (scalar_text (tm_func t) (tm_timezone t) (js ''<'') (tm_rangeEnd t)) = Some (TimeCondition (upper_bound t))"
proof -
  have ops: "range_op t \<in> set range_ops" by (simp add: range_op_def range_ops_def)
  have t: "t = \<lparr>tm_func = tm_func t, tm_timezone = tm_timezone t, tm_mode = tm_mode t, tm_value = tm_value t,
      tm_rangeStart = tm_rangeStart t, tm_rangeEnd = tm_rangeEnd t\<rparr>" by (cases t) simp
  show whole: "tryParseTimeCondition (rule_text (TimeCondition t)) = Some (TimeCondition t)"
    using assms readable_time_args[OF assms] ops scalar_mode_operator[of "tm_mode t"] t
      parse_scalar[OF readable_time_args[OF assms] _ scalar_operator_ops]
    by (cases "tm_mode t = MATCH_RANGE") (auto simp: parse_range)
  show "split_range t \<Longrightarrow> tryParseTimeCondition
      (scalar_text (tm_func t) (tm_timezone t) (js ''<'') (tm_rangeEnd t)) = Some (TimeCondition (upper_bound t))"
    using assms parse_scalar[OF readable_time_args[OF assms], of "tm_rangeEnd t" "js ''<''"]
    by (cases t) (simp add: split_range_def upper_bound_def scalar_ops_def scalar_mode_def)
  show "tryParseTimeCondition (hd (cond_pieces (TimeCondition t))) =
      Some (TimeCondition (if split_range t then lower_bound t else t))"
  proof (cases "split_range t")
    case True
    then show ?thesis
      using assms parse_scalar[OF readable_time_args[OF assms], of "tm_rangeStart t" "js ''>=''"]
      by (cases t) (simp add: split_range_def lower_bound_def scalar_ops_def scalar_mode_def)
  next
    case False
    then show ?thesis
      using whole assms ops t parse_wrapped[OF readable_time_args[OF assms], of "tm_rangeStart t" "tm_rangeEnd t" "range_op t"]
      by (auto simp: wrapped_range_def)
  qed
qed

declare readable.simps [simp del] rule_text.simps [simp del] cond_pieces.simps [simp del]

lemma readable_literal:
  assumes "readable_value v"
  shows "parseExprLiteral (buildExprLiteral MATCH_EQ v) = VStr v"
proof -
  have trims: "trim (json_quote v) = json_quote v"
    by (rule trim_id) (simp add: json_quote_def is_space_def)
  have first: "\<not> is_truth_word (json_quote v)" by (simp add: is_truth_word_def json_quote_def js_Cons)
  have "\<not> numeric_literal (json_quote v)"
    using numeric_literal_chars[of "json_quote v"] by (auto simp: json_quote_def rx_numeric_def is_digit_def)
  with trims first assms show ?thesis
    by (auto simp: parseExprLiteral_def buildExprLiteral_def readable_value_def json_parse_quote match_modes Let_def)
qed

lemma dot_quote:
  assumes "8232 \<notin> set v" and "8233 \<notin> set v"
  shows "list_all rx_dot (json_quote v)"
proof -
  have hex: "list_all rx_dot (hex4 c)" for c
    using list_all_hex4[of c] by (auto simp: list_all_iff hex_char_def rx_dot_def)
  have "list_all rx_dot (quote_body v)"
    using assms
    by (induction v rule: quote_body.induct)
      (auto simp: hex quote_char_def rx_dot_def is_high_surrogate_def is_low_surrogate_def)
  then show ?thesis by (simp add: json_quote_def rx_dot_def)
qed

lemma dot_literal:
  assumes "8232 \<notin> set v" and "8233 \<notin> set v" and "trim v = v"
  shows "list_all rx_dot (buildExprLiteral MATCH_EQ v)"
proof -
  have "list_all rx_dot v" if "list_all rx_numeric v"
    using that by (rule list.pred_mono_strong) (auto simp: rx_numeric_def is_digit_def rx_dot_def)
  moreover have "list_all rx_dot (js ''true'')" "list_all rx_dot (js ''false'')"
    by (simp_all add: js_Cons rx_dot_def)
  ultimately show ?thesis
    using dot_quote[OF assms(1,2)] numeric_literal_chars[of v] assms(3)
    by (auto simp: buildExprLiteral_def is_truth_word_def Let_def)
qed

lemma parse_ph:
  assumes "readable (ParamHeader p)"
  shows "tryParseRequestCondition (rule_text (ParamHeader p)) = Inr (Some (ParamHeader p))"
    and "tryParseTimeCondition (rule_text (ParamHeader p)) = None"
proof -
  have p: "ParamHeader p = ph (ph_source p) (ph_path p) (ph_mode p) (ph_value p)" by (cases p) (simp add: ph_def)
  have z: "ph_source p \<in> set ph_sources" "ph_path p \<noteq> []" "34 \<notin> set (ph_path p)"
    using assms plain_no_quote by (auto simp: readable.simps)
  show "tryParseTimeCondition (rule_text (ParamHeader p)) = None"
    using ph_time_none[OF z(1)] by (simp add: rule_text.simps Let_def)
  have lit: "buildExprLiteral MATCH_EQ (ph_value p) \<noteq> []" using literal_last by blast
  have "tryParseRequestCondition (rule_text (ParamHeader p)) =
      Inr (Some (ph (ph_source p) (ph_path p) (ph_mode p) (ph_value p)))"
    unfolding rule_text.simps
    using assms parse_exists[OF z] parse_contains[OF z(2,3), of "ph_value p"]
      parse_equals[OF z lit dot_literal readable_literal]
    by (auto simp: readable.simps Let_def readable_value_def match_modes split: if_splits)
  then show "tryParseRequestCondition (rule_text (ParamHeader p)) = Inr (Some (ParamHeader p))" by (simp add: p)
qed

lemma parse_piece:
  assumes "readable c" and "\<forall>t. c = TimeCondition t \<longrightarrow> \<not> split_range t"
  shows "\<exists>e. cond_pieces c = [e] \<and> trim e = e \<and> tryParseRequestCondition e = Inr (Some c)"
proof (cases c)
  case (TimeCondition t)
  then obtain e where e: "cond_pieces c = [e]"
    using assms(2) by (cases "wrapped_range t") (auto simp: cond_pieces.simps)
  with time_piece(1)[of t] assms TimeCondition have "tryParseTimeCondition e = Some c" by simp
  with e pieces_trim[OF assms(1)] show ?thesis by (simp add: tryParseRequestCondition_def)
next
  case (ParamHeader p)
  then show ?thesis using parse_ph(1) trim_rule_text[OF assms(1)] assms(1) by (simp add: cond_pieces.simps)
qed

lemma hd_piece_trim: "readable c \<Longrightarrow> trim (hd (cond_pieces c)) = hd (cond_pieces c) \<and> hd (cond_pieces c) \<noteq> []"
  using pieces_trim[of c] by (cases "cond_pieces c") auto

lemma merged_none:
  assumes "readable c" and "\<forall>t. c = TimeCondition t \<longrightarrow> \<not> split_range t"
    and "readable d" and "\<not> mergeable c d"
  shows "merged_range (hd (cond_pieces c)) (cond_pieces d @ r) = None"
proof -
  obtain q qs where q: "cond_pieces d = q # qs" by (cases "cond_pieces d") auto
  have tq: "trim q = q" "q = hd (cond_pieces d)" using hd_piece_trim[OF assms(3)] q by auto
  have "tryParseTimeRangePair (hd (cond_pieces c)) (hd (cond_pieces d)) = None"
  proof (cases c)
    case (TimeCondition a)
    with assms time_piece(1)[of a] have a: "tryParseTimeCondition (hd (cond_pieces c)) = Some (TimeCondition a)"
      by simp
    show ?thesis
    proof (cases d)
      case (TimeCondition b)
      with assms(3) time_piece(1)[of b]
      have "tryParseTimeCondition (hd (cond_pieces d)) = Some (TimeCondition (if split_range b then lower_bound b else b))"
        by simp
      with a assms(4) \<open>c = TimeCondition a\<close> TimeCondition show ?thesis
        by (auto simp: tryParseTimeRangePair_def lower_bound_def match_modes)
    next
      case (ParamHeader p)
      with parse_ph(2)[of p] assms(3) show ?thesis
        by (simp add: tryParseTimeRangePair_def a cond_pieces.simps)
    qed
  next
    case (ParamHeader p)
    with parse_ph(2)[of p] assms(1) show ?thesis by (simp add: tryParseTimeRangePair_def cond_pieces.simps)
  qed
  with tq show ?thesis unfolding merged_range_def q by simp
qed

lemma merged_split:
  assumes "readable (TimeCondition t)" and "split_range t"
  shows "merged_range (hd (cond_pieces (TimeCondition t))) (tl (cond_pieces (TimeCondition t)) @ r) = Some (TimeCondition t)"
proof -
  have t: "t = \<lparr>tm_func = tm_func t, tm_timezone = tm_timezone t, tm_mode = MATCH_RANGE, tm_value = [],
      tm_rangeStart = tm_rangeStart t, tm_rangeEnd = tm_rangeEnd t\<rparr>"
    using assms by (cases t) (auto simp: split_range_def readable.simps)
  have "trim (scalar_text (tm_func t) (tm_timezone t) (js ''<'') (tm_rangeEnd t)) =
      scalar_text (tm_func t) (tm_timezone t) (js ''<'') (tm_rangeEnd t)"
    "scalar_text (tm_func t) (tm_timezone t) (js ''<'') (tm_rangeEnd t) \<noteq> []"
    using pieces_trim[OF assms(1)] assms(2) by (simp_all add: cond_pieces.simps)
  moreover have "tryParseTimeRangePair (hd (cond_pieces (TimeCondition t)))
      (scalar_text (tm_func t) (tm_timezone t) (js ''<'') (tm_rangeEnd t)) = Some (TimeCondition t)"
    using time_piece(1,3)[OF assms(1)] assms(2) t
    by (simp add: tryParseTimeRangePair_def lower_bound_def upper_bound_def)
  ultimately show ?thesis using assms(2) by (simp add: merged_range_def cond_pieces.simps)
qed

definition group_pieces :: "request_condition list \<Rightarrow> jsstr list" where
  "group_pieces cs = concat (map cond_pieces cs)"

lemma parse_parts_pieces:
  "list_all readable cs \<Longrightarrow> separate cs \<Longrightarrow> parse_parts (group_pieces cs) acc = Inr (Some (acc @ cs))"
proof (induction cs arbitrary: acc rule: separate.induct)
  case (1 c d cs)
  note prems = "1.prems" and IH = "1.IH"
  let ?r = "concat (map cond_pieces (d # cs))"
  have rest: "parse_parts ?r (acc @ [c]) = Inr (Some (acc @ c # d # cs))"
    using IH[of "acc @ [c]"] prems by (simp add: group_pieces_def)
  show ?case
  proof (cases "\<exists>t. c = TimeCondition t \<and> split_range t")
    case True
    then obtain t where t: "c = TimeCondition t" "split_range t" by blast
    then obtain p q where pq: "cond_pieces c = [p, q]" by (simp add: cond_pieces.simps)
    with hd_piece_trim[of c] prems(1) have "trim p = p" by simp
    moreover have "merged_range p (q # ?r) = Some c" using merged_split[of t ?r] t prems(1) pq by simp
    ultimately show ?thesis using rest pq by (simp add: group_pieces_def)
  next
    case False
    then obtain p where p: "cond_pieces c = [p]" "trim p = p" "tryParseRequestCondition p = Inr (Some c)"
      using parse_piece[of c] prems(1) by auto
    moreover have "merged_range p ?r = None" using merged_none[of c d] False prems p(1) by simp
    ultimately show ?thesis using rest by (simp add: group_pieces_def)
  qed
next
  case (2 c)
  note prems = "2.prems"
  show ?case
  proof (cases "\<exists>t. c = TimeCondition t \<and> split_range t")
    case True
    then obtain t where t: "c = TimeCondition t" "split_range t" by blast
    then obtain p q where pq: "cond_pieces c = [p, q]" by (simp add: cond_pieces.simps)
    with hd_piece_trim[of c] prems(1) have "trim p = p" by simp
    moreover have "merged_range p [q] = Some c" using merged_split[of t "[]"] t prems(1) pq by simp
    ultimately show ?thesis using pq by (simp add: group_pieces_def)
  next
    case False
    then obtain p where "cond_pieces c = [p]" "trim p = p" "tryParseRequestCondition p = Inr (Some c)"
      using parse_piece[of c] prems(1) by auto
    then show ?thesis by (simp add: group_pieces_def merged_range_def)
  qed
qed (simp add: group_pieces_def)

lemma split_and:
  assumes "es \<noteq> []" and "list_all (piece 38) es"
  shows "splitTopLevelAnd (join (js '' && '') es) = es"
  using split_join[of 38 es "[38]"] assms
  by (simp add: splitTopLevelAnd_def the_parts_def js_Cons neutral_def is_quote_def is_open_def is_close_def)

lemma group_pieces_piece: "list_all readable cs \<Longrightarrow> list_all (piece 38) (group_pieces cs)"
  using pieces_piece by (fastforce simp: group_pieces_def list_all_iff)

text \<open>The text of the conditions of a group.\<close>

definition group_text :: "request_condition list \<Rightarrow> jsstr" where
  "group_text cs = (case cs of [c] \<Rightarrow> rule_text c | _ \<Rightarrow> join (js '' && '') (group_pieces cs))"

lemma join_group_pieces:
  assumes "list_all readable cs"
  shows "join (js '' && '') (group_pieces cs) =
    join (js '' && '') (map (\<lambda>e. if str_includes e (js '' || '') then js ''('' @ e @ js '')'' else e) (map rule_text cs))"
proof -
  have "join (js '' && '') (group_pieces cs) = join (js '' && '') (map (join (js '' && '')) (map cond_pieces cs))"
    unfolding group_pieces_def by (rule join_concat) (simp add: list_all_iff)
  also have "map (join (js '' && '')) (map cond_pieces cs) =
      map (\<lambda>e. if str_includes e (js '' || '') then js ''('' @ e @ js '')'' else e) (map rule_text cs)"
    using assms join_pieces by (simp add: list_all_iff)
  finally show ?thesis .
qed

lemma tryParseTimeCondition_cases:
  assumes "tryParseTimeCondition s = Some x"
  obtains (range) f z a op b where "time_args f z" "isTimeValueInRange f a" "isTimeValueInRange f b"
      "op \<in> set range_ops" "s = range_text f z a op b"
  | (wrapped) f z a op b where "time_args f z" "isTimeValueInRange f a" "isTimeValueInRange f b"
      "op \<in> set range_ops" "s = 40 # range_text f z a op b @ [41]"
  | (scalar) f z op v where "time_args f z" "isTimeValueInRange f v" "op \<in> set scalar_ops"
      "s = scalar_text f z op v"
proof -
  from assms consider m where "match_all time_range_rx s = Some m" "range_condition m = Some x"
    | m where "match_all wrapped_range_rx s = Some m" "range_condition m = Some x"
    | m where "match_all time_scalar_rx s = Some m" "scalar_condition m = Some x"
    by (auto simp: tryParseTimeCondition_def split: option.splits)
  then show thesis
  proof cases
    case 1
    with match_all_Some[OF 1(1)] show thesis
      by (auto simp: matches_range range_condition_def cap_text_def cap_def Let_def split: if_splits intro: range)
  next
    case 2
    with match_all_Some[OF 2(1)] show thesis
      by (auto simp: wrapped_range_rx_def matches_simps matches_range range_condition_def cap_text_def cap_def Let_def
        js_Cons split: if_splits intro: wrapped)
  next
    case 3
    with match_all_Some[OF 3(1)] show thesis
      by (auto simp: matches_scalar scalar_condition_def cap_text_def cap_def Let_def split: if_splits intro: scalar)
  qed
qed

text \<open>A conjunction that starts with a scalar is a time condition only if it is a range.\<close>

lemma scalar_conjunction:
  assumes "time_args f z" and "plain_text z" and "list_all rx_numeric v" and "op \<in> set scalar_ops"
    and "es \<noteq> []" and "list_all (piece 38) es"
    and "tryParseTimeCondition (scalar_text f z op v @ js '' && '' @ join (js '' && '') es) = Some x"
  shows "op = js ''>='' \<and> (\<exists>b. isTimeValueInRange f b \<and> es = [scalar_text f z (js ''<'') b])"
  using assms(7)
proof (cases rule: tryParseTimeCondition_cases)
  case (range f' z' a op' b)
  let ?R = "join (js '' && '') es"
  have eq: "call_text f z @ 32 # op @ 32 # v @ 32 # js ''&&'' @ 32 # ?R =
      call_text f' z' @ 32 # js ''>='' @ 32 # a @ 32 # op' @ 32 # call_text f' z' @ js '' < '' @ b"
    using range(5) by (simp add: scalar_text_def range_text_def js_Cons)
  from call_text_unique[OF eq] time_args_call[OF assms(1)] time_args_call[OF range(1)]
  have f: "f' = f" "z' = z" and "op @ 32 # v @ 32 # js ''&&'' @ 32 # ?R =
      js ''>='' @ 32 # a @ 32 # op' @ 32 # call_text f' z' @ js '' < '' @ b" by simp_all
  from delimited_unique[OF this(3)] scalar_ops_no_space[OF assms(4)]
  have op: "op = js ''>=''" and "v @ 32 # js ''&&'' @ 32 # ?R = a @ 32 # op' @ 32 # call_text f' z' @ js '' < '' @ b"
    by (auto simp: js_Cons)
  from delimited_unique[OF this(2)] numeric_no_space assms(3) in_range_numeric[OF range(2)]
  have "js ''&&'' @ 32 # ?R = op' @ 32 # call_text f' z' @ js '' < '' @ b" by blast
  from delimited_unique[OF this] range_ops_no_space[OF range(4)] f
  have R: "?R = scalar_text f z (js ''<'') b" by (auto simp: scalar_text_def js_Cons)
  have tf: "f \<in> set TIME_FUNCS" using assms(1) by (simp add: time_args_def)
  have "piece 38 (scalar_text f z (js ''<'') b)"
    using quiet_scalar[OF assms(2) tf, of "js ''<''" b 38] trim_scalar[OF tf, of b z "js ''<''"]
      in_range_numeric[OF range(3)]
    by (auto simp: piece_def scalar_ops_def) (simp add: scalar_text_def)
  then have "splitTopLevelAnd ?R = [scalar_text f z (js ''<'') b]" using split_and[of "[?R]"] R by simp
  with split_and[OF assms(5,6)] op f range(3) show ?thesis by auto
next
  case (wrapped f' z' a op' b)
  then show ?thesis
    using starts_with_call[OF assms(1), of "js '' '' @ op @ js '' '' @ v @ js '' && '' @ join (js '' && '') es"]
    by (simp add: scalar_text_def)
next
  case (scalar f' z' op' v')
  have eq: "call_text f z @ 32 # op @ 32 # v @ js '' && '' @ join (js '' && '') es = call_text f' z' @ 32 # op' @ 32 # v'"
    using scalar(4) by (simp add: scalar_text_def js_Cons)
  from call_text_unique[OF eq] time_args_call[OF assms(1)] time_args_call[OF scalar(1)]
  have "op @ 32 # v @ js '' && '' @ join (js '' && '') es = op' @ 32 # v'" by simp
  from delimited_unique[OF this] scalar_ops_no_space assms(4) scalar(3)
  have "v' = v @ js '' && '' @ join (js '' && '') es" by auto
  with numeric_no_space[of v'] in_range_numeric[OF scalar(2)] show ?thesis by (simp add: js_Cons)
qed

lemma wrapped_conjunction:
  assumes "time_args f z" and "isTimeValueInRange f a" and "isTimeValueInRange f b" and "op \<in> set range_ops"
  shows "tryParseTimeCondition (40 # range_text f z a op b @ 41 # c # r) = None"
proof (rule ccontr)
  assume "tryParseTimeCondition (40 # range_text f z a op b @ 41 # c # r) \<noteq> None"
  then obtain x where "tryParseTimeCondition (40 # range_text f z a op b @ 41 # c # r) = Some x" by blast
  then show False
  proof (cases rule: tryParseTimeCondition_cases)
    case (range f' z' a' op' b')
    then show ?thesis
      using starts_with_call[OF range(1), of "js '' >= '' @ a' @ js '' '' @ op' @ js '' '' @ call_text f' z' @ js '' < '' @ b'"]
      by (metis list.sel(1) range_text_def)
  next
    case (wrapped f' z' a' op' b')
    from range_text_unique[of f z a op b "41 # c # r" f' z' a' op' b' "[41]"] wrapped assms in_range_numeric
    have "b @ 41 # c # r = b' @ 41 # []" by simp
    moreover have "41 \<notin> set b" "41 \<notin> set b'"
      using in_range_numeric[OF assms(3)] in_range_numeric[OF wrapped(3)]
      by (auto simp: list_all_iff rx_numeric_def is_digit_def)
    ultimately show ?thesis using delimited_unique[of b 41 "c # r" b' "[]"] by simp
  next
    case (scalar f' z' op' v)
    then show ?thesis
      using starts_with_call[OF scalar(1), of "js '' '' @ op' @ js '' '' @ v"] by (metis list.sel(1) scalar_text_def)
  qed
qed

lemma conjunction_pieces:
  assumes "list_all readable (d # cs)"
  shows "group_pieces (d # cs) \<noteq> [] \<and> list_all (piece 38) (group_pieces (d # cs))"
  using group_pieces_piece[OF assms] by (simp add: group_pieces_def)

lemma range_conjunction:
  assumes "readable (TimeCondition t)" and "tm_mode t = MATCH_RANGE" and "list_all readable (d # cs)"
  shows "tryParseTimeCondition (join (js '' && '') (group_pieces (TimeCondition t # d # cs))) = None"
proof (cases "split_range t")
  case True
  let ?a = "scalar_text (tm_func t) (tm_timezone t) (js ''>='') (tm_rangeStart t)"
    and ?b = "scalar_text (tm_func t) (tm_timezone t) (js ''<'') (tm_rangeEnd t)"
    and ?es = "group_pieces (d # cs)"
  note es = conjunction_pieces[OF assms(3)]
  have whole: "group_pieces (TimeCondition t # d # cs) = ?a # ?b # ?es"
    using True by (simp add: group_pieces_def cond_pieces.simps)
  have all: "list_all (piece 38) (?b # ?es)"
    using pieces_piece[OF assms(1)] True es by (simp add: cond_pieces.simps)
  show ?thesis
    using scalar_conjunction[OF readable_time_args[OF assms(1)] _ _ _ _ all, of "tm_rangeStart t" "js ''>=''"]
      es whole assms(1,2) in_range_numeric
    by (cases "tryParseTimeCondition (join (js '' && '') (group_pieces (TimeCondition t # d # cs)))")
      (auto simp: scalar_ops_def readable.simps)
next
  case False
  with assms(2) have "cond_pieces (TimeCondition t) = [40 # rule_text (TimeCondition t) @ [41]]"
    by (simp add: cond_pieces.simps wrapped_range_def split_range_def)
  with conjunction_pieces[OF assms(3)] assms(1,2) show ?thesis
    using wrapped_conjunction[OF readable_time_args[OF assms(1)], of "tm_rangeStart t" "tm_rangeEnd t" "range_op t"]
    by (simp add: group_pieces_def join_Cons rule_text.simps readable.simps js_Cons range_op_def range_ops_def)
qed

lemma bound_conjunction:
  assumes "readable (TimeCondition t)" and "tm_mode t \<noteq> MATCH_RANGE" and "list_all readable (d # cs)"
    and "tryParseTimeCondition (join (js '' && '') (group_pieces (TimeCondition t # d # cs))) = Some x"
  shows "mergeable (TimeCondition t) d"
proof -
  let ?es = "group_pieces (d # cs)"
  note ta = readable_time_args[OF assms(1)] and es = conjunction_pieces[OF assms(3)]
  have one: "cond_pieces (TimeCondition t) =
      [scalar_text (tm_func t) (tm_timezone t) (scalar_operator (tm_mode t)) (tm_value t)]"
    using assms(2) by (simp add: cond_pieces.simps rule_text.simps split_range_def wrapped_range_def)
  have v: "plain_text (tm_timezone t)" "list_all rx_numeric (tm_value t)"
    using assms(1,2) in_range_numeric by (auto simp: readable.simps)
  from scalar_conjunction[OF ta v scalar_operator_ops es[THEN conjunct1] es[THEN conjunct2]] assms(4) one es
  obtain b where b: "scalar_operator (tm_mode t) = js ''>=''" "isTimeValueInRange (tm_func t) b"
    "?es = [scalar_text (tm_func t) (tm_timezone t) (js ''<'') b]"
    by (auto simp: group_pieces_def join_Cons)
  have one_d: "cond_pieces d = [scalar_text (tm_func t) (tm_timezone t) (js ''<'') b]"
    using b(3) by (cases "cond_pieces d") (auto simp: group_pieces_def)
  then have "\<forall>u. d = TimeCondition u \<longrightarrow> \<not> split_range u" by (auto simp: cond_pieces.simps)
  with parse_piece[of d] assms(3) one_d
  have "tryParseRequestCondition (scalar_text (tm_func t) (tm_timezone t) (js ''<'') b) = Inr (Some d)" by simp
  with parse_scalar[OF ta b(2), of "js ''<''"]
  have "d = TimeCondition \<lparr>tm_func = tm_func t, tm_timezone = tm_timezone t, tm_mode = MATCH_LT, tm_value = b,
      tm_rangeStart = [], tm_rangeEnd = []\<rparr>"
    by (simp add: tryParseRequestCondition_def scalar_ops_def scalar_mode_def)
  moreover have "tm_mode t = MATCH_GTE" using b(1) by (auto simp: scalar_operator_def split: if_splits)
  ultimately show ?thesis by simp
qed

lemma conjunction_no_time:
  assumes "list_all readable (c # d # cs)" and "separate (c # d # cs)"
  shows "tryParseTimeCondition (join (js '' && '') (group_pieces (c # d # cs))) = None"
proof (cases c)
  case (ParamHeader p)
  then have z: "ph_source p \<in> set ph_sources" using assms(1) by (simp add: readable.simps)
  show ?thesis
    using ph_time_none[OF z] ParamHeader
    by (simp add: group_pieces_def join_Cons cond_pieces.simps rule_text.simps Let_def)
next
  case (TimeCondition t)
  then show ?thesis
    using range_conjunction[of t d cs] bound_conjunction[of t d cs] assms
    by (cases "tryParseTimeCondition (join (js '' && '') (group_pieces (c # d # cs)))") auto
qed

lemma trim_join:
  assumes "es \<noteq> []" and "list_all (piece h) es"
  shows "trim (join sep es) = join sep es"
proof -
  have e: "e \<noteq> [] \<and> \<not> is_space (hd e) \<and> \<not> is_space (last e)" if "e \<in> set es" for e
    using assms(2) that trim_hd[of e] trim_last[of e] by (auto simp: list_all_iff piece_def)
  have "join sep es \<noteq> [] \<and> hd (join sep es) = hd (hd es) \<and> last (join sep es) = last (last es)"
    using assms(1) e by (induction sep es rule: join.induct) (auto simp: join_Cons)
  with e assms(1) show ?thesis by (intro trim_id) simp
qed

lemma parse_conditions:
  assumes "list_all readable cs" and "separate cs" and "cs \<noteq> []"
  shows "tryParseRequestConditions (group_text cs) = Inr (Some cs)"
proof (cases cs rule: separate.cases)
  case (1 c d cs')
  have es: "group_pieces cs \<noteq> []" "list_all (piece 38) (group_pieces cs)"
    using conjunction_pieces[of c "d # cs'"] assms(1) 1 by simp_all
  have "tryParseTimeCondition (join (js '' && '') (group_pieces cs)) = None"
    using conjunction_no_time[of c d cs'] assms 1 by simp
  with parse_parts_pieces[OF assms(1,2), of "[]"] es 1 show ?thesis
    by (simp add: tryParseRequestConditions_def group_text_def trim_join split_and)
next
  case 2
  then obtain c where c: "cs = [c]" "readable c" using assms by auto
  show ?thesis
  proof (cases c)
    case (TimeCondition t)
    with c time_piece(2)[of t] show ?thesis
      by (simp add: tryParseRequestConditions_def group_text_def trim_rule_text)
  next
    case (ParamHeader p)
    with c have one: "group_pieces cs = [rule_text c]" by (simp add: group_pieces_def cond_pieces.simps)
    with parse_parts_pieces[OF assms(1,2), of "[]"] split_and[of "[rule_text c]"] group_pieces_piece[OF assms(1)]
      parse_ph(2)[of p] ParamHeader c
    show ?thesis by (simp add: tryParseRequestConditions_def group_text_def trim_rule_text)
  qed
qed (use assms in auto)

end
