(* ===== verification/RuleTrip.thy ===== *)
theory RuleTrip
  imports RuleConj
begin

text \<open>
  The request-rule editor can read back what it writes: every rule whose conditions are readable is
  returned by \<open>tryParseRequestRuleExpr\<close> from the text of \<open>buildRequestRuleExpr\<close>.
\<close>

section \<open>Groups and rules\<close>

definition readable_group :: "rule_group \<Rightarrow> bool" where
  "readable_group g \<longleftrightarrow>
     rg_conditions g \<noteq> [] \<and> list_all readable (rg_conditions g) \<and> separate (rg_conditions g) \<and>
     numeric_literal (rg_multiplier g) \<and> rg_conditionText g = None \<and> rg_matched g = None"

definition group_factor :: "rule_group \<Rightarrow> jsstr" where
  "group_factor g = js ''('' @ group_text (rg_conditions g) @ js '' ? '' @ rg_multiplier g @ js '' : 1)''"

lemma map_build: "list_all readable cs \<Longrightarrow> map buildRequestConditionExpr cs = map rule_text cs"
  by (simp add: list_all_iff build_readable)

lemma build_factor:
  assumes "readable_group g"
  shows "buildRuleGroupFactor g = group_factor g"
proof -
  let ?cs = "rg_conditions g"
  have cs: "?cs \<noteq> []" "list_all readable ?cs" "numeric_literal (rg_multiplier g)"
    using assms by (simp_all add: readable_group_def)
  then have mult: "trim (rg_multiplier g) = rg_multiplier g" using numeric_literal_chars numeric_trim by blast
  have texts: "filter (\<lambda>e. e \<noteq> []) (map buildRequestConditionExpr ?cs) = map rule_text ?cs"
    using map_build[OF cs(2)] rule_text_not_Nil by (simp add: filter_id_conv)
  have "(case map rule_text ?cs of [e] \<Rightarrow> e | _ \<Rightarrow> join (js '' && '')
      (map (\<lambda>e. if str_includes e (js '' || '') then js ''('' @ e @ js '')'' else e) (map rule_text ?cs))) =
      group_text ?cs"
    unfolding join_group_pieces[OF cs(2), symmetric] group_text_def by (simp split: list.split)
  with texts mult cs show ?thesis by (simp add: buildRuleGroupFactor_def group_factor_def Let_def)
qed

lemma match_factor:
  assumes "t \<noteq> []" and "m \<noteq> []" and "list_all rx_numeric m"
  shows "match_all rule_factor_rx (js ''('' @ t @ js '' ? '' @ m @ js '' : 1)'') = Some [(2, m), (1, t)]"
proof (rule match_all_eqI)
  let ?s = "js ''('' @ t @ js '' ? '' @ m @ js '' : 1)''"
  show "matches rule_factor_rx [] ?s ?s [] [(2, m), (1, t)]"
    using assms by (simp add: rule_factor_rx_def matches_simps list_all_iff)
  fix u c
  assume "matches rule_factor_rx [] ?s u [] c"
  then obtain t' m' where u: "list_all rx_numeric m'" "c = [(2, m'), (1, t')]"
    "t @ js '' ? '' @ m = t' @ js '' ? '' @ m'"
    by (auto simp: rule_factor_rx_def matches_simps)
  have "rev (t @ js '' ? '' @ m) = rev (t' @ js '' ? '' @ m')" using u(3) by simp
  then have "rev m @ 32 # 63 # 32 # rev t = rev m' @ 32 # 63 # 32 # rev t'" by (simp add: js_Cons del: rev_is_rev_conv)
  from delimited_unique[OF this] numeric_no_space assms(3) u(1) have "m = m'" "t = t'" by simp_all
  with u(2) show "c = [(2, m), (1, t)]" by simp
qed

lemma group_text_not_Nil:
  assumes "list_all readable cs" and "cs \<noteq> []"
  shows "group_text cs \<noteq> []"
proof (cases cs rule: separate.cases)
  case (1 c d cs')
  have "rule_text c \<noteq> []" by (rule rule_text_not_Nil)
  with join_group_pieces[OF assms(1)] 1 show ?thesis by (simp add: group_text_def)
next
  case 2
  then show ?thesis using rule_text_not_Nil assms by (auto simp: group_text_def)
qed (use assms in auto)

lemma parse_factor:
  assumes "readable_group g"
  shows "tryParseRuleGroupFactor (group_factor g) = Inr (Some g)"
proof -
  have g: "rg_conditions g \<noteq> []" "list_all readable (rg_conditions g)" "separate (rg_conditions g)"
    "rg_multiplier g \<noteq> []" "list_all rx_numeric (rg_multiplier g)"
    using assms numeric_literal_chars by (auto simp: readable_group_def)
  have "match_all rule_factor_rx (group_factor g) = Some [(2, rg_multiplier g), (1, group_text (rg_conditions g))]"
    unfolding group_factor_def by (rule match_factor) (use g group_text_not_Nil in auto)
  with parse_conditions[OF g(2,3,1)] assms show ?thesis
    by (cases g) (simp add: tryParseRuleGroupFactor_def readable_group_def cap_text_def cap_def)
qed

lemma pieces_quiet_product:
  assumes "readable c"
  shows "list_all (quiet 42) (cond_pieces c)"
proof (cases c)
  case (TimeCondition t)
  have "quiet 42 (40 # rule_text c @ [41])"
    using quiet_time[of t 42] assms TimeCondition by (intro quiet_parens quiet_balanced) auto
  then show ?thesis
    using quiet_time[of t 42] assms TimeCondition in_range_numeric
    by (auto simp: split_range_def scalar_ops_def cond_pieces.simps readable.simps intro!: quiet_scalar)
next
  case (ParamHeader p)
  then show ?thesis using quiet_ph[of p 42] assms by (simp add: cond_pieces.simps)
qed

lemma quiet_join: "list_all (quiet h) es \<Longrightarrow> quiet h sep \<Longrightarrow> quiet h (join sep es)"
  by (induction sep es rule: join.induct) (simp_all add: quiet_append)

lemma product_piece:
  assumes "quiet 42 t" and "list_all rx_numeric m"
  shows "piece 42 (js ''('' @ t @ js '' ? '' @ m @ js '' : 1)'')"
proof -
  let ?e = "t @ js '' ? '' @ m @ js '' : 1''"
  have "balanced 42 (js '' ? '')" "balanced 42 (js '' : 1'')"
    by (rule balanced_neutral; simp add: js_Cons neutral_def is_quote_def is_open_def is_close_def)+
  then have "quiet 42 (40 # ?e @ [41])"
    using numeric_quiet[OF assms(2), of 42] assms(1)
    by (intro quiet_parens balanced_append) (simp_all add: quiet_balanced)
  moreover have "js ''('' @ t @ js '' ? '' @ m @ js '' : 1)'' = 40 # ?e @ [41]" by (simp add: js_Cons)
  ultimately show ?thesis using trim_parens[of ?e] by (simp add: piece_def)
qed

lemma factor_piece:
  assumes "readable_group g"
  shows "piece 42 (group_factor g)"
proof -
  have cs: "list_all readable (rg_conditions g)" using assms by (simp add: readable_group_def)
  have sep: "quiet 42 (js '' && '')" by (auto simp: quiet_def js_Cons is_quote_def is_open_def is_close_def)
  have rules: "quiet 42 (rule_text c)" if "readable c" for c
    using that quiet_time[of _ 42] quiet_ph[of _ 42] by (cases c) auto
  have "list_all (quiet 42) (group_pieces (rg_conditions g))"
    using cs pieces_quiet_product by (fastforce simp: group_pieces_def list_all_iff)
  with rules cs have "quiet 42 (group_text (rg_conditions g))"
    by (auto simp: group_text_def list_all_iff quiet_join[OF _ sep] split: list.splits)
  with product_piece show ?thesis
    using assms numeric_literal_chars by (simp add: group_factor_def readable_group_def)
qed

lemma split_product:
  assumes "es \<noteq> []" and "list_all (piece 42) es"
  shows "splitTopLevelMultiply (join (js '' * '') es) = es"
  using split_join[of 42 es "[]"] assms
  by (simp add: splitTopLevelMultiply_def the_parts_def js_Cons neutral_def is_quote_def is_open_def is_close_def)

lemma parse_factors_readable:
  "list_all readable_group gs \<Longrightarrow> parse_factors (map group_factor gs) acc = Inr (Some (acc @ gs))"
  by (induction gs arbitrary: acc) (simp_all add: parse_factor)

lemma build_rule: "list_all readable_group gs \<Longrightarrow> buildRequestRuleExpr gs = join (js '' * '') (map group_factor gs)"
proof -
  assume gs: "list_all readable_group gs"
  then have "map buildRuleGroupFactor gs = map group_factor gs" by (simp add: list_all_iff build_factor)
  moreover have "group_factor g \<noteq> []" for g by (simp add: group_factor_def)
  ultimately show ?thesis unfolding buildRequestRuleExpr_def by (simp only:) (simp add: filter_id_conv)
qed

text \<open>
  C3. What the request-rule editor writes it can read: the text of a list of rule groups is parsed
  to exactly these groups, if their conditions are readable (time ranges and bounds inside the
  domain of their function, headers and parameters that exist, equal a value or, for headers,
  contain one, with plain names), if no lower bound is directly followed by an upper bound on the
  same clock and if the multiplier is a numeric literal.
\<close>

theorem request_rules_round_trip:
  assumes "list_all readable_group gs"
  shows "tryParseRequestRuleExpr (buildRequestRuleExpr gs) = Inr (Some gs)"
proof (cases "gs = []")
  case True
  then show ?thesis by (simp add: buildRequestRuleExpr_def tryParseRequestRuleExpr_def)
next
  case False
  let ?es = "map group_factor gs"
  have es: "?es \<noteq> []" "list_all (piece 42) ?es" using False assms factor_piece by (auto simp: list_all_iff)
  have "join (js '' * '') ?es \<noteq> []"
    using False by (cases gs rule: list.exhaust; cases "tl gs") (auto simp: group_factor_def)
  with split_product[OF es] trim_join[OF es] parse_factors_readable[OF assms, of "[]"] show ?thesis
    by (simp add: build_rule[OF assms] tryParseRequestRuleExpr_def)
qed

definition demo_rules :: "rule_group list" where
  "demo_rules =
     [\<lparr>rg_conditions =
         [TimeCondition \<lparr>tm_func = js ''hour'', tm_timezone = js ''Asia/Shanghai'', tm_mode = MATCH_RANGE,
            tm_value = [], tm_rangeStart = js ''21'', tm_rangeEnd = js ''6''\<rparr>,
          TimeCondition \<lparr>tm_func = js ''weekday'', tm_timezone = js ''UTC'', tm_mode = MATCH_RANGE,
            tm_value = [], tm_rangeStart = js ''1'', tm_rangeEnd = js ''6''\<rparr>,
          ParamHeader \<lparr>ph_source = SOURCE_HEADER, ph_path = js ''x-model'', ph_mode = MATCH_CONTAINS,
            ph_value = js ''a && b''\<rparr>],
       rg_multiplier = js ''0.5'', rg_conditionText = None, rg_matched = None\<rparr>,
      \<lparr>rg_conditions =
         [ParamHeader \<lparr>ph_source = SOURCE_PARAM, ph_path = js ''service_tier'', ph_mode = MATCH_EQ,
            ph_value = js ''fast''\<rparr>],
       rg_multiplier = js ''2'', rg_conditionText = None, rg_matched = None\<rparr>]"

theorem request_rules_round_trip_witness:
  "list_all readable_group demo_rules \<and>
   tryParseRequestRuleExpr (buildRequestRuleExpr demo_rules) = Inr (Some demo_rules)"
proof -
  have "list_all readable_group demo_rules" by code_simp
  with request_rules_round_trip[OF this] show ?thesis by blast
qed

section \<open>Conditions that cannot be read back\<close>

text \<open>The second half of a parameter condition that is guarded against a missing parameter.\<close>

definition guarded_text :: "jsstr \<Rightarrow> jsstr \<Rightarrow> jsstr \<Rightarrow> jsstr" where
  "guarded_text z mode v =
     (if mode = MATCH_CONTAINS then js ''has('' @ call_text (js ''param'') z @ js '', '' @ json_quote (trim v) @ js '')''
      else call_text (js ''param'') z @ js '' '' @ compare_operator mode @ js '' '' @ trim v)"

definition guarded :: "jsstr \<Rightarrow> jsstr \<Rightarrow> bool" where
  "guarded mode v \<longleftrightarrow>
     mode = MATCH_CONTAINS \<or> mode \<in> {MATCH_GT, MATCH_GTE, MATCH_LT, MATCH_LTE} \<and> numeric_literal (trim v)"

lemma guarded_unread:
  assumes "z \<noteq> []" and "34 \<notin> set z"
  shows "tryParseRequestCondition (guarded_text z mode v) = Inr None"
proof (cases "mode = MATCH_CONTAINS")
  case True
  let ?q = "call_text (js ''param'') z @ js '', '' @ json_quote (trim v) @ js '')''"
  have s: "guarded_text z mode v = js ''has('' @ ?q" using True by (simp add: guarded_text_def)
  have "match_all header_contains_rx (js ''has('' @ ?q) = None"
    by (auto simp: match_all_None other_source_call assms dest!: matches_header_contains)
  moreover have "match_all param_contains_rx (js ''has('' @ ?q) = None" "match_all param_compare_rx (js ''has('' @ ?q) = None"
    "match_all equals_rx (js ''has('' @ ?q) = None"
    using has_not_call by (auto simp: match_all_None matches_equals ph_sources_def dest!: matches_param_long)
  ultimately show ?thesis
    using ph_time_none(2)[of "js ''param''"] unfolding s
    by (simp add: tryParseRequestCondition_def match_on_has same_path_def)
next
  case False
  let ?r = "js '' '' @ compare_operator mode @ js '' '' @ trim v"
  have s: "guarded_text z mode v = call_text (js ''param'') z @ ?r" using False by (simp add: guarded_text_def)
  have r: "?r \<noteq> js '' != nil''" "\<not> (\<exists>q. ?r = js '' != '' @ q)" "\<not> (\<exists>q. ?r = js '' == '' @ q)"
    by (auto simp: compare_operator_def js_Cons)
  have "match_all equals_rx (call_text (js ''param'') z @ ?r) = None"
    using assms r(3) by (auto simp: match_all_None matches_equals other_source_call)
  then show ?thesis
    using ph_time_none(1)[of "js ''param''"] match_exists_on_call[OF _ assms, of "js ''param''" ?r]
      match_contains_on_call[of "js ''param''"] match_long_on_call[OF _ assms(2) r(2), of "js ''param''"] r(1)
    unfolding s by (simp add: tryParseRequestCondition_def same_path_def)
qed

lemma guarded_piece:
  assumes "plain_text z" and "guarded mode v" and "h \<in> {38, 42}"
  shows "piece h (guarded_text z mode v)"
proof (cases "mode = MATCH_CONTAINS")
  case True
  have "quiet h (40 # (call_text (js ''param'') z @ js '', '' @ json_quote (trim v)) @ [41])"
    using quiet_named_call[OF assms(1), of "js ''param''" h] quiet_js(10)[of h] assms(3)
    by (intro quiet_parens quiet_balanced) (auto intro!: quiet_append)
  then have "quiet h (guarded_text z mode v)"
    using quiet_append[OF quiet_js(9)[OF assms(3)]] True by (fastforce simp: guarded_text_def js_Cons)
  moreover have "trim (guarded_text z mode v) = guarded_text z mode v"
    using True by (intro trim_id) (simp add: guarded_text_def js_Cons is_space_def)
  ultimately show ?thesis using True by (simp add: piece_def guarded_text_def)
next
  case False
  with assms(2) have num: "trim v \<noteq> []" "list_all rx_numeric (trim v)"
    using numeric_literal_chars by (auto simp: guarded_def)
  have "quiet h (compare_operator mode)"
    using assms(3) by (auto simp: compare_operator_def quiet_def js_Cons is_quote_def is_open_def is_close_def)
  then have "quiet h (guarded_text z mode v)"
    using quiet_named_call[OF assms(1), of "js ''param''" h] quiet_js(3)[OF assms(3)] numeric_quiet[OF num(2) assms(3)] False assms(3)
    by (simp add: guarded_text_def quiet_append)
  moreover have "trim (guarded_text z mode v) = guarded_text z mode v"
    using trim_call[of "js ''param''" "js '' '' @ compare_operator mode @ js '' '' @ trim v" z] num numeric_last[OF num]
      False by (simp add: guarded_text_def)
  ultimately show ?thesis using num by (simp add: piece_def guarded_text_def)
qed

lemma build_guarded:
  assumes "plain_text z" and "trim z = z" and "guarded mode v"
  shows "buildRequestConditionExpr (ph SOURCE_PARAM z mode v) =
    call_text (js ''param'') z @ js '' != nil'' @ js '' && '' @ guarded_text z mode v"
  using assms plain_call[OF assms(1), of "js ''param''"]
  by (auto simp: buildRequestConditionExpr_def normalizeCondition_def ph_def or_empty_def kept_mode_def
      getRequestRuleMatchOptions_def option_of_def ph_expr_def buildExprLiteral_def guarded_def guarded_text_def
      plain_text_def match_modes spaced_ops(3) Let_def) (simp_all add: js_Cons)

lemma guarded_conditions:
  assumes "plain_text z" and "guarded mode v"
  shows "tryParseRequestConditions (join (js '' && '')
    [call_text (js ''param'') z @ js '' != nil'', guarded_text z mode v]) = Inr None"
proof -
  let ?e = "call_text (js ''param'') z @ js '' != nil''"
  let ?es = "[?e, guarded_text z mode v]"
  have e: "piece 38 ?e"
    using quiet_named_call[OF assms(1), of "js ''param''" 38] quiet_js(5)[of 38]
      trim_call[of "js ''param''" "js '' != nil''" z]
    by (simp add: piece_def quiet_append) (simp add: js_Cons is_space_def)
  have es: "list_all (piece 38) ?es" using e guarded_piece[OF assms] by simp
  have some: "guarded_text z mode v \<noteq> []" using es by (simp add: piece_def)
  have trims: "trim ?e = ?e" "trim (guarded_text z mode v) = guarded_text z mode v"
    using es by (simp_all add: piece_def)
  have none: "tryParseTimeCondition (call_text (js ''param'') z @ r) = None" for r
    by (rule ph_time_none(1)) simp
  have "tryParseRequestCondition ?e = Inr (Some (ph (js ''param'') z MATCH_EXISTS []))"
    using parse_exists[of "js ''param''" z] plain_no_quote[OF assms(1)] by simp
  then have "parse_parts ?es [] = Inr None"
    using trims none some guarded_unread[of z mode v] plain_no_quote[OF assms(1)]
    by (simp add: merged_range_def tryParseTimeRangePair_def)
  moreover have "trim (join (js '' && '') ?es) = join (js '' && '') ?es" by (rule trim_join[OF _ es]) simp
  moreover have "splitTopLevelAnd (join (js '' && '') ?es) = ?es" by (rule split_and[OF _ es]) simp
  ultimately show ?thesis using none by (simp add: tryParseRequestConditions_def)
qed

text \<open>
  C36. A rule on a request parameter that contains a text or compares with a number is not read
  back: the builder writes it as a conjunction with a test that the parameter exists, and the
  parser, which splits conjunctions before it looks at the patterns for these conditions, gives up
  on the whole rule.
\<close>

theorem guarded_rule_not_read:
  assumes "plain_text z" and "trim z = z" and "guarded mode v" and "numeric_literal m"
  shows "tryParseRequestRuleExpr (buildRequestRuleExpr
    [\<lparr>rg_conditions = [ph SOURCE_PARAM z mode v], rg_multiplier = m, rg_conditionText = None,
      rg_matched = None\<rparr>]) = Inr None"
proof -
  let ?t = "join (js '' && '') [call_text (js ''param'') z @ js '' != nil'', guarded_text z mode v]"
  have m: "m \<noteq> []" "list_all rx_numeric m" "trim m = m"
    using assms(4) numeric_literal_chars numeric_trim by blast+
  have t: "buildRequestConditionExpr (ph SOURCE_PARAM z mode v) = ?t" "?t \<noteq> []"
    using build_guarded[OF assms(1-3)] by (simp_all add: call_text_def)
  let ?f = "js ''('' @ ?t @ js '' ? '' @ m @ js '' : 1)''"
  have built: "buildRequestRuleExpr [\<lparr>rg_conditions = [ph SOURCE_PARAM z mode v], rg_multiplier = m,
      rg_conditionText = None, rg_matched = None\<rparr>] = ?f"
    using t m assms(4) by (simp add: buildRequestRuleExpr_def buildRuleGroupFactor_def Let_def)
  have "tryParseRuleGroupFactor ?f = Inr None"
    using match_factor[OF t(2) m(1,2)] guarded_conditions[OF assms(1,3)]
    by (simp add: tryParseRuleGroupFactor_def cap_text_def cap_def)
  moreover have "quiet 42 ?t"
    using quiet_named_call[OF assms(1), of "js ''param''" 42] guarded_piece[OF assms(1,3), of 42] quiet_js(3,5)[of 42] quiet_js(8)
    by (simp add: piece_def quiet_append spaced_ops)
  then have piece: "piece 42 ?f" using product_piece m(2) by blast
  moreover have "splitTopLevelMultiply ?f = [?f]" using split_product[of "[?f]"] piece by simp
  ultimately show ?thesis by (simp add: built tryParseRequestRuleExpr_def piece_def)
qed

theorem guarded_rule_not_read_witness:
  "tryParseRequestRuleExpr (buildRequestRuleExpr
    [\<lparr>rg_conditions = [ph SOURCE_PARAM (js ''max_tokens'') MATCH_GT (js ''4000'')], rg_multiplier = js ''2'',
      rg_conditionText = None, rg_matched = None\<rparr>]) = Inr None"
proof -
  have "plain_text (js ''max_tokens'')" "trim (js ''max_tokens'') = js ''max_tokens''"
    "guarded MATCH_GT (js ''4000'')" "numeric_literal (js ''2'')" by code_simp+
  then show ?thesis by (rule guarded_rule_not_read)
qed

end
