(* ===== verification/Semantics.thy ===== *)
theory Semantics
  imports RuntimeFacts
begin

text \<open>
  A specification of evaluation: an inductive relation between an expression, its value and the
  events on the way, with no state, no depth counter, no table of zone times and no error paths.
  The evaluator of \<open>runtime.ts\<close> refines it: it succeeds exactly on the expressions the relation
  gives a value, with that value, and its state is the effect of the events.
\<close>

section \<open>Events\<close>

datatype event = RuleMatched node | TierChosen jsstr | FixedPrice jsnum

fun apply_event :: "runtime_env \<Rightarrow> event \<Rightarrow> runtime_state \<Rightarrow> runtime_state" where
  "apply_event e (RuleMatched n) s = s\<lparr>st_rules := mark_rule (env_rules e) n (st_rules s)\<rparr>"
| "apply_event e (TierChosen t) s = s\<lparr>st_tier := t\<rparr>"
| "apply_event e (FixedPrice x) s = s\<lparr>st_unit := URequest, st_fixed := Some x\<rparr>"

definition effect :: "runtime_env \<Rightarrow> event list \<Rightarrow> runtime_state \<Rightarrow> runtime_state" where
  "effect e es s = fold (apply_event e) es s"

lemma effect_simps [simp]:
  "effect e [] s = s"
  "effect e (x # es) s = effect e es (apply_event e x s)"
  "effect e (es @ es') s = effect e es' (effect e es s)"
  by (simp_all add: effect_def)

lemma apply_event_times: "apply_event e x (s\<lparr>st_times := t\<rparr>) = (apply_event e x s)\<lparr>st_times := t\<rparr>"
  by (cases x; cases s) simp_all

lemma effect_times [simp]: "effect e es (s\<lparr>st_times := t\<rparr>) = (effect e es s)\<lparr>st_times := t\<rparr>"
  by (induction es arbitrary: s) (simp_all add: apply_event_times)

lemma effect_st_times [simp]: "st_times (effect e es s) = st_times s"
proof (induction es arbitrary: s)
  case (Cons x es)
  then show ?case by (cases x) simp_all
qed simp

section \<open>Meaning\<close>

definition lookup :: "runtime_env \<Rightarrow> jsstr \<Rightarrow> int \<Rightarrow> jsstr \<Rightarrow> expr_error + jsval" where
  "lookup e f i t =
     (if f = js ''param'' then call_param e i t else if f = js ''header'' then call_header e i t
      else call_usage e i t)"

definition rounded :: "jsstr \<Rightarrow> jsnum \<Rightarrow> jsnum" where
  "rounded f x = (if f = js ''abs'' then num_abs x else if f = js ''floor'' then num_floor x else num_ceil x)"

text \<open>The value of a call and its events, from the values of the arguments.\<close>

definition call_one :: "runtime_env \<Rightarrow> jsstr \<Rightarrow> int \<Rightarrow> jsval \<Rightarrow> (runtime_value \<times> event list) option" where
  "call_one e f i v =
     (case v of
        VNum x \<Rightarrow>
          if f = js ''fixed'' then Some (plain (VNum (num_mul x (Fin 1000000))), [FixedPrice x])
          else if f \<in> set [js ''abs'', js ''floor'', js ''ceil''] then Some (plain (VNum (rounded f x)), [])
          else None
      | VStr t \<Rightarrow>
          if f \<in> set [js ''param'', js ''header'', js ''u''] then
            (case lookup e f i t of Inr u \<Rightarrow> Some (plain u, []) | Inl err \<Rightarrow> None)
          else if f \<in> set time_functions then
            (case timeInBillingZone (env_host e) (env_now e) (trim t) of
               Inr tv \<Rightarrow> Some (\<lparr>rv_value = VNum (time_field tv f), rv_integer = True\<rparr>, [])
             | Inl err \<Rightarrow> None)
          else None
      | _ \<Rightarrow> None)"

definition call_two :: "jsstr \<Rightarrow> jsval \<Rightarrow> jsval \<Rightarrow> (runtime_value \<times> event list) option" where
  "call_two f v w =
     (if f = js ''has'' then
        (case w of VStr t \<Rightarrow> (case call_has v t of Inr u \<Rightarrow> Some (plain u, []) | Inl err \<Rightarrow> None) | _ \<Rightarrow> None)
      else (case (v, w) of
          (VStr name, VNum x) \<Rightarrow> if f = js ''tier'' then Some (plain (VNum x), [TierChosen name]) else None
        | (VNum x, VNum y) \<Rightarrow>
            if f = js ''min'' then Some (plain (VNum (num_min x y)), [])
            else if f = js ''max'' then Some (plain (VNum (num_max x y)), []) else None
        | _ \<Rightarrow> None))"

inductive means :: "runtime_env \<Rightarrow> node \<Rightarrow> runtime_value \<Rightarrow> event list \<Rightarrow> bool"
  and computes :: "runtime_env \<Rightarrow> node \<Rightarrow> runtime_value \<Rightarrow> event list \<Rightarrow> bool"
  for e :: runtime_env where
  checked_value: "computes e n v es \<Longrightarrow> value_ok v \<Longrightarrow> means e n v es"
| literal: "computes e (Lit l b i j) \<lparr>rv_value = literal_value l, rv_integer = b\<rparr> []"
| variable: "variable_value (env_context e) v i = Inr x \<Longrightarrow> computes e (Var v i j) (plain (VNum x)) []"
| yes: "means e c v es \<Longrightarrow> rv_value v = VBool True \<Longrightarrow> means e a w es' \<Longrightarrow>
    computes e (Cond c a b i j) w (es @ RuleMatched (Cond c a b i j) # es')"
| no: "means e c v es \<Longrightarrow> rv_value v = VBool False \<Longrightarrow> means e b w es' \<Longrightarrow>
    computes e (Cond c a b i j) w (es @ es')"
| negation: "means e a v es \<Longrightarrow> rv_value v = VBool t \<Longrightarrow>
    computes e (Unary (js ''!'') a i j) (plain (VBool (\<not> t))) es"
| sign: "op \<noteq> js ''!'' \<Longrightarrow> means e a v es \<Longrightarrow> rv_value v = VNum x \<Longrightarrow>
    computes e (Unary op a i j)
      \<lparr>rv_value = VNum (if op = js ''-'' then num_neg x else x), rv_integer = rv_integer v\<rparr> es"
| short: "op \<in> {js ''&&'', js ''||''} \<Longrightarrow> means e a v es \<Longrightarrow> rv_value v = VBool (op = js ''||'') \<Longrightarrow>
    computes e (Binary op a b i j) (plain (VBool (op = js ''||''))) es"
| logic: "op \<in> {js ''&&'', js ''||''} \<Longrightarrow> means e a v es \<Longrightarrow> rv_value v = VBool (op = js ''&&'') \<Longrightarrow>
    means e b w es' \<Longrightarrow> rv_value w = VBool t \<Longrightarrow>
    computes e (Binary op a b i j) (plain (VBool t)) (es @ es')"
| strict: "op \<notin> {js ''&&'', js ''||''} \<Longrightarrow> means e a v es \<Longrightarrow> means e b w es' \<Longrightarrow>
    binary_values op v w i = Inr x \<Longrightarrow> computes e (Binary op a b i j) x (es @ es')"
| one: "0 < length as \<Longrightarrow> means e (as ! 0) v es \<Longrightarrow> call_one e f i (rv_value v) = Some (w, es') \<Longrightarrow>
    computes e (Call f as i j) w (es @ es')"
| two: "1 < length as \<Longrightarrow> means e (as ! 0) v es \<Longrightarrow> means e (as ! 1) w es' \<Longrightarrow>
    call_two f (rv_value v) (rv_value w) = Some (u, es'') \<Longrightarrow>
    computes e (Call f as i j) u (es @ es' @ es'')"

inductive_cases meansE: "means e n v es"
inductive_cases computes_LitE: "computes e (Lit l b i j) v es"
inductive_cases computes_VarE: "computes e (Var x i j) v es"
inductive_cases computes_CondE: "computes e (Cond c a b i j) v es"
inductive_cases computes_UnaryE: "computes e (Unary op a i j) v es"
inductive_cases computes_BinaryE: "computes e (Binary op a b i j) v es"
inductive_cases computes_CallE: "computes e (Call f as i j) v es"

section \<open>The evaluator implements the meaning\<close>

text \<open>The evaluator's call from the values of its arguments.\<close>

definition reaches :: "runtime_env \<Rightarrow> runtime_state \<Rightarrow> event list \<Rightarrow> runtime_state \<Rightarrow> bool" where
  "reaches e s es s' \<longleftrightarrow> (\<exists>t. s' = (effect e es s)\<lparr>st_times := t\<rparr>)"

lemma reaches_refl [simp]: "reaches e s [] s"
  by (auto simp: reaches_def intro!: exI[of _ "st_times s"])

lemma reaches_trans: "reaches e s es s1 \<Longrightarrow> reaches e s1 es' s2 \<Longrightarrow> reaches e s (es @ es') s2"
  by (auto simp: reaches_def)

lemma reaches_event: "reaches e s es s1 \<Longrightarrow> reaches e s (es @ [x]) (apply_event e x s1)"
proof -
  assume "reaches e s es s1"
  moreover have "reaches e s1 [x] (apply_event e x s1)"
    unfolding reaches_def by (rule exI[of _ "st_times (apply_event e x s1)"]) simp
  ultimately show ?thesis by (rule reaches_trans)
qed

lemma zone_time_value:
  assumes "times_inv e table" and "zone_time e z table = Inr (tv, table')"
  shows "timeInBillingZone (env_host e) (env_now e) z = Inr tv"
  using assms by (auto simp: zone_time_def times_inv_def rsimps split: option.splits)

lemma function_names:
  "f \<in> set time_functions \<Longrightarrow> f \<notin> {js ''fixed'', js ''tier'', js ''param'', js ''header'', js ''u'', js ''has'',
    js ''min'', js ''max'', js ''abs'', js ''floor'', js ''ceil''}"
  by (auto simp: time_functions_def)

lemma eval_call_means:
  assumes "eval_call e d f as i s = Inr r" and "times_inv e (st_times s)"
  shows "(\<exists>v s1 es. eval_arg e d as 0 s = Inr (v, s1) \<and> call_one e f i (rv_value v) = Some (fst r, es) \<and>
      reaches e s1 es (snd r)) \<or>
    (\<exists>v s1 w s2 es. eval_arg e d as 0 s = Inr (v, s1) \<and> eval_arg e d as 1 s1 = Inr (w, s2) \<and>
      call_two f (rv_value v) (rv_value w) = Some (fst r, es) \<and> reaches e s2 es (snd r))"
proof -
  have times: "times_inv e (st_times s1)" if "eval_arg e d as 0 s = Inr (v, s1)" for v s1
    using that times_state.evaluation_keeps assms(2) by (fastforce simp: eval_arg_Inr)
  consider "f = js ''fixed''" | "f = js ''tier''" | "f \<in> {js ''param'', js ''header'', js ''u''}"
    | "f = js ''has''" | "f \<in> {js ''min'', js ''max''}" | "f \<in> {js ''abs'', js ''floor'', js ''ceil''}"
    | "f \<in> set time_functions"
    using assms(1) by (auto simp: eval_call.simps[of e d f as i s] split: if_splits)
  then show ?thesis
  proof cases
    case 1
    with assms(1) obtain v s1 x where "eval_arg e d as 0 s = Inr (v, s1)" "rv_value v = VNum x"
      "r = (plain (VNum (num_mul x (Fin 1000000))), apply_event e (FixedPrice x) s1)"
      by (auto simp: eval_call.simps[of e d _ as i s] rsimps)
    with 1 reaches_event[of e s1 "[]" s1 "FixedPrice x"] show ?thesis
      by (intro disjI1 exI[of _ v] exI[of _ s1] exI[of _ "[FixedPrice x]"])
        (simp add: call_one_def del: apply_event.simps)
  next
    case 2
    with assms(1) obtain v s1 name w s2 x where "eval_arg e d as 0 s = Inr (v, s1)" "rv_value v = VStr name"
      "eval_arg e d as 1 s1 = Inr (w, s2)" "rv_value w = VNum x"
      "r = (plain (VNum x), apply_event e (TierChosen name) s2)"
      by (auto simp: eval_call.simps[of e d _ as i s] rsimps)
    with 2 reaches_event[of e s2 "[]" s2 "TierChosen name"] show ?thesis
      by (intro disjI2 exI[of _ v] exI[of _ s1] exI[of _ w] exI[of _ s2] exI[of _ "[TierChosen name]"])
        (simp add: call_two_def del: apply_event.simps)
  next
    case 3
    with assms(1) show ?thesis
      by (auto simp: eval_call.simps[of e d _ as i s] rsimps call_one_def lookup_def)
  next
    case 4
    with assms(1) show ?thesis
      by (auto simp: eval_call.simps[of e d _ as i s] rsimps call_two_def)
  next
    case 5
    with assms(1) show ?thesis
      by (auto simp: eval_call.simps[of e d _ as i s] rsimps call_two_def)
  next
    case 6
    with assms(1) show ?thesis
      by (auto simp: eval_call.simps[of e d _ as i s] rsimps call_one_def rounded_def)
  next
    case 7
    note names = function_names[OF 7]
    with 7 assms(1) obtain v s1 zone tv table where "eval_arg e d as 0 s = Inr (v, s1)"
      "rv_value v = VStr zone" "zone_time e (trim zone) (st_times s1) = Inr (tv, table)"
      "r = (\<lparr>rv_value = VNum (time_field tv f), rv_integer = True\<rparr>, s1\<lparr>st_times := table\<rparr>)"
      by (auto simp: eval_call.simps[of e d f as i s] rsimps call_time_def)
    with zone_time_value[OF times this(3)] 7 names show ?thesis
      by (intro disjI1 exI[of _ v] exI[of _ s1] exI[of _ "[]"]) (auto simp: call_one_def reaches_def)
  qed
qed

text \<open>Soundness, one node at a time.\<close>

definition sound_at :: "runtime_env \<Rightarrow> node \<Rightarrow> bool" where
  "sound_at e n \<longleftrightarrow>
     (\<forall>d s v s'. evaluate e d n s = Inr (v, s') \<longrightarrow> times_inv e (st_times s) \<longrightarrow>
        (\<exists>es. means e n v es \<and> reaches e s es s') \<and> times_inv e (st_times s'))"

lemma sound_atD:
  assumes "sound_at e n" and "evaluate e d n s = Inr (v, s')" and "times_inv e (st_times s)"
  obtains es where "means e n v es" and "reaches e s es s'" and "times_inv e (st_times s')"
  using assms unfolding sound_at_def by blast

lemma sound_call:
  assumes "\<forall>a \<in> set as. sound_at e a" and "eval_call e d f as i s = Inr r" and "times_inv e (st_times s)"
  shows "\<exists>es. computes e (Call f as i j) (fst r) es \<and> reaches e s es (snd r)"
proof -
  have arg: "\<exists>es. k < length as \<and> means e (as ! k) v es \<and> reaches e s1 es s2 \<and> times_inv e (st_times s2)"
    if "eval_arg e d as k s1 = Inr (v, s2)" "times_inv e (st_times s1)" for k s1 v s2
    using that assms(1) unfolding eval_arg_Inr by (meson nth_mem sound_atD)
  from eval_call_means[OF assms(2,3)] show ?thesis
  proof (elim disjE exE conjE)
    fix v s1 es
    assume a: "eval_arg e d as 0 s = Inr (v, s1)" "call_one e f i (rv_value v) = Some (fst r, es)"
      "reaches e s1 es (snd r)"
    then show ?thesis using arg[OF a(1) assms(3)] by (blast intro: one reaches_trans)
  next
    fix v s1 w s2 es
    assume a: "eval_arg e d as 0 s = Inr (v, s1)" "eval_arg e d as 1 s1 = Inr (w, s2)"
      "call_two f (rv_value v) (rv_value w) = Some (fst r, es)" "reaches e s2 es (snd r)"
    from arg[OF a(1) assms(3)] obtain es1 where es1: "means e (as ! 0) v es1" "reaches e s es1 s1"
      "times_inv e (st_times s1)" by blast
    from arg[OF a(2) es1(3)] a(3,4) es1(1,2) show ?thesis by (blast intro: two reaches_trans)
  qed
qed

lemma sound_unary:
  assumes "sound_at e a" and "evaluateNode e d (Unary op a i j) s = Inr r" and "times_inv e (st_times s)"
  shows "\<exists>es. computes e (Unary op a i j) (fst r) es \<and> reaches e s es (snd r)"
  using assms(2)
proof (cases rule: eval_unary_cases)
  case (not v s1 t)
  then show ?thesis using sound_atD[OF assms(1) not(2) assms(3)] negation by (metis fst_conv snd_conv)
next
  case (sign v s1 x)
  then show ?thesis
    using sound_atD[OF assms(1) sign(2) assms(3)] means_computes.sign[OF sign(1) _ sign(3)] by (metis fst_conv snd_conv)
qed

lemma sound_binary:
  assumes "sound_at e a" and "sound_at e b" and "evaluateNode e d (Binary op a b i j) s = Inr r"
    and "times_inv e (st_times s)"
  shows "\<exists>es. computes e (Binary op a b i j) (fst r) es \<and> reaches e s es (snd r)"
  using assms(3)
proof (cases rule: eval_binary_cases)
  case (short v s1)
  then show ?thesis
    using sound_atD[OF assms(1) short(2) assms(4)] means_computes.short[OF short(1) _ short(3)] by (metis fst_conv snd_conv)
next
  case (logic v s1 w s2 t)
  obtain es where es: "means e a v es" "reaches e s es s1" "times_inv e (st_times s1)"
    by (rule sound_atD[OF assms(1) logic(2) assms(4)])
  obtain es' where "means e b w es'" "reaches e s1 es' s2" by (rule sound_atD[OF assms(2) logic(4) es(3)])
  then show ?thesis
    using means_computes.logic[OF logic(1) es(1) logic(3) _ logic(5)] reaches_trans[OF es(2)] logic(6) by simp blast
next
  case (strict v s1 w s2 x)
  obtain es where es: "means e a v es" "reaches e s es s1" "times_inv e (st_times s1)"
    by (rule sound_atD[OF assms(1) strict(2) assms(4)])
  obtain es' where "means e b w es'" "reaches e s1 es' s2" by (rule sound_atD[OF assms(2) strict(3) es(3)])
  then show ?thesis
    using means_computes.strict[OF strict(1) es(1) _ strict(4)] reaches_trans[OF es(2)] strict(5) by simp blast
qed

lemma sound_cond:
  assumes "sound_at e c" and "sound_at e a" and "sound_at e b"
    and "evaluateNode e d (Cond c a b i j) s = Inr (v, s2)" and "times_inv e (st_times s)"
  shows "\<exists>es. computes e (Cond c a b i j) v es \<and> reaches e s es s2"
proof (rule eval_cond_cases[OF assms(4)], goal_cases)
  case (1 w s1)
  let ?s = "apply_event e (RuleMatched (Cond c a b i j)) s1"
  obtain es where es: "means e c w es" "reaches e s es s1" "times_inv e (st_times s1)"
    by (rule sound_atD[OF assms(1) 1(1) assms(5)])
  have "evaluate e d a ?s = Inr (v, s2)" "times_inv e (st_times ?s)" using 1(3) es(3) by simp_all
  then obtain es' where es': "means e a v es'" "reaches e ?s es' s2" by (rule sound_atD[OF assms(2)])
  from yes[OF es(1) 1(2) es'(1)] reaches_trans[OF reaches_event[OF es(2)] es'(2)] show ?case by auto
next
  case (2 w s1)
  obtain es where es: "means e c w es" "reaches e s es s1" "times_inv e (st_times s1)"
    by (rule sound_atD[OF assms(1) 2(1) assms(5)])
  obtain es' where "means e b v es'" "reaches e s1 es' s2" by (rule sound_atD[OF assms(3) 2(3) es(3)])
  with no[OF es(1) 2(2)] reaches_trans[OF es(2)] show ?case by blast
qed

lemma evaluate_sound: "sound_at e n"
proof (induction n rule: node_children_induct)
  case (node n)
  have "\<exists>es. means e n v es \<and> reaches e s es s'"
    if ev: "evaluate e d n s = Inr (v, s')" and times: "times_inv e (st_times s)" for d s v s'
  proof -
    have r: "evaluateNode e (d + 1) n s = Inr (v, s')" "value_ok v" using ev by (simp_all add: evaluate_Inr)
    have "\<exists>es. computes e n v es \<and> reaches e s es s'"
    proof (cases n)
      case (Call f as i j)
      then show ?thesis using sound_call[of as e "d + 1" f i s "(v, s')"] node r times by simp
    next
      case (Unary op a i j)
      then show ?thesis using sound_unary[of e a "d + 1" op i j s "(v, s')"] node r times by simp
    next
      case (Binary op a b i j)
      then show ?thesis using sound_binary[of e a b "d + 1" op i j s "(v, s')"] node r times by simp
    next
      case (Cond c a b i j)
      then show ?thesis using sound_cond[of e c a b "d + 1" i j s v s'] node r times by simp
    qed (use r in \<open>auto simp: rsimps intro!: exI[of _ "[]"] literal variable\<close>)
    with r(2) checked_value show ?thesis by blast
  qed
  then show ?case using times_state.evaluation_keeps unfolding sound_at_def by fastforce
qed

section \<open>Completeness\<close>

lemma evaluate_Inr_intro:
  "d < 256 \<Longrightarrow> evaluateNode e (d + 1) n s = Inr (v, s') \<Longrightarrow> value_ok v \<Longrightarrow> evaluate e d n s = Inr (v, s')"
  by (simp add: evaluate_Inr)

lemma zone_time_complete:
  assumes "times_inv e table" and "timeInBillingZone (env_host e) (env_now e) z = Inr tv"
  shows "\<exists>table'. zone_time e z table = Inr (tv, table') \<and> times_inv e table'"
proof -
  have "\<exists>table'. zone_time e z table = Inr (tv, table')"
    using assms by (auto simp: zone_time_def times_inv_def split: option.splits)
  with times_inv_step[OF assms(1)] show ?thesis by blast
qed

text \<open>Where a run of the evaluator on a node with a meaning ends.\<close>

definition ends :: "runtime_env \<Rightarrow> event list \<Rightarrow> runtime_state \<Rightarrow> runtime_value \<Rightarrow>
    expr_error + runtime_value \<times> runtime_state \<Rightarrow> bool" where
  "ends e es s v r \<longleftrightarrow> (\<exists>s'. r = Inr (v, s') \<and> reaches e s es s' \<and> times_inv e (st_times s'))"

lemma ends_pure: "times_inv e (st_times s) \<Longrightarrow> ends e [] s v (Inr (v, s))"
  by (simp add: ends_def)

lemma ends_event:
  "times_inv e (st_times s) \<Longrightarrow> ends e [x] s v (Inr (v, apply_event e x s))"
  using reaches_event[of e s "[]" s x] by (cases x) (simp_all add: ends_def)

lemma call_one_complete:
  assumes "call_one e f i (rv_value v) = Some (w, es)" and "eval_arg e d as 0 s = Inr (v, s1)"
    and "times_inv e (st_times s1)"
  shows "ends e es s1 w (eval_call e d f as i s)"
proof -
  from assms(1) consider x where "rv_value v = VNum x" "f = js ''fixed''"
      "w = plain (VNum (num_mul x (Fin 1000000)))" "es = [FixedPrice x]"
    | x where "rv_value v = VNum x" "f \<in> {js ''abs'', js ''floor'', js ''ceil''}"
      "w = plain (VNum (rounded f x))" "es = []"
    | t u where "rv_value v = VStr t" "f \<in> {js ''param'', js ''header'', js ''u''}" "lookup e f i t = Inr u"
      "w = plain u" "es = []"
    | t tv where "rv_value v = VStr t" "f \<in> set time_functions"
      "timeInBillingZone (env_host e) (env_now e) (trim t) = Inr tv"
      "w = \<lparr>rv_value = VNum (time_field tv f), rv_integer = True\<rparr>" "es = []"
    by (auto simp: call_one_def split: jsval.splits if_splits sum.splits)
  then show ?thesis
  proof cases
    case 1
    with assms(2) ends_event[OF assms(3), of "FixedPrice x" w] show ?thesis
      by (simp add: eval_call.simps[of e d _ as i s] as_numeric_def)
  next
    case 2
    with assms(2) ends_pure[OF assms(3), of w] show ?thesis
      by (auto simp: eval_call.simps[of e d _ as i s] as_numeric_def rounded_def)
  next
    case 3
    with assms(2) ends_pure[OF assms(3), of w] show ?thesis
      by (auto simp: eval_call.simps[of e d _ as i s] as_string_def lookup_def)
  next
    case 4
    obtain table where t: "zone_time e (trim t) (st_times s1) = Inr (tv, table)" "times_inv e table"
      using zone_time_complete[OF assms(3) 4(3)] by blast
    have "reaches e s1 [] (s1\<lparr>st_times := table\<rparr>)" by (auto simp: reaches_def)
    with 4 t assms(2) function_names[OF 4(2)] show ?thesis
      by (simp add: eval_call.simps[of e d f as i s] as_string_def call_time_def ends_def)
  qed
qed

lemma call_two_complete:
  assumes "call_two f (rv_value v) (rv_value w) = Some (u, es)" and "eval_arg e d as 0 s = Inr (v, s1)"
    and "eval_arg e d as 1 s1 = Inr (w, s2)" and "times_inv e (st_times s2)"
  shows "ends e es s2 u (eval_call e d f as i s)"
proof -
  from assms(1) consider t x where "rv_value w = VStr t" "f = js ''has''" "call_has (rv_value v) t = Inr x"
      "u = plain x" "es = []"
    | name x where "rv_value v = VStr name" "rv_value w = VNum x" "f = js ''tier''" "u = plain (VNum x)"
      "es = [TierChosen name]"
    | x y where "rv_value v = VNum x" "rv_value w = VNum y" "f \<in> {js ''min'', js ''max''}"
      "u = plain (VNum (if f = js ''min'' then num_min x y else num_max x y))" "es = []"
    by (auto simp: call_two_def split: jsval.splits if_splits sum.splits)
  then show ?thesis
  proof cases
    case 1
    with assms(2,3) ends_pure[OF assms(4), of u] show ?thesis
      by (simp add: eval_call.simps[of e d _ as i s] as_string_def)
  next
    case 2
    with assms(2,3) ends_event[OF assms(4), of "TierChosen name" u] show ?thesis
      by (simp add: eval_call.simps[of e d _ as i s] as_string_def as_numeric_def)
  next
    case 3
    with assms(2,3) ends_pure[OF assms(4), of u] show ?thesis
      by (auto simp: eval_call.simps[of e d _ as i s] as_numeric_def)
  qed
qed

lemma ends_bind:
  assumes "ends e es s v r" and "\<And>s'. times_inv e (st_times s') \<Longrightarrow> ends e es' s' w (f (v, s'))"
  shows "ends e (es @ es') s w (rbind r f)"
proof -
  from assms(1) obtain s1 where s1: "r = Inr (v, s1)" "reaches e s es s1" "times_inv e (st_times s1)"
    by (auto simp: ends_def)
  with assms(2)[OF s1(3)] show ?thesis by (auto simp: ends_def intro: reaches_trans)
qed

lemma ends_bind_pure:
  assumes "ends e es s v r" and "\<And>s'. times_inv e (st_times s') \<Longrightarrow> ends e [] s' w (f (v, s'))"
  shows "ends e es s w (rbind r f)"
  using ends_bind[OF assms] by simp

lemma ends_cond:
  assumes "ends e es s v (evaluate e d c s)" and "rv_value v = VBool t"
    and "\<And>s'. times_inv e (st_times s') \<Longrightarrow> ends e es' s' w (if t
        then evaluate e d a (apply_event e (RuleMatched (Cond c a b i j)) s') else evaluate e d b s')"
  shows "ends e (es @ es') s w (evaluateNode e d (Cond c a b i j) s)"
  unfolding evaluateNode.simps
  by (rule ends_bind[OF assms(1)]) (use assms(2,3) in \<open>cases t; simp add: as_boolean_def\<close>)

lemma ends_call:
  assumes "k < length as" and "ends e es s v (evaluate e d (as ! k) s)"
  obtains s' where "eval_arg e d as k s = Inr (v, s')" and "reaches e s es s'" and "times_inv e (st_times s')"
  using assms by (auto simp: ends_def eval_arg_Inr)

lemma ends_trans: "reaches e s es s1 \<Longrightarrow> ends e es' s1 v r \<Longrightarrow> ends e (es @ es') s v r"
  by (auto simp: ends_def intro: reaches_trans)

lemma ends_after_event: "ends e es (apply_event e x s) v r \<Longrightarrow> ends e (x # es) s v r"
  using ends_trans[OF reaches_event[of e s "[]" s x], of es v r] by simp

lemma height_arg: "k < length as \<Longrightarrow> height (as ! k) < height (Call f as i j)"
  using height_children[of "as ! k" "Call f as i j"] by simp

lemma means_evaluate:
  "means e n v es \<Longrightarrow> d + int (height n) < 256 \<Longrightarrow> times_inv e (st_times s) \<Longrightarrow>
     ends e es s v (evaluate e d n s)"
  "computes e n v es \<Longrightarrow> d + int (height n) \<le> 256 \<Longrightarrow> times_inv e (st_times s) \<Longrightarrow>
     ends e es s v (evaluateNode e d n s)"
proof (induction arbitrary: d s and d s rule: means_computes.inducts)
  case (checked_value n v es)
  then have "ends e es s v (evaluateNode e (d + 1) n s)" by simp
  with checked_value show ?case by (auto simp: ends_def evaluate_Inr)
next
  case (yes c v es a w es' b i j)
  then show ?case by (intro ends_cond[where t = True] ends_after_event) auto
next
  case (no c v es b w es' a i j)
  then show ?case by (intro ends_cond[where t = False]) auto
next
  case (negation a v es t i j)
  have a: "ends e es s v (evaluate e d a s)" using negation by simp
  show ?case by (simp, rule ends_bind_pure[OF a]) (simp add: as_boolean_def negation.hyps ends_pure)
next
  case (sign op a v es x i j)
  have a: "ends e es s v (evaluate e d a s)" using sign by simp
  have "ends e es s \<lparr>rv_value = VNum (if op = js ''-'' then num_neg x else x), rv_integer = rv_integer v\<rparr>
      (rbind (evaluate e d a s) (\<lambda>r. rbind (as_numeric a r) (\<lambda>((x, isint), s).
        Inr (\<lparr>rv_value = VNum (if op = js ''-'' then num_neg x else x), rv_integer = isint\<rparr>, s))))"
    by (rule ends_bind_pure[OF a]) (simp add: as_numeric_def sign.hyps ends_pure)
  with sign(1) show ?case by simp
next
  case (short op a v es b i j)
  have a: "ends e es s v (evaluate e d a s)" using short by simp
  show ?case using short.hyps by (auto intro!: ends_bind_pure[OF a] simp: as_boolean_def ends_pure)
next
  case (logic op a v es b w es' t i j)
  have a: "ends e es s v (evaluate e d a s)" using logic by simp
  have b: "ends e es' s' w (evaluate e d b s')" if "times_inv e (st_times s')" for s' using logic that by simp
  have "ends e es' s' (plain (VBool t))
      (rbind (evaluate e d b s') (\<lambda>r. rbind (as_boolean b r) (\<lambda>(t, s). Inr (plain (VBool t), s))))"
    if "times_inv e (st_times s')" for s'
    by (rule ends_bind_pure[OF b[OF that]]) (simp add: as_boolean_def logic.hyps ends_pure)
  then show ?case using logic.hyps by (auto intro!: ends_bind[OF a] simp: as_boolean_def)
next
  case (strict op a v es b w es' i x j)
  have a: "ends e es s v (evaluate e d a s)" using strict by simp
  have b: "ends e es' s' w (evaluate e d b s')" if "times_inv e (st_times s')" for s' using strict that by simp
  have "ends e es' s' x (rbind (evaluate e d b s') (\<lambda>(r, s). rbind (binary_values op v r i) (\<lambda>v. Inr (v, s))))"
    if "times_inv e (st_times s')" for s'
    by (rule ends_bind_pure[OF b[OF that]]) (simp add: strict.hyps ends_pure)
  then show ?case using strict(1) by (auto intro!: ends_bind[OF a])
next
  case (one as v es f i w es' j)
  have "d + int (height (as ! 0)) < 256" using height_arg[OF one(1), of f i j] one.prems(1) by simp
  then obtain s1 where "eval_arg e d as 0 s = Inr (v, s1)" "reaches e s es s1" "times_inv e (st_times s1)"
    using one by (meson ends_call)
  moreover have "call_one e f i (rv_value v) = Some (w, es')" using one by blast
  ultimately show ?case using call_one_complete ends_trans by fastforce
next
  case (two as v es w es' f u es'' i j)
  have len: "0 < length as" using two(1) by linarith
  have h: "d + int (height (as ! 0)) < 256" "d + int (height (as ! 1)) < 256"
    using height_arg[OF len, of f i j] height_arg[OF two(1), of f i j] two.prems(1) by linarith+
  from len obtain s1 where s1: "eval_arg e d as 0 s = Inr (v, s1)" "reaches e s es s1" "times_inv e (st_times s1)"
    using two h(1) by (meson ends_call)
  obtain s2 where s2: "eval_arg e d as 1 s1 = Inr (w, s2)" "reaches e s1 es' s2" "times_inv e (st_times s2)"
    using two h(2) s1(3) by (meson ends_call)
  have "call_two f (rv_value v) (rv_value w) = Some (u, es'')" using two by blast
  from ends_trans[OF s1(2) ends_trans[OF s2(2) call_two_complete[OF this s1(1) s2(1,3)]]] show ?case by simp
qed (auto intro: ends_pure)

section \<open>Refinement\<close>

definition outcome :: "compiled \<Rightarrow> simulation_context \<Rightarrow> jsnum \<Rightarrow> runtime_state \<Rightarrow> evaluation_success" where
  "outcome c ctx x s =
     \<lparr>ev_cost = x, ev_unit = st_unit s, ev_fixedPrice = st_fixed s,
      ev_imageCount = (if js ''image_count'' \<in> set (cvariables c)
                       then Some (case ctx_imageCount ctx of Some y \<Rightarrow> y | None \<Rightarrow> Fin 1) else None),
      ev_matchedTier = st_tier s, ev_requestRules = st_rules s\<rparr>"

lemma outcome_reaches: "reaches e s es s' \<Longrightarrow> outcome c ctx x s' = outcome c ctx x (effect e es s)"
  by (auto simp: reaches_def outcome_def)

lemma new_runtime_times: "new_runtime h c ctx = Inr (e, s) \<Longrightarrow> times_inv e (st_times s)"
  by (auto simp: new_runtime_def rsimps times_inv_def)

lemma run_compiled_outcome:
  "run_compiled h c ctx = Inr r \<longleftrightarrow>
     check_tokens (case ctx_tokens ctx of Some ts \<Rightarrow> ts | None \<Rightarrow> []) = Inr () \<and>
     (\<exists>e s v s' x. new_runtime h c ctx = Inr (e, s) \<and> evaluate e 0 (cast c) s = Inr (v, s') \<and>
        billing_result (rv_value v) = Inr x \<and> r = outcome c ctx x s')"
  by (auto simp: run_compiled_def outcome_def rsimps)

text \<open>
  C2. The evaluator refines the inductive meaning of expressions. A run of a compiled expression
  succeeds exactly when the tokens and headers are valid and the expression has a meaning whose
  value is a finite amount that is not negative; the cost is that value, and the tier, the unit,
  the fixed price and the rule traces are the effect of the events of the meaning. Neither the
  order in which the state is updated nor the table of zone times can be seen in the result.
\<close>

theorem evaluation_refines_meaning:
  assumes "height (cast c) < 256"
  shows "run_compiled h c ctx = Inr r \<longleftrightarrow>
    check_tokens (case ctx_tokens ctx of Some ts \<Rightarrow> ts | None \<Rightarrow> []) = Inr () \<and>
    (\<exists>e s v es x. new_runtime h c ctx = Inr (e, s) \<and> means e (cast c) v es \<and>
       billing_result (rv_value v) = Inr x \<and> r = outcome c ctx x (effect e es s))"
proof -
  have "(\<exists>s'. evaluate e 0 (cast c) s = Inr (v, s') \<and> r = outcome c ctx x s') \<longleftrightarrow>
      (\<exists>es. means e (cast c) v es \<and> r = outcome c ctx x (effect e es s))"
    if "new_runtime h c ctx = Inr (e, s)" for e s v x
  proof
    assume "\<exists>s'. evaluate e 0 (cast c) s = Inr (v, s') \<and> r = outcome c ctx x s'"
    then obtain s' where "evaluate e 0 (cast c) s = Inr (v, s')" "r = outcome c ctx x s'" by blast
    with sound_atD[OF evaluate_sound this(1) new_runtime_times[OF that]] outcome_reaches
    show "\<exists>es. means e (cast c) v es \<and> r = outcome c ctx x (effect e es s)" by metis
  next
    assume "\<exists>es. means e (cast c) v es \<and> r = outcome c ctx x (effect e es s)"
    then obtain es where es: "means e (cast c) v es" "r = outcome c ctx x (effect e es s)" by blast
    with means_evaluate(1)[OF es(1), of 0 s] assms new_runtime_times[OF that] outcome_reaches
    show "\<exists>s'. evaluate e 0 (cast c) s = Inr (v, s') \<and> r = outcome c ctx x s'" by (auto simp: ends_def)
  qed
  then show ?thesis unfolding run_compiled_outcome by blast
qed

definition demo_clock :: host where
  "demo_clock = \<lparr>lower_case = (\<lambda>t. t), zone_format = (\<lambda>z t. None), current_time = Some 0\<rparr>"

definition demo_night :: jsstr where
  "demo_night = js ''(p > 5 ? tier('a', p * 2) : tier('b', p)) * (hour('UTC') < 6 ? 0.5 : 1)''"

definition demo_usage :: simulation_context where
  "demo_usage = empty_context\<lparr>ctx_tokens := Some [(js ''p'', VNum (Fin 10))]\<rparr>"

theorem evaluation_refines_meaning_witness:
  "\<exists>c r e s v es. compile_result demo_night = Ready c \<and> run_compiled demo_clock c demo_usage = Inr r \<and>
     new_runtime demo_clock c demo_usage = Inr (e, s) \<and> means e (cast c) v es \<and> rv_value v = VNum (Fin 10) \<and>
     ev_matchedTier r = js ''a''"
proof -
  have ok: "case compile_result demo_night of Failed f \<Rightarrow> False | Ready c \<Rightarrow>
      height (cast c) < 256 \<and> (case run_compiled demo_clock c demo_usage of Inl err \<Rightarrow> False | Inr r \<Rightarrow>
        ev_matchedTier r = js ''a'' \<and> ev_cost r = Fin 10)" by code_simp
  then obtain c r where c: "compile_result demo_night = Ready c" "height (cast c) < 256"
    "run_compiled demo_clock c demo_usage = Inr r" "ev_matchedTier r = js ''a''" "ev_cost r = Fin 10"
    by (auto split: compilation.splits sum.splits)
  from iffD1[OF evaluation_refines_meaning[OF c(2)] c(3)] obtain e s v es x
    where m: "new_runtime demo_clock c demo_usage = Inr (e, s)" "means e (cast c) v es"
      "billing_result (rv_value v) = Inr x" "r = outcome c demo_usage x (effect e es s)" by blast
  have "rv_value v = VNum (Fin 10)"
    using m(3,4) c(5) by (auto simp: billing_result_def outcome_def split: jsval.splits if_splits)
  with c m show ?thesis by blast
qed

end
