(* ===== verification/EvalFacts.thy ===== *)
theory EvalFacts
  imports Semantics
begin

text \<open>
  What an evaluation can depend on and how it can fail: the reported variables and functions of a
  compiled expression are all that matters of the context, and the evaluator never runs into a
  missing argument or, within its depth bound, into the depth limit.
\<close>

section \<open>Only the dependencies matter\<close>

text \<open>Two runtimes that differ only where an expression over these names cannot look.\<close>

definition agree_env :: "jsstr set \<Rightarrow> jsstr set \<Rightarrow> runtime_env \<Rightarrow> runtime_env \<Rightarrow> bool" where
  "agree_env V F e e' \<longleftrightarrow>
     env_host e = env_host e' \<and> env_rules e = env_rules e' \<and>
     (\<forall>v \<in> V. \<forall>i. variable_value (env_context e) v i = variable_value (env_context e') v i) \<and>
     (js ''param'' \<in> F \<or> js ''header'' \<in> F \<longrightarrow>
        ctx_request (env_context e) = ctx_request (env_context e') \<and> env_headers e = env_headers e') \<and>
     (js ''u'' \<in> F \<longrightarrow> ctx_usage (env_context e) = ctx_usage (env_context e')) \<and>
     (F \<inter> set time_functions \<noteq> {} \<longrightarrow> env_now e = env_now e')"

lemma agree_calls:
  assumes "agree_env V F e e'"
  shows "js ''param'' \<in> F \<Longrightarrow> call_param e = call_param e'"
    and "js ''header'' \<in> F \<Longrightarrow> call_header e = call_header e'"
    and "js ''u'' \<in> F \<Longrightarrow> call_usage e = call_usage e'"
    and "f \<in> F \<Longrightarrow> f \<in> set time_functions \<Longrightarrow> call_time e f = call_time e' f"
proof -
  show "js ''param'' \<in> F \<Longrightarrow> call_param e = call_param e'"
    using assms by (intro ext) (simp add: agree_env_def call_param_def)
  show "call_header e = call_header e'" if "js ''header'' \<in> F"
  proof -
    have eqs: "env_host e = env_host e'" "env_headers e = env_headers e'"
      "ctx_request (env_context e) = ctx_request (env_context e')"
      using assms that by (simp_all add: agree_env_def)
    show ?thesis unfolding call_header_def eqs by (rule refl)
  qed
  show "js ''u'' \<in> F \<Longrightarrow> call_usage e = call_usage e'"
    using assms by (intro ext) (simp add: agree_env_def call_usage_def)
  assume "f \<in> F" "f \<in> set time_functions"
  with assms have eqs: "env_now e = env_now e'" "env_host e = env_host e'" by (auto simp: agree_env_def)
  show "call_time e f = call_time e' f" unfolding call_time_def zone_time_def eqs by (rule refl)
qed

lemma eval_call_agree:
  assumes "agree_env V F e e'" and "f \<in> F" and "\<And>k. eval_arg e d as k = eval_arg e' d as k"
  shows "eval_call e d f as i s = eval_call e' d f as i s"
  using agree_calls[OF assms(1)] assms(2)
  unfolding eval_call.simps[of _ d f as i s] assms(3) by auto

lemma evaluate_agree:
  assumes "agree_env V F e e'" and "\<And>v i j. Var v i j \<in> set (postorder n) \<Longrightarrow> v \<in> V"
    and "\<And>f as i j. Call f as i j \<in> set (postorder n) \<Longrightarrow> f \<in> F"
  shows "evaluate e d n = evaluate e' d n"
  using assms(2,3)
proof (induction n arbitrary: d rule: node_children_induct)
  case (node n)
  have IH: "evaluate e d c = evaluate e' d c" if "c \<in> set (children n)" for c d
    using node that postorder_trans[OF child_in_postorder[OF that]] by blast
  have rules: "env_rules e = env_rules e'" using assms(1) by (simp add: agree_env_def)
  have "evaluateNode e d n s = evaluateNode e' d n s" for d s
  proof (cases n)
    case (Call f as i j)
    then have "eval_arg e d as k = eval_arg e' d as k" for k
      using IH by (auto simp: fun_eq_iff eval_arg.simps)
    moreover have "f \<in> F" using node.prems(2)[of f as i j] Call self_in_postorder[of n] by simp
    ultimately show ?thesis using eval_call_agree[OF assms(1)] Call by simp
  next
    case (Var v i j)
    then have "v \<in> V" using node.prems(1)[of v i j] self_in_postorder[of n] by simp
    with Var assms(1) show ?thesis by (simp add: agree_env_def)
  next
    case (Binary op a b i j)
    then have "evaluate e d a = evaluate e' d a" "evaluate e d b = evaluate e' d b" using IH by simp_all
    then show ?thesis unfolding Binary evaluateNode.simps by (simp only:)
  next
    case (Cond c a b i j)
    then have "evaluate e d c = evaluate e' d c" "evaluate e d a = evaluate e' d a" "evaluate e d b = evaluate e' d b"
      using IH by simp_all
    then show ?thesis unfolding Cond evaluateNode.simps rules by (simp only:)
  qed (use IH in simp_all)
  then show ?case by (simp add: fun_eq_iff evaluate.simps)
qed

definition token :: "simulation_context \<Rightarrow> jsstr \<Rightarrow> jsval option" where
  "token ctx v = (case ctx_tokens ctx of Some ts \<Rightarrow> map_of ts v | None \<Rightarrow> None)"

definition agree :: "compiled \<Rightarrow> simulation_context \<Rightarrow> simulation_context \<Rightarrow> bool" where
  "agree c a b \<longleftrightarrow>
     list_all (\<lambda>v. token a v = token b v) (cvariables c) \<and>
     (js ''image_count'' \<in> set (cvariables c) \<longrightarrow> ctx_imageCount a = ctx_imageCount b) \<and>
     (js ''param'' \<in> set (cfunctions c) \<or> js ''header'' \<in> set (cfunctions c) \<longrightarrow> ctx_request a = ctx_request b) \<and>
     (js ''u'' \<in> set (cfunctions c) \<longrightarrow> ctx_usage a = ctx_usage b) \<and>
     (list_ex (\<lambda>f. f \<in> set time_functions) (cfunctions c) \<longrightarrow> ctx_now a = ctx_now b)"

definition valid_context :: "host \<Rightarrow> simulation_context \<Rightarrow> bool" where
  "valid_context h ctx \<longleftrightarrow>
     is_ok (check_tokens (case ctx_tokens ctx of Some ts \<Rightarrow> ts | None \<Rightarrow> [])) \<and>
     is_ok (read_headers h
       (case ctx_request ctx of Some r \<Rightarrow> (case req_headers r of Some hs \<Rightarrow> hs | None \<Rightarrow> []) | None \<Rightarrow> []) [])"

lemma variable_value_token:
  "token a v = token b v \<Longrightarrow> (v = js ''image_count'' \<Longrightarrow> ctx_imageCount a = ctx_imageCount b) \<Longrightarrow>
   variable_value a v i = variable_value b v i"
  by (simp add: variable_value_def token_def)

lemma agree_runtimes:
  assumes "agree c a b" and "new_runtime h c a = Inr (e, s)" and "new_runtime h c b = Inr (e', s')"
  shows "agree_env (set (cvariables c)) (set (cfunctions c)) e e' \<and> s = s'"
proof -
  have "variable_value a v i = variable_value b v i" if "v \<in> set (cvariables c)" for v i
    using assms(1) that by (intro variable_value_token) (auto simp: agree_def list_all_iff)
  with assms show ?thesis
    by (auto simp: new_runtime_def rsimps agree_def agree_env_def list_ex_iff)
qed

text \<open>
  C5. The reported dependencies are complete: two valid contexts that agree on the variables and on
  the inputs of the functions that a compiled expression mentions give the same result, be it a
  cost or an error.
\<close>

theorem evaluation_depends_only_on_reported:
  assumes "compile_result source = Ready c" and "valid_context h a" and "valid_context h b" and "agree c a b"
  shows "run_compiled h c a = run_compiled h c b"
proof -
  obtain d where d: "expressionDependencies (cast c) = Inr d" "cvariables c = dep_variables d"
    "cfunctions c = dep_functions d" by (rule compile_ready[OF assms(1)]) (rule that)
  obtain e s e' s' where n: "new_runtime h c a = Inr (e, s)" "new_runtime h c b = Inr (e', s')"
    using assms(2,3) by (auto simp: valid_context_def is_ok_iff new_runtime_def)
  note ag = agree_runtimes[OF assms(4) n]
  have "evaluate e 0 (cast c) = evaluate e' 0 (cast c)"
    by (rule evaluate_agree[OF ag[THEN conjunct1]])
      (use dependencies_sets[OF d(1)] d(2,3) in auto)
  moreover have "(if js ''image_count'' \<in> set (cvariables c)
      then Some (case ctx_imageCount a of Some y \<Rightarrow> y | None \<Rightarrow> Fin 1) else None) =
    (if js ''image_count'' \<in> set (cvariables c)
      then Some (case ctx_imageCount b of Some y \<Rightarrow> y | None \<Rightarrow> Fin 1) else None)"
    using assms(4) by (auto simp: agree_def)
  ultimately show ?thesis
    using n ag assms(2,3) by (auto simp: run_compiled_def valid_context_def is_ok_iff)
qed

theorem evaluation_depends_only_on_reported_witness:
  "\<exists>c. compile_result demo_night = Ready c \<and>
     run_compiled demo_clock c demo_usage =
     run_compiled demo_clock c
       (demo_usage\<lparr>ctx_tokens := Some [(js ''c'', VNum (Fin 3)), (js ''p'', VNum (Fin 10))],
          ctx_usage := Some [], ctx_imageCount := Some (Fin 4)\<rparr>)"
proof -
  let ?b = "demo_usage\<lparr>ctx_tokens := Some [(js ''c'', VNum (Fin 3)), (js ''p'', VNum (Fin 10))],
      ctx_usage := Some [], ctx_imageCount := Some (Fin 4)\<rparr>"
  have "case compile_result demo_night of Failed f \<Rightarrow> False | Ready c \<Rightarrow> agree c demo_usage ?b"
    "valid_context demo_clock demo_usage" "valid_context demo_clock ?b" by code_simp+
  then show ?thesis
    using evaluation_depends_only_on_reported[of demo_night _ demo_clock demo_usage ?b]
    by (auto split: compilation.splits)
qed

section \<open>Errors of the evaluator\<close>

text \<open>
  Errors that do not stem from the evaluator itself: neither an exception of the engine nor the
  depth limit.
\<close>

definition benign :: "expr_error \<Rightarrow> bool" where
  "benign err = (case err of NativeError m \<Rightarrow> False
     | BillingError d \<Rightarrow> \<not> (dcode d = CLimit \<and> detail d = js ''evaluation depth''))"

definition benign_result :: "expr_error + 'a \<Rightarrow> bool" where
  "benign_result r \<longleftrightarrow> (\<forall>err. r = Inl err \<longrightarrow> benign err)"

named_theorems benign_intros \<open>computations with benign errors only\<close>

lemma benign_fail [simp]:
  "c \<noteq> CLimit \<Longrightarrow> benign (BillingError \<lparr>dcode = c, detail = t, position = p\<rparr>)"
  by (simp add: benign_def)

lemma benign_result_simps [simp]: "benign_result (Inr x)" "benign_result (Inl err) \<longleftrightarrow> benign err"
  by (simp_all add: benign_result_def)

lemma benign_bind [benign_intros]:
  "benign_result m \<Longrightarrow> (\<And>x. benign_result (f x)) \<Longrightarrow> benign_result (rbind m f)"
  by (cases m) auto

lemma benign_choice [benign_intros]:
  "(b \<Longrightarrow> benign_result x) \<Longrightarrow> (\<not> b \<Longrightarrow> benign_result y) \<Longrightarrow> benign_result (if b then x else y)"
  by simp

lemma benign_pair [benign_intros]: "(\<And>a b. benign_result (f a b)) \<Longrightarrow> benign_result (case p of (a, b) \<Rightarrow> f a b)"
  by (cases p) simp

lemma benign_pair_apply [benign_intros]:
  "(\<And>a b. benign_result (f a b s)) \<Longrightarrow> benign_result ((case p of (a, b) \<Rightarrow> f a b) s)"
  by (cases p) simp

lemma benign_path [benign_intros]:
  "benign_result (split_path path r part parts)" "benign_result (walk_path path ps v)"
proof -
  show "benign_result (split_path path r part parts)"
    by (induction path r part parts rule: split_path.induct) auto
  show "benign_result (walk_path path ps v)"
    by (induction path ps v rule: walk_path.induct) (auto simp: Let_def split: jsval.splits option.splits)
qed

lemma benign_collect: "(\<And>k r. (k, r) \<in> set rs \<Longrightarrow> benign_result r) \<Longrightarrow> benign_result (collect rs)"
proof (induction rs)
  case (Cons p rs)
  obtain k r where p: "p = (k, r)" by (cases p)
  have "benign_result r" using Cons.prems p by auto
  moreover have "benign_result (collect rs)" using Cons by auto
  ultimately show ?case unfolding p collect.simps by (intro benign_intros) simp_all
qed simp

lemma benign_number: "benign_result (number_string x)"
  by (auto simp: number_string_def Let_def split: prod.splits)

lemma benign_billingString [benign_intros]: "benign_result (billingString depth v)"
proof (induction v arbitrary: depth)
  case (VArr vs)
  have "benign_result (collect (map (\<lambda>item. ((), billingString (depth + 1) item)) vs))"
    using VArr by (intro benign_collect) auto
  then show ?case
    unfolding billingString.simps[of depth "VArr vs"] by (simp add: benign_bind) (simp add: benign_def)
next
  case (VObj fs)
  have "benign_result (collect (sort_entries (map (\<lambda>(key, item). (key, billingString (depth + 1) item)) fs)))"
    using VObj by (intro benign_collect) auto
  then show ?case
    unfolding billingString.simps[of depth "VObj fs"] by (simp add: benign_bind) (simp add: benign_def)
qed (simp_all add: billingString.simps benign_number, simp_all add: benign_def)

lemma benign_conversions [benign_intros]:
  "benign_result (as_boolean n r)" "benign_result (as_numeric n r)" "benign_result (as_string n r)"
  by (auto simp: as_boolean_def as_numeric_def as_string_def split: jsval.splits)

lemma benign_variable [benign_intros]: "benign_result (variable_value ctx v i)"
  by (auto simp: variable_value_def Let_def split: jsval.splits option.splits)

lemma benign_checked [benign_intros]: "benign_result (checked i q)"
  by (auto simp: checked_def split: jsval.splits)

lemma benign_binary [benign_intros]: "benign_result (binary_values op l u i)"
proof -
  have "benign_result (binary_equality op a b i)" for a b by (simp add: binary_equality_def)
  moreover have "benign_result (binary_arith op x y b i)" for x y b by (simp add: binary_arith_def)
  ultimately show ?thesis
    by (cases "rv_value l"; cases "rv_value u"; cases "op = js ''+''")
      (simp_all add: binary_values_def Let_def split: option.split)
qed

lemma benign_lookups [benign_intros]:
  "benign_result (call_param e i t)" "benign_result (call_header e i t)" "benign_result (call_usage e i t)"
  "benign_result (call_has w t)"
  by (auto simp: call_param_def readRequestPath_def call_header_def call_usage_def call_has_def Let_def
      split: option.splits intro!: benign_intros)

lemma benign_time [benign_intros]: "benign_result (call_time e f t s)"
proof -
  have "benign_result (timeInBillingZone h now z)" for h now z
    by (auto simp: timeInBillingZone_def Let_def split: option.splits)
  then show ?thesis
    by (auto simp: call_time_def zone_time_def split: option.splits intro!: benign_intros)
qed

lemma benign_call:
  assumes "map_of billing_functions f = Some (length as)"
    and "\<And>k s. k < length as \<Longrightarrow> benign_result (evaluate e d (as ! k) s)"
  shows "benign_result (eval_call e d f as i s)"
proof -
  have arg: "benign_result (eval_arg e d as k s)" if "k < length as" for k s
    using that assms(2) by (simp add: eval_arg.simps)
  have one: "0 < length as" and two: "f \<in> {js ''tier'', js ''has'', js ''min'', js ''max''} \<Longrightarrow> 1 < length as"
    using assms(1) by (auto simp: billing_functions_def split: if_splits)
  show ?thesis
    unfolding eval_call.simps[of e d f as i s]
    by (intro benign_intros arg one two) simp_all
qed

definition calls_ok :: "node \<Rightarrow> bool" where
  "calls_ok n \<longleftrightarrow>
     (\<forall>f as i j. Call f as i j \<in> set (postorder n) \<longrightarrow> map_of billing_functions f = Some (length as))"

lemma calls_ok_child: "calls_ok n \<Longrightarrow> c \<in> set (children n) \<Longrightarrow> calls_ok c"
  using postorder_trans[OF child_in_postorder] unfolding calls_ok_def by blast

lemma wf_postorder: "wf_node len n \<Longrightarrow> m \<in> set (postorder n) \<Longrightarrow> wf_node len m"
proof (induction n rule: node_children_induct)
  case (node n)
  show ?case
  proof (cases "m = n")
    case False
    with node.prems(2) obtain c where c: "c \<in> set (children n)" "m \<in> set (postorder c)"
      by (subst (asm) postorder_children) auto
    from node.prems(1) c(1) have "wf_node len c" by (subst (asm) wf_node_iff) blast
    with node.IH[OF c(1) _ c(2)] show ?thesis by blast
  qed (use node.prems in simp)
qed

lemma wf_calls_ok: "wf_node len n \<Longrightarrow> calls_ok n"
proof -
  assume n: "wf_node len n"
  have "node_ok m" if "m \<in> set (postorder n)" for m
    using wf_postorder[OF n that] by (subst (asm) wf_node_iff) blast
  then show ?thesis unfolding calls_ok_def node_ok_def by fastforce
qed

lemma benign_evaluate:
  "d + int (height n) < 256 \<Longrightarrow> calls_ok n \<Longrightarrow> benign_result (evaluate e d n s)"
proof (induction n arbitrary: d s rule: node_children_induct)
  case (node n)
  have IH: "benign_result (evaluate e (d + 1) c s)" if "c \<in> set (children n)" for c s
    using node that calls_ok_child[OF node.prems(2) that] height_children[OF that] by simp
  have "benign_result (evaluateNode e (d + 1) n s)"
  proof (cases n)
    case (Call f as i j)
    moreover have "map_of billing_functions f = Some (length as)"
      using node.prems(2) Call self_in_postorder[of n] by (auto simp: calls_ok_def)
    ultimately show ?thesis using benign_call[of f as e "d + 1" i s] IH by simp
  qed (use IH in \<open>auto intro!: benign_intros\<close>)
  with node.prems(1) show ?case unfolding evaluate.simps[of e d n s] by (auto intro!: benign_intros)
qed

text \<open>
  C6. A compiled expression of fewer than 256 levels cannot crash the evaluator: an evaluation that
  fails does so with one of the diagnostics about the expression or its inputs, never with an
  exception of the engine and never with the depth limit.
\<close>

theorem compiled_never_crashes:
  assumes "compile_result source = Ready c" and "height (cast c) < 256" and "run_compiled h c ctx = Inl err"
  shows "benign err"
proof -
  have "benign_result (check_tokens ts)" for ts
    by (induction ts rule: check_tokens.induct) (auto split: jsval.splits)
  moreover have "benign_result (read_headers h hs acc)" for hs acc
    by (induction h hs acc rule: read_headers.induct) (auto simp: Let_def split: jsval.splits)
  moreover have "benign_result (billing_result v)" for v by (auto simp: billing_result_def split: jsval.splits)
  moreover have "calls_ok (cast c)" by (rule compile_ready[OF assms(1)]) (rule wf_calls_ok)
  ultimately have "benign_result (run_compiled h c ctx)"
    unfolding run_compiled_def new_runtime_def
    using benign_evaluate[of 0 "cast c"] assms(2) by (intro benign_intros) auto
  with assms(3) show ?thesis by simp
qed

theorem compiled_never_crashes_witness:
  "\<exists>c. compile_result demo_night = Ready c \<and>
     run_compiled demo_clock c empty_context = Inl (fail_at CMissingContext (js ''p'') 1) \<and>
     benign (fail_at CMissingContext (js ''p'') 1)"
proof -
  have "case compile_result demo_night of Failed f \<Rightarrow> False | Ready c \<Rightarrow>
      height (cast c) < 256 \<and>
      run_compiled demo_clock c empty_context = Inl (fail_at CMissingContext (js ''p'') 1)" by code_simp
  then obtain c where c: "compile_result demo_night = Ready c" "height (cast c) < 256"
    "run_compiled demo_clock c empty_context = Inl (fail_at CMissingContext (js ''p'') 1)"
    by (auto split: compilation.splits)
  from compiled_never_crashes[OF this] c show ?thesis by blast
qed

end
