(* ===== verification/StatusFacts.thy ===== *)
theory StatusFacts
  imports StatusCodes
begin

text \<open>
  Facts on status code rules: the set of codes a list of ranges stands for, its normal form, and
  the agreement of the console and the server on text in normal form.
\<close>

section \<open>Codes and normal forms\<close>

definition codes :: "code_range list \<Rightarrow> int set" where
  "codes rs = {c. \<exists>r \<in> set rs. cr_start r \<le> c \<and> c \<le> cr_end r}"

definition good_range :: "code_range \<Rightarrow> bool" where
  "good_range r \<longleftrightarrow> 100 \<le> cr_start r \<and> cr_start r \<le> cr_end r \<and> cr_end r \<le> 599"

text \<open>Valid ranges in ascending order that neither overlap nor touch.\<close>

definition normal_ranges :: "code_range list \<Rightarrow> bool" where
  "normal_ranges rs \<longleftrightarrow> list_all good_range rs \<and> sorted_wrt (\<lambda>a b. cr_end a + 1 < cr_start b) rs"

lemma codes_simps [simp]:
  "codes [] = {}" "codes (r # rs) = {cr_start r..cr_end r} \<union> codes rs" "codes (a @ b) = codes a \<union> codes b"
  by (auto simp: codes_def)

lemma codes_set: "set a = set b \<Longrightarrow> codes a = codes b"
  by (simp add: codes_def)

lemma normal_append:
  "normal_ranges (a @ b) \<longleftrightarrow>
     normal_ranges a \<and> normal_ranges b \<and> (\<forall>x \<in> set a. \<forall>y \<in> set b. cr_end x + 1 < cr_start y)"
  by (auto simp: normal_ranges_def sorted_wrt_append)

lemma normal_snoc:
  "normal_ranges (a @ [r]) \<longleftrightarrow> normal_ranges a \<and> good_range r \<and> (\<forall>x \<in> set a. cr_end x + 1 < cr_start r)"
  by (auto simp: normal_append) (auto simp: normal_ranges_def)

lemma merge_step_snoc:
  "merge_step (m @ [l]) r =
     (if cr_end l + 1 < cr_start r then m @ [l, r] else m @ [l\<lparr>cr_end := max (cr_end l) (cr_end r)\<rparr>])"
  by (simp add: merge_step_def)

lemma foldl_merge:
  assumes "sorted_wrt (\<lambda>a b. range_order a b \<le> 0) (l # rs)" and "list_all good_range rs"
    and "normal_ranges (m @ [l'])" and "cr_start l' \<le> cr_start l"
  shows "normal_ranges (foldl merge_step (m @ [l']) rs) \<and>
    codes (foldl merge_step (m @ [l']) rs) = codes (m @ [l']) \<union> codes rs"
  using assms
proof (induction rs arbitrary: l l' m)
  case (Cons r rs)
  have le: "cr_start l' \<le> cr_start r" and r: "good_range r" and l': "good_range l'"
    using Cons.prems by (auto simp: range_order_def normal_snoc split: if_splits)
  have s: "sorted_wrt (\<lambda>a b. range_order a b \<le> 0) (r # rs)" using Cons.prems(1) by simp
  show ?case
  proof (cases "cr_end l' + 1 < cr_start r")
    case True
    then have "normal_ranges ((m @ [l']) @ [r])"
      unfolding normal_snoc[of "m @ [l']" r] using Cons.prems(3) r l' by (auto simp: normal_snoc good_range_def)
    with Cons.IH[OF s, of "m @ [l']" r] Cons.prems(2) True show ?thesis
      by (simp add: merge_step_snoc Un_assoc)
  next
    case False
    let ?u = "l'\<lparr>cr_end := max (cr_end l') (cr_end r)\<rparr>"
    have "normal_ranges (m @ [?u])"
      using Cons.prems(3) r by (auto simp: normal_snoc good_range_def)
    moreover have "{cr_start ?u..cr_end ?u} = {cr_start l'..cr_end l'} \<union> {cr_start r..cr_end r}"
      using False le l' r by (auto simp: good_range_def max_def)
    ultimately show ?thesis
      using Cons.IH[OF s, of m ?u] Cons.prems(2) False le by (simp add: merge_step_snoc Un_assoc)
  qed
qed simp

lemma list_all_sort_by [simp]: "list_all P (sort_by cmp xs) \<longleftrightarrow> list_all P xs"
  by (simp add: list_all_iff)

text \<open>Merging keeps the codes and gives a normal form.\<close>

lemma merge_normal:
  assumes "list_all good_range rs"
  shows "normal_ranges (mergeRanges rs)" and "codes (mergeRanges rs) = codes rs"
proof -
  have "normal_ranges (mergeRanges rs) \<and> codes (mergeRanges rs) = codes rs"
  proof (cases "sort_by range_order rs")
    case Nil
    then have "rs = []" using length_sort_by[of range_order rs] by simp
    then show ?thesis by (simp add: mergeRanges_def normal_ranges_def)
  next
    case (Cons l ls)
    have "list_all good_range (l # ls)" using assms unfolding Cons[symmetric] by simp
    then have "normal_ranges ([] @ [l])" "list_all good_range ls" by (auto simp: normal_ranges_def)
    from foldl_merge[OF _ this(2,1), of l] range_order.sort_by_sorted[of rs]
    have "normal_ranges (foldl merge_step [l] ls) \<and> codes (foldl merge_step [l] ls) = codes (l # ls)"
      unfolding Cons by simp
    moreover have "codes (l # ls) = codes rs" unfolding Cons[symmetric] by (rule codes_set) simp
    moreover have "rs \<noteq> []" using Cons by auto
    ultimately show ?thesis using Cons by (simp add: mergeRanges_def merge_step_def)
  qed
  then show "normal_ranges (mergeRanges rs)" and "codes (mergeRanges rs) = codes rs" by simp_all
qed

lemma foldl_merge_id: "normal_ranges (m @ rs) \<Longrightarrow> foldl merge_step m rs = m @ rs"
proof (induction rs arbitrary: m)
  case (Cons r rs)
  have "merge_step m r = m @ [r]"
    using Cons.prems last_in_set[of m] by (auto simp: merge_step_def normal_append)
  with Cons show ?case by simp
qed simp

lemma normal_sorted:
  assumes "normal_ranges rs"
  shows "sorted_wrt (\<lambda>a b. range_order a b \<le> 0) rs"
proof -
  have "sorted_wrt (\<lambda>a b. cr_end a + 1 < cr_start b) rs" "\<And>r. r \<in> set rs \<Longrightarrow> good_range r"
    using assms by (auto simp: normal_ranges_def list_all_iff)
  then show ?thesis by (induction rs) (force simp: range_order_def good_range_def)+
qed

lemma merge_id: "normal_ranges rs \<Longrightarrow> mergeRanges rs = rs"
  using foldl_merge_id[of "[]" rs] by (simp add: mergeRanges_def range_order.sort_by_id normal_sorted)

text \<open>A set of codes has one normal form.\<close>

lemma normal_Cons:
  "normal_ranges (r # rs) \<longleftrightarrow> good_range r \<and> normal_ranges rs \<and> (\<forall>c \<in> codes rs. cr_end r + 1 < c)"
proof -
  have "(\<forall>x \<in> set rs. cr_end r + 1 < cr_start x) \<longleftrightarrow> (\<forall>c \<in> codes rs. cr_end r + 1 < c)"
    if "list_all good_range rs"
    using that by (fastforce simp: codes_def list_all_iff good_range_def)
  then show ?thesis by (auto simp: normal_ranges_def)
qed

lemma normal_head:
  assumes "normal_ranges (r # rs)"
  shows "cr_start r \<in> codes (r # rs)" and "c \<in> codes (r # rs) \<Longrightarrow> cr_start r \<le> c"
    and "cr_end r + 1 \<notin> codes (r # rs)" and "codes rs = codes (r # rs) - {..cr_end r}"
    and "cr_start r \<le> c \<Longrightarrow> c \<le> cr_end r \<Longrightarrow> c \<in> codes (r # rs)"
  using assms by (fastforce simp: normal_Cons good_range_def)+

lemma normal_unique:
  "normal_ranges rs \<Longrightarrow> normal_ranges ss \<Longrightarrow> codes rs = codes ss \<Longrightarrow> rs = ss"
proof (induction rs arbitrary: ss)
  case Nil
  then show ?case by (cases ss) (auto simp: normal_Cons good_range_def)
next
  case (Cons r rs)
  then obtain s ss' where ss: "ss = s # ss'"
    by (cases ss) (auto simp: normal_Cons good_range_def)
  note r = normal_head[OF Cons.prems(1)] and s = normal_head[OF Cons.prems(2)[unfolded ss]]
  note eq = Cons.prems(3)[unfolded ss]
  have st: "cr_start r = cr_start s" using r(1,2) s(1,2) eq by (metis order_antisym)
  have le: "cr_start r \<le> cr_end r" "cr_start s \<le> cr_end s"
    using Cons.prems ss by (auto simp: normal_Cons good_range_def)
  have "\<not> cr_end r < cr_end s" using s(5)[of "cr_end r + 1"] r(3) st le unfolding eq by (auto simp del: codes_simps)
  moreover have "\<not> cr_end s < cr_end r" using r(5)[of "cr_end s + 1"] s(3) st le unfolding eq by (auto simp del: codes_simps)
  ultimately have en: "cr_end r = cr_end s" by simp
  have "codes rs = codes ss'" by (simp only: r(4) s(4) en eq)
  then have "rs = ss'" using Cons.IH[of ss'] Cons.prems(1,2) ss by (simp add: normal_Cons)
  moreover have "r = s" using st en by (cases r, cases s) simp
  ultimately show ?case using ss by simp
qed

section \<open>The text of a range\<close>

lemma good_show:
  assumes "good_range r"
  shows "isNumber (show_int (cr_start r))" "isNumber (show_int (cr_end r))"
    "digits_val (show_int (cr_start r)) = cr_start r" "digits_val (show_int (cr_end r)) = cr_end r"
  using assms show_nat_digits[of "cr_start r"] show_nat_digits[of "cr_end r"]
  by (auto simp: good_range_def isNumber_def show_int_def all_digits_def)

lemma number_chars:
  assumes "isNumber s" and "c \<in> set s"
  shows "\<not> is_space c" "\<not> go_space c" "c \<noteq> 32" "c \<noteq> 44" "c \<noteq> 45" "c \<noteq> 65292" "c \<noteq> 43"
  using assms by (auto simp: isNumber_def list_all_iff is_digit_def is_space_def go_space_def)

lemma code_text_chars:
  assumes "good_range r" and "c \<in> set (code_text r)"
  shows "\<not> is_space c \<and> \<not> go_space c \<and> c \<noteq> 32 \<and> c \<noteq> 44 \<and> c \<noteq> 65292"
proof (cases "c = 45")
  case True
  then show ?thesis by (simp add: is_space_def go_space_def)
next
  case False
  then have "c \<in> set (show_int (cr_start r)) \<or> c \<in> set (show_int (cr_end r))"
    using assms(2) by (auto simp: code_text_def js_Cons split: if_splits)
  then show ?thesis using number_chars good_show(1,2)[OF assms(1)] by blast
qed

lemma code_text_not_Nil: "good_range r \<Longrightarrow> code_text r \<noteq> []"
  using good_show(1)[of r] by (auto simp: code_text_def isNumber_def)

lemma trim_no_space: "(\<And>c. c \<in> set s \<Longrightarrow> \<not> is_space c) \<Longrightarrow> trim s = s"
  by (rule trim_id) (cases "s = []", auto)

lemma trim_space_id: "(\<And>c. c \<in> set s \<Longrightarrow> \<not> go_space c) \<Longrightarrow> trim_space s = s"
  using dropWhile_hd[of s go_space] dropWhile_hd[of "rev s" go_space] hd_in_set[of "rev s"]
  by (cases "s = []") (simp_all add: trim_space_def)

lemma filter_no: "(\<And>c. c \<in> set s \<Longrightarrow> P c) \<Longrightarrow> filter P s = s"
  by (rule filter_True) simp

lemma dashed_text:
  assumes "isNumber a" and "isNumber b"
  shows "split_on 45 (a @ 45 # b) = [a, b]" and "str_includes (a @ 45 # b) [45]"
proof -
  have n: "45 \<notin> set a" "45 \<notin> set b" using number_chars(5) assms by blast+
  then show "split_on 45 (a @ 45 # b) = [a, b]" by (simp add: split_on_append_sep split_on_id)
  show "str_includes (a @ 45 # b) [45]" unfolding str_includes_iff by auto
qed

lemma number_no_dash: "isNumber a \<Longrightarrow> \<not> str_includes a [45]"
  using number_chars(5)[of a 45] unfolding str_includes_iff by auto

lemma range_eta: "\<lparr>cr_start = cr_start r, cr_end = cr_end r\<rparr> = r"
  by (cases r) simp

lemma atoi_number:
  assumes "isNumber s" and "digits_val s < 2 ^ 63" and "0 \<le> digits_val s"
  shows "atoi s = Some (digits_val s)"
proof -
  obtain c r where s: "s = c # r" using assms(1) by (cases s) (auto simp: isNumber_def)
  then have "c \<noteq> 45" "c \<noteq> 43" using number_chars(5,7)[OF assms(1), of c] by auto
  with assms s show ?thesis by (simp add: atoi_def isNumber_def Let_def)
qed

lemma code_text_cases:
  assumes "good_range r"
  obtains (one) "cr_end r = cr_start r" "code_text r = show_int (cr_start r)"
  | (two) "cr_start r \<noteq> cr_end r" "code_text r = show_int (cr_start r) @ 45 # show_int (cr_end r)"
  by (cases "cr_start r = cr_end r") (auto simp: code_text_def js_Cons)

lemma parse_code_text:
  assumes "good_range r"
  shows "parseToken (code_text r) = Some r" and "parseHTTPStatusCodeToken (code_text r) = Inr r"
proof -
  note ch = code_text_chars[OF assms] and ne = code_text_not_Nil[OF assms]
  have clean: "filter (\<lambda>c. \<not> is_space c) (trim (code_text r)) = code_text r"
    "filter (\<lambda>c. c \<noteq> 32) (trim_space (code_text r)) = code_text r"
    using ch by (simp_all add: trim_no_space trim_space_id filter_no)
  have dash: "js ''-'' = [45]" by (simp add: js_Cons)
  note num = good_show[OF assms] and b = assms[unfolded good_range_def]
  have at: "atoi (show_int (cr_start r)) = Some (cr_start r)" "atoi (show_int (cr_end r)) = Some (cr_end r)"
    using atoi_number[OF num(1)] atoi_number[OF num(2)] num b by auto
  have nn: "show_int (cr_start r) \<noteq> []" "show_int (cr_end r) \<noteq> []" using num by (auto simp: isNumber_def)
  have "parseToken (code_text r) = Some r \<and> parseHTTPStatusCodeToken (code_text r) = Inr r"
    using assms
  proof (cases rule: code_text_cases)
    case one
    then have "\<lparr>cr_start = cr_start r, cr_end = cr_start r\<rparr> = r" using range_eta[of r] by simp
    with one(2) num at number_no_dash[OF num(1)] b ne show ?thesis
      unfolding parseToken_def parseHTTPStatusCodeToken_def clean Let_def dash
      by (simp add: code_of_number_def is_valid_code_def)
  next
    case two
    with num at dashed_text[OF num(1,2)] b ne nn range_eta[of r] show ?thesis
      unfolding parseToken_def parseHTTPStatusCodeToken_def clean Let_def dash
      by (simp add: code_range_of_def server_range_token_def is_valid_code_def)
  qed
  then show "parseToken (code_text r) = Some r" and "parseHTTPStatusCodeToken (code_text r) = Inr r"
    by simp_all
qed

section \<open>Lists of segments\<close>

lemma parse_segments_eq:
  "parse_segments ss ranges invalid =
     (ranges @ List.map_filter parseToken ss, invalid @ filter (\<lambda>s. parseToken s = None) ss)"
  by (induction ss arbitrary: ranges invalid) (auto simp: List.map_filter_simps split: option.splits)

text \<open>The range a segment names to the server.\<close>

definition named_range :: "jsstr \<Rightarrow> code_range option" where
  "named_range s =
     (if trim_space s = [] then None
      else case parseHTTPStatusCodeToken (trim_space s) of Inl _ \<Rightarrow> None | Inr r \<Rightarrow> Some r)"

lemma server_segments_eq:
  "server_segments ss ranges invalid =
     (ranges @ List.map_filter named_range ss,
      invalid @ filter (\<lambda>s. s \<noteq> [] \<and> \<not> is_ok (parseHTTPStatusCodeToken s)) (map trim_space ss))"
  by (induction ss arbitrary: ranges invalid)
    (auto simp: List.map_filter_simps named_range_def Let_def split: sum.splits)

lemma parseToken_good: "parseToken s = Some r \<Longrightarrow> good_range r"
  by (auto simp: parseToken_def code_range_of_def code_of_number_def is_valid_code_def good_range_def Let_def
      split: if_splits list.splits)

lemma server_token_good: "parseHTTPStatusCodeToken s = Inr r \<Longrightarrow> good_range r"
  by (auto simp: parseHTTPStatusCodeToken_def server_range_token_def good_range_def Let_def
      split: if_splits list.splits option.splits)

lemma named_good: "named_range s = Some r \<Longrightarrow> good_range r"
  using server_token_good by (auto simp: named_range_def split: if_splits sum.splits)

lemma map_filter_good: "(\<And>x y. f x = Some y \<Longrightarrow> P y) \<Longrightarrow> list_all P (List.map_filter f xs)"
  by (induction xs) (auto simp: List.map_filter_simps split: option.splits)

lemma set_join: "set (join sep ps) \<subseteq> set sep \<union> \<Union> (set ` set ps)"
  by (induction sep ps rule: join.induct) auto

lemma joined_chars:
  assumes "list_all good_range rs" and "c \<in> set (join [44] (map code_text rs))"
  shows "\<not> is_space c \<and> \<not> go_space c \<and> c \<noteq> 65292"
proof (cases "c = 44")
  case True
  then show ?thesis by (simp add: is_space_def go_space_def)
next
  case False
  then obtain r where "r \<in> set rs" "c \<in> set (code_text r)"
    using set_join[of "[44]" "map code_text rs"] assms(2) by auto
  then show ?thesis using code_text_chars[of r c] assms(1) by (auto simp: list_all_iff)
qed

lemma joined_text:
  assumes "list_all good_range rs" and "rs \<noteq> []"
  shows "map (\<lambda>c. if c = 65292 then 44 else c) (join [44] (map code_text rs)) = join [44] (map code_text rs)"
    and "trim (join [44] (map code_text rs)) = join [44] (map code_text rs)"
    and "trim_space (join [44] (map code_text rs)) = join [44] (map code_text rs)"
    and "split_on 44 (join [44] (map code_text rs)) = map code_text rs"
    and "join [44] (map code_text rs) \<noteq> []"
proof -
  note ch = joined_chars[OF assms(1)]
  show "map (\<lambda>c. if c = 65292 then 44 else c) (join [44] (map code_text rs)) = join [44] (map code_text rs)"
    by (rule map_idI) (use ch in auto)
  show "trim (join [44] (map code_text rs)) = join [44] (map code_text rs)"
    "trim_space (join [44] (map code_text rs)) = join [44] (map code_text rs)"
    using ch by (simp_all add: trim_no_space trim_space_id)
  show sp: "split_on 44 (join [44] (map code_text rs)) = map code_text rs"
    using assms code_text_chars by (intro split_on_join) (auto simp: list_all_iff)
  show "join [44] (map code_text rs) \<noteq> []"
  proof
    assume "join [44] (map code_text rs) = []"
    with sp have "map code_text rs = [[]]" by simp
    then show False using assms code_text_not_Nil by (cases rs) auto
  qed
qed

lemma code_text_trim:
  assumes "good_range r"
  shows "trim (code_text r) = code_text r" "trim_space (code_text r) = code_text r"
  using code_text_chars[OF assms] by (simp_all add: trim_no_space trim_space_id)

lemma texts_read:
  assumes "list_all good_range rs"
  shows "List.map_filter parseToken (map code_text rs) = rs"
    and "List.map_filter named_range (map code_text rs) = rs"
    and "map trim (map code_text rs) = map code_text rs" and "map trim_space (map code_text rs) = map code_text rs"
    and "filter (\<lambda>s. s \<noteq> []) (map code_text rs) = map code_text rs"
    and "filter (\<lambda>s. parseToken s = None) (map code_text rs) = []"
    and "filter (\<lambda>s. s \<noteq> [] \<and> \<not> is_ok (parseHTTPStatusCodeToken s)) (map code_text rs) = []"
  using assms
  by (induction rs)
    (simp_all add: List.map_filter_simps named_range_def parse_code_text code_text_not_Nil
      code_text_trim)

section \<open>Agreement of console and server\<close>

text \<open>The server's merge step is the console's.\<close>

lemma server_merge_step_eq: "m \<noteq> [] \<Longrightarrow> server_merge_step m r = merge_step m r"
  by (cases m rule: rev_cases) (auto simp: server_merge_step_def merge_step_def max_def)

lemma merge_step_not_Nil: "merge_step m r \<noteq> []"
  by (simp add: merge_step_def)

lemma foldl_server_merge: "m \<noteq> [] \<Longrightarrow> foldl server_merge_step m rs = foldl merge_step m rs"
  by (induction rs arbitrary: m) (simp_all add: server_merge_step_eq merge_step_not_Nil)

lemma server_merge: "(case sort_by range_order rs of [] \<Rightarrow> Inr [] | r # rs' \<Rightarrow> Inr (foldl server_merge_step [r] rs')) =
    Inr (mergeRanges rs)"
proof (cases "sort_by range_order rs")
  case Nil
  then have "rs = []" using length_sort_by[of range_order rs] by simp
  then show ?thesis by (simp add: mergeRanges_def)
next
  case (Cons r rs')
  then have "rs \<noteq> []" by auto
  with Cons show ?thesis by (simp add: mergeRanges_def foldl_server_merge) (simp add: merge_step_def)
qed

lemma console_ok:
  assumes "pr_ok (parseHttpStatusCodeRules v)"
  shows "normal_ranges (pr_ranges (parseHttpStatusCodeRules v))"
    and "parseHttpStatusCodeRules v = \<lparr>pr_ok = True, pr_ranges = pr_ranges (parseHttpStatusCodeRules v),
      pr_tokens = map code_text (pr_ranges (parseHttpStatusCodeRules v)),
      pr_normalized = join [44] (map code_text (pr_ranges (parseHttpStatusCodeRules v))), pr_invalidTokens = []\<rparr>"
  using assms merge_normal(1)[OF map_filter_good[of parseToken good_range], OF parseToken_good]
  by (auto simp: parseHttpStatusCodeRules_def parse_segments_eq normal_ranges_def js_Cons Let_def split: if_splits)

lemma console_reads:
  assumes "normal_ranges rs"
  shows "parseHttpStatusCodeRules (VStr (join [44] (map code_text rs))) =
    \<lparr>pr_ok = True, pr_ranges = rs, pr_tokens = map code_text rs,
     pr_normalized = join [44] (map code_text rs), pr_invalidTokens = []\<rparr>"
proof (cases "rs = []")
  case True
  then show ?thesis by (simp add: parseHttpStatusCodeRules_def is_nullish_def)
next
  case False
  have g: "list_all good_range rs" using assms by (simp add: normal_ranges_def)
  have "rule_segments (join [44] (map code_text rs)) = map code_text rs"
    by (simp only: rule_segments_def joined_text[OF g False] texts_read[OF g])
  then show ?thesis
    using joined_text[OF g False] texts_read[OF g] merge_id[OF assms]
    by (simp add: parseHttpStatusCodeRules_def is_nullish_def parse_segments_eq js_Cons Let_def)
qed

lemma server_reads:
  assumes "normal_ranges rs"
  shows "ParseHTTPStatusCodeRanges (join [44] (map code_text rs)) = Inr rs"
proof (cases "rs = []")
  case True
  then show ?thesis by (simp add: ParseHTTPStatusCodeRanges_def trim_space_def)
next
  case False
  have g: "list_all good_range rs" using assms by (simp add: normal_ranges_def)
  show ?thesis
    using joined_text[OF g False] texts_read[OF g] merge_id[OF assms]
    by (simp add: ParseHTTPStatusCodeRanges_def server_segments_eq server_merge Let_def del: map_map)
qed

lemma match_codes: "normal_ranges rs \<Longrightarrow> match_ranges rs c \<longleftrightarrow> c \<in> codes rs"
  by (induction rs) (auto simp: normal_Cons good_range_def)

lemma codes_bounds: "list_all good_range rs \<Longrightarrow> c \<in> codes rs \<Longrightarrow> 100 \<le> c \<and> c \<le> 599"
  by (auto simp: codes_def list_all_iff good_range_def)

lemma should_match: "normal_ranges rs \<Longrightarrow> shouldMatchStatusCodeRanges rs c \<longleftrightarrow> c \<in> codes rs"
  using codes_bounds[of rs c] match_codes[of rs c] by (auto simp: shouldMatchStatusCodeRanges_def normal_ranges_def)

section \<open>Properties\<close>

text \<open>The codes the segments of an input of the console name.\<close>

definition console_codes :: "jsval \<Rightarrow> int set" where
  "console_codes v =
     {c. \<exists>s \<in> set (rule_segments (trim (if is_nullish v then [] else to_string v))).
           \<exists>r. parseToken s = Some r \<and> cr_start r \<le> c \<and> c \<le> cr_end r}"

lemma codes_map_filter:
  "codes (List.map_filter f ss) = {c. \<exists>s \<in> set ss. \<exists>r. f s = Some r \<and> cr_start r \<le> c \<and> c \<le> cr_end r}"
  by (induction ss) (auto simp: List.map_filter_simps split: option.splits)

lemma console_codes_ranges:
  assumes "pr_ok (parseHttpStatusCodeRules v)"
  shows "codes (pr_ranges (parseHttpStatusCodeRules v)) = console_codes v"
proof -
  let ?raw = "trim (if is_nullish v then [] else to_string v)"
  let ?rs = "List.map_filter parseToken (rule_segments ?raw)"
  have "codes (mergeRanges ?rs) = codes ?rs"
    by (rule merge_normal(2)) (rule map_filter_good, rule parseToken_good)
  then have "codes (mergeRanges ?rs) = console_codes v"
    unfolding codes_map_filter console_codes_def .
  moreover have "pr_ranges (parseHttpStatusCodeRules v) = mergeRanges ?rs"
    using assms unfolding parseHttpStatusCodeRules_def parse_segments_eq Let_def
    by (auto simp: rule_segments_def List.map_filter_simps mergeRanges_def split: if_splits)
  ultimately show ?thesis by simp
qed

text \<open>
  C16. The status code rules the console accepts mean the same on both sides. The normalised text
  the console saves is a fixed point of its own parser, the server reads that text as the very
  ranges the console computed, and the server prints these ranges as the same text.
\<close>

theorem status_rules_agree:
  assumes "parseHttpStatusCodeRules v = p" and "pr_ok p"
  shows "parseHttpStatusCodeRules (VStr (pr_normalized p)) = p \<and>
    ParseHTTPStatusCodeRanges (pr_normalized p) = Inr (pr_ranges p) \<and>
    statusCodeRangesToString (pr_ranges p) = pr_normalized p"
proof -
  have n: "normal_ranges (pr_ranges p)" and p: "p = \<lparr>pr_ok = True, pr_ranges = pr_ranges p,
      pr_tokens = map code_text (pr_ranges p), pr_normalized = join [44] (map code_text (pr_ranges p)), pr_invalidTokens = []\<rparr>"
    using console_ok[of v] assms by simp_all
  have t: "pr_normalized p = join [44] (map code_text (pr_ranges p))" by (subst p) simp
  have "parseHttpStatusCodeRules (VStr (pr_normalized p)) = p"
    unfolding t console_reads[OF n] by (rule p[symmetric])
  moreover have "ParseHTTPStatusCodeRanges (pr_normalized p) = Inr (pr_ranges p)"
    unfolding t by (rule server_reads[OF n])
  moreover have "statusCodeRangesToString (pr_ranges p) = pr_normalized p"
    unfolding t by (simp add: statusCodeRangesToString_def js_Cons)
  ultimately show ?thesis by blast
qed

definition demo_rules_input :: jsval where
  "demo_rules_input = VStr (js '' 500-505, 504,401 ,403,402'')"

theorem status_rules_agree_witness:
  "pr_normalized (parseHttpStatusCodeRules demo_rules_input) = js ''401-403,500-505'' \<and>
   parseHttpStatusCodeRules (VStr (js ''401-403,500-505'')) = parseHttpStatusCodeRules demo_rules_input"
proof -
  have p: "pr_ok (parseHttpStatusCodeRules demo_rules_input)"
    "pr_normalized (parseHttpStatusCodeRules demo_rules_input) = js ''401-403,500-505''"
    by code_simp+
  show ?thesis using status_rules_agree[OF refl p(1)] p(2) by simp
qed

text \<open>
  C18. The normalised text is a canonical form: two inputs the console accepts are saved as the
  same text exactly when their segments name the same set of codes, however the ranges are
  ordered, repeated, split or overlapping.
\<close>

theorem status_text_canonical:
  assumes "pr_ok (parseHttpStatusCodeRules v)" and "pr_ok (parseHttpStatusCodeRules w)"
  shows "pr_normalized (parseHttpStatusCodeRules v) = pr_normalized (parseHttpStatusCodeRules w) \<longleftrightarrow>
    console_codes v = console_codes w"
proof -
  note v = console_ok[OF assms(1)] and w = console_ok[OF assms(2)]
  let ?v = "pr_ranges (parseHttpStatusCodeRules v)" and ?w = "pr_ranges (parseHttpStatusCodeRules w)"
  have t: "pr_normalized (parseHttpStatusCodeRules v) = join [44] (map code_text ?v)"
    "pr_normalized (parseHttpStatusCodeRules w) = join [44] (map code_text ?w)"
    by (subst v(2), simp, subst w(2), simp)
  have "?v = ?w \<longleftrightarrow> codes ?v = codes ?w" using normal_unique[OF v(1) w(1)] by (metis (full_types))
  moreover have "join [44] (map code_text ?v) = join [44] (map code_text ?w) \<longleftrightarrow> ?v = ?w"
    using server_reads[OF v(1)] server_reads[OF w(1)] by (metis sum.inject(2))
  ultimately show ?thesis unfolding t console_codes_ranges[OF assms(1)] console_codes_ranges[OF assms(2)] by simp
qed

theorem status_text_canonical_witness:
  "console_codes demo_rules_input = console_codes (VStr (js ''402-403,401,500-503,503-505''))"
proof -
  have p: "pr_ok (parseHttpStatusCodeRules demo_rules_input)"
    "pr_ok (parseHttpStatusCodeRules (VStr (js ''402-403,401,500-503,503-505'')))"
    "pr_normalized (parseHttpStatusCodeRules demo_rules_input) =
      pr_normalized (parseHttpStatusCodeRules (VStr (js ''402-403,401,500-503,503-505'')))"
    by code_simp+
  show ?thesis using status_text_canonical[OF p(1,2)] p(3) by simp
qed

text \<open>
  C17. What the server retries: once a rule text is stored, a response code is retried exactly when
  some segment of the text names it and it is not 504 or 524. The matcher stops at the first range
  above the code, which is sound because the stored list is in normal form.
\<close>

theorem retry_decision:
  assumes "AutomaticRetryStatusCodesFromString s st = Inr st'"
  shows "ShouldRetryByStatusCode st' c \<longleftrightarrow>
    c \<noteq> 504 \<and> c \<noteq> 524 \<and>
    (\<exists>seg r. seg \<in> set (split_on 44 (map (\<lambda>c. if c = 65292 then 44 else c) (trim_space s))) \<and>
       named_range seg = Some r \<and> cr_start r \<le> c \<and> c \<le> cr_end r)"
proof -
  let ?rs = "List.map_filter named_range (split_on 44 (map (\<lambda>c. if c = 65292 then 44 else c) (trim_space s)))"
  have g: "list_all good_range ?rs" by (rule map_filter_good) (rule named_good)
  have "AutomaticRetryStatusCodeRanges st' = mergeRanges ?rs"
  proof (cases "trim_space s = []")
    case True
    have "trim_space [] = []" by (simp add: trim_space_def)
    then have "?rs = []" unfolding True by (simp add: List.map_filter_simps named_range_def)
    with True assms show ?thesis
      by (auto simp: AutomaticRetryStatusCodesFromString_def ParseHTTPStatusCodeRanges_def mergeRanges_def)
  next
    case False
    with assms show ?thesis
      by (auto simp: AutomaticRetryStatusCodesFromString_def ParseHTTPStatusCodeRanges_def rsimps
          server_segments_eq server_merge Let_def split: if_splits)
  qed
  then have "ShouldRetryByStatusCode st' c \<longleftrightarrow> c \<notin> set alwaysSkipRetryStatusCodes \<and> c \<in> codes ?rs"
    using should_match[OF merge_normal(1)[OF g]] merge_normal(2)[OF g]
    by (simp add: ShouldRetryByStatusCode_def IsAlwaysSkipRetryStatusCode_def)
  then show ?thesis unfolding codes_map_filter by (auto simp: alwaysSkipRetryStatusCodes_def)
qed

definition demo_settings :: code_settings where
  "demo_settings = default_code_settings
     \<lparr>AutomaticRetryStatusCodeRanges := [\<lparr>cr_start = 429, cr_end = 429\<rparr>, \<lparr>cr_start = 500, cr_end = 599\<rparr>]\<rparr>"

theorem retry_decision_witness:
  "(\<exists>seg r. seg \<in> set (split_on 44 (map (\<lambda>c. if c = 65292 then 44 else c) (trim_space (js ''500-599, 429'')))) \<and>
     named_range seg = Some r \<and> cr_start r \<le> 503 \<and> 503 \<le> cr_end r) \<and>
   ShouldRetryByStatusCode demo_settings 503 \<and> \<not> ShouldRetryByStatusCode demo_settings 504"
proof -
  have st: "AutomaticRetryStatusCodesFromString (js ''500-599, 429'') default_code_settings = Inr demo_settings"
    by code_simp
  have "ShouldRetryByStatusCode demo_settings 503" by code_simp
  with retry_decision[OF st, of 503] retry_decision[OF st, of 504] show ?thesis by simp
qed

end
