(* ===== verification/ChannelRules.thy ===== *)
theory ChannelRules
  imports StatusFacts
begin

text \<open>
  Checks on the settings of a channel: the guard against redirecting status codes that must not be
  retried (\<open>web/src/features/channels/lib/status-code-risk-guard.ts\<close>) and the checks on the model
  list and the model mapping (\<open>web/src/features/channels/lib/model-mapping-validation.ts\<close>).
\<close>

section \<open>Objects and sets of the language\<close>

text \<open>\<open>Array.from(new Set(xs))\<close>: the first occurrence of every element, in order.\<close>

definition unique :: "'a list \<Rightarrow> 'a list" where
  "unique xs = foldl (\<lambda>s x. set_add x s) [] xs"

text \<open>
  The order of the entries of an object: keys that are array indices come first, in ascending
  order, then the others as they were inserted.
\<close>

definition is_index_key :: "jsstr \<Rightarrow> bool" where
  "is_index_key k \<longleftrightarrow> k \<noteq> [] \<and> list_all is_digit k \<and> (k = [48] \<or> hd k \<noteq> 48) \<and> digits_val k < 4294967295"

definition object_entries :: "(jsstr \<times> jsval) list \<Rightarrow> (jsstr \<times> jsval) list" where
  "object_entries ms =
     sort_by (\<lambda>a b. digits_val (fst a) - digits_val (fst b)) (filter (\<lambda>e. is_index_key (fst e)) ms) @
     filter (\<lambda>e. \<not> is_index_key (fst e)) ms"

text \<open>\<open>JSON.parse\<close> inside \<open>try\<close> and the test for an object that is neither null nor an array.\<close>

definition parsed_object :: "jsstr \<Rightarrow> (jsstr \<times> jsval) list option" where
  "parsed_object s = (case json_parse s of Some (VObj ms) \<Rightarrow> Some ms | _ \<Rightarrow> None)"

section \<open>Status code redirects\<close>

definition NON_REDIRECTABLE_STATUS_CODES :: "int list" where
  "NON_REDIRECTABLE_STATUS_CODES = [504, 524]"

text \<open>The pattern \<open>/^[1-5]\d{2}$/\<close>.\<close>

definition is_code_text :: "jsstr \<Rightarrow> bool" where
  "is_code_text s = (case s of [a, b, c] \<Rightarrow> 49 \<le> a \<and> a \<le> 53 \<and> is_digit b \<and> is_digit c | _ \<Rightarrow> False)"

definition parseStatusCodeKey :: "jsstr \<Rightarrow> int option" where
  "parseStatusCodeKey rawKey =
     (let normalized = trim rawKey in if \<not> is_code_text normalized then None else Some (digits_val normalized))"

text \<open>An integer code in the range is returned as that integer.\<close>

definition parseStatusCodeMappingTarget :: "jsval \<Rightarrow> int option" where
  "parseStatusCodeMappingTarget rawValue =
     (case rawValue of
        VNum x \<Rightarrow>
          if is_integer x \<and> num_le (Fin 100) x \<and> num_le x (Fin 599) then Some \<lfloor>num_val x\<rfloor> else None
      | VStr s \<Rightarrow>
          (let normalized = trim s; c = digits_val normalized in
           if \<not> is_code_text normalized then None
           else if 100 \<le> c \<and> c \<le> 599 then Some c else None)
      | _ \<Rightarrow> None)"

text \<open>The arrow of an invalid entry is the character 8594.\<close>

definition collectInvalidStatusCodeEntries :: "jsstr \<Rightarrow> jsstr list" where
  "collectInvalidStatusCodeEntries s =
     (if trim s = [] then []
      else case parsed_object s of
        None \<Rightarrow> []
      | Some ms \<Rightarrow>
          map (\<lambda>(k, v). k @ [32, 8594, 32] @ to_string v)
            (filter (\<lambda>(k, v). parseStatusCodeKey k = None \<or> parseStatusCodeMappingTarget v = None) (object_entries ms)))"

definition redirect_text :: "int \<Rightarrow> int \<Rightarrow> jsstr" where
  "redirect_text fromCode toCode = show_int fromCode @ js '' -> '' @ show_int toCode"

definition risky_mapping :: "jsstr \<times> jsval \<Rightarrow> jsstr option" where
  "risky_mapping e =
     (case (parseStatusCodeKey (fst e), parseStatusCodeMappingTarget (snd e)) of
        (Some fromCode, Some toCode) \<Rightarrow>
          if fromCode \<notin> set NON_REDIRECTABLE_STATUS_CODES then None
          else if fromCode = toCode then None
          else Some (redirect_text fromCode toCode)
      | _ \<Rightarrow> None)"

definition collectDisallowedStatusCodeRedirects :: "jsstr \<Rightarrow> jsstr list" where
  "collectDisallowedStatusCodeRedirects s =
     (if trim s = [] then []
      else case parsed_object s of
        None \<Rightarrow> []
      | Some ms \<Rightarrow> sort_by str_cmp (unique (List.map_filter risky_mapping (object_entries ms))))"

definition collectNewDisallowedStatusCodeRedirects :: "jsstr \<Rightarrow> jsstr \<Rightarrow> jsstr list" where
  "collectNewDisallowedStatusCodeRedirects original current =
     (let currentRisky = collectDisallowedStatusCodeRedirects current in
      if currentRisky = [] then []
      else filter (\<lambda>mapping. mapping \<notin> set (collectDisallowedStatusCodeRedirects original)) currentRisky)"

section \<open>Models and their mapping\<close>

definition parseModelsString :: "jsstr \<Rightarrow> jsstr list" where
  "parseModelsString s = (if s = [] then [] else filter (\<lambda>m. m \<noteq> []) (map trim (split_on 44 s)))"

definition formatModelsArray :: "jsstr list \<Rightarrow> jsstr" where
  "formatModelsArray models = join (js '','') (unique models)"

definition normalizeModelName :: "jsstr \<Rightarrow> jsstr" where
  "normalizeModelName model = trim model"

definition extractMappingSourceModels :: "jsstr \<Rightarrow> jsstr list" where
  "extractMappingSourceModels modelMapping =
     (let trimmed = trim modelMapping in
      if trimmed = [] then []
      else case parsed_object trimmed of
        None \<Rightarrow> []
      | Some ms \<Rightarrow> unique (filter (\<lambda>k. k \<noteq> []) (map (\<lambda>e. trim (fst e)) (object_entries ms))))"

definition extractRedirectModels :: "jsstr \<Rightarrow> jsstr list" where
  "extractRedirectModels modelMapping =
     (let trimmed = trim modelMapping in
      if trimmed = [] then []
      else case parsed_object trimmed of
        None \<Rightarrow> []
      | Some ms \<Rightarrow>
          unique (List.map_filter
            (\<lambda>e. case snd e of VStr v \<Rightarrow> if trim v = [] then None else Some (trim v) | _ \<Rightarrow> None)
            (object_entries ms)))"

definition hasModelConfigChanged :: "jsstr list \<Rightarrow> jsstr \<Rightarrow> jsstr list \<Rightarrow> jsstr \<Rightarrow> bool" where
  "hasModelConfigChanged currentModels currentModelMapping initialModels initialModelMapping =
     (if initialModels = [] \<and> initialModelMapping = [] then True
      else if slen currentModels \<noteq> slen initialModels then True
      else if \<not> list_all2 (=) currentModels initialModels then True
      else trim currentModelMapping \<noteq> trim initialModelMapping)"

definition findMissingModelsInMapping :: "jsstr \<Rightarrow> jsstr list \<Rightarrow> jsstr list" where
  "findMissingModelsInMapping modelMapping currentModels =
     (if trim modelMapping = [] then []
      else case parsed_object modelMapping of
        None \<Rightarrow> []
      | Some ms \<Rightarrow>
          unique (filter (\<lambda>k. k \<noteq> [] \<and> k \<notin> set (map normalizeModelName currentModels))
            (map (\<lambda>e. normalizeModelName (fst e)) (object_entries ms))))"

datatype mapping_check = MappingValid | MappingNotObject | MappingNotStrings | MappingNotJson

definition validateModelMappingJson :: "jsstr \<Rightarrow> mapping_check" where
  "validateModelMappingJson modelMapping =
     (if trim modelMapping = [] then MappingValid
      else case json_parse modelMapping of
        None \<Rightarrow> MappingNotJson
      | Some (VObj ms) \<Rightarrow>
          if \<not> list_all (\<lambda>e. case snd e of VStr _ \<Rightarrow> True | _ \<Rightarrow> False) (object_entries ms)
          then MappingNotStrings else MappingValid
      | Some _ \<Rightarrow> MappingNotObject)"

definition findExposedTargetModels :: "jsstr \<Rightarrow> jsstr list \<Rightarrow> jsstr list" where
  "findExposedTargetModels modelMapping currentModels =
     (let redirectModels = extractRedirectModels modelMapping in
      if redirectModels = [] then []
      else filter (\<lambda>m. normalizeModelName m \<in> set (map normalizeModelName currentModels)) redirectModels)"

record model_categories =
  mc_normalizedCurrentModels :: "jsstr list"
  mc_normalizedRedirectModels :: "jsstr list"
  mc_classificationSet :: "jsstr list"
  mc_redirectOnlySet :: "jsstr list"

definition categorizeModelsWithRedirect :: "jsstr list \<Rightarrow> jsstr list \<Rightarrow> model_categories" where
  "categorizeModelsWithRedirect currentModels redirectModels =
     (let current = unique (filter (\<lambda>m. m \<noteq> []) (map normalizeModelName currentModels));
          redirect = unique (filter (\<lambda>m. m \<noteq> []) (map normalizeModelName redirectModels)) in
      \<lparr>mc_normalizedCurrentModels = current, mc_normalizedRedirectModels = redirect,
       mc_classificationSet = unique (current @ redirect),
       mc_redirectOnlySet = unique (filter (\<lambda>m. m \<notin> set current) redirect)\<rparr>)"

section \<open>Facts\<close>

lemma unique_snoc: "unique (xs @ [x]) = set_add x (unique xs)"
  by (simp add: unique_def)

lemma set_unique [simp]: "set (unique xs) = set xs"
  by (induction xs rule: rev_induct) (auto simp: unique_snoc unique_def)

lemma distinct_unique [simp]: "distinct (unique xs)"
  by (induction xs rule: rev_induct) (auto simp: unique_snoc set_add_def, simp add: unique_def)

lemma unique_id: "distinct xs \<Longrightarrow> unique xs = xs"
  by (induction xs rule: rev_induct) (auto simp: unique_snoc set_add_def, simp add: unique_def)

lemma unique_Nil_iff [simp]: "unique xs = [] \<longleftrightarrow> xs = []"
  using set_unique[of xs] by (metis set_empty2)

lemma set_object_entries [simp]: "set (object_entries ms) = set ms"
  by (auto simp: object_entries_def)

lemma set_map_filter: "set (List.map_filter f xs) = {y. \<exists>x \<in> set xs. f x = Some y}"
  by (induction xs) (auto simp: List.map_filter_simps split: option.splits)

lemma code_text_value: "is_code_text s \<Longrightarrow> 100 \<le> digits_val s \<and> digits_val s \<le> 599"
  by (auto simp: is_code_text_def is_digit_def digits_val_def split: list.splits)

lemma key_bounds: "parseStatusCodeKey k = Some f \<Longrightarrow> 0 \<le> f"
  using code_text_value[of "trim k"] by (auto simp: parseStatusCodeKey_def Let_def split: if_splits)

lemma target_bounds: "parseStatusCodeMappingTarget v = Some t \<Longrightarrow> 0 \<le> t"
  by (auto simp: parseStatusCodeMappingTarget_def Let_def num_le_def num_lt_def num_eq_def
      split: jsval.splits if_splits jsnum.splits)

lemma show_int_number: "0 \<le> n \<Longrightarrow> isNumber (show_int n) \<and> digits_val (show_int n) = n"
  using show_nat_digits[of n] by (simp add: isNumber_def show_int_def all_digits_def)

lemma redirect_text_inj:
  assumes "0 \<le> f" "0 \<le> t" "0 \<le> f'" "0 \<le> t'"
  shows "redirect_text f t = redirect_text f' t' \<longleftrightarrow> f = f' \<and> t = t'"
proof
  assume eq: "redirect_text f t = redirect_text f' t'"
  have n: "32 \<notin> set (show_int f)" "32 \<notin> set (show_int f')"
    using number_chars(3) show_int_number assms by blast+
  from eq have "show_int f @ 32 # [45, 62, 32] @ show_int t = show_int f' @ 32 # [45, 62, 32] @ show_int t'"
    by (simp add: redirect_text_def js_Cons)
  from append_sep_inj[OF this n] have "show_int f = show_int f'" "show_int t = show_int t'" by simp_all
  then show "f = f' \<and> t = t'" using show_int_number assms by metis
qed simp

text \<open>
  C19. The guard lists exactly the dangerous redirects. For a mapping that is a JSON object, the
  redirect of one code to another is listed exactly when some entry maps them, the two codes
  differ and the first is one the server never retries; the list has no repetition, and saving is
  stopped exactly by listed redirects that the stored mapping did not have already.
\<close>

theorem risky_redirects_listed:
  assumes "json_parse s = Some (VObj ms)" and "trim s \<noteq> []" and "0 \<le> f" and "0 \<le> t"
  shows "(redirect_text f t \<in> set (collectDisallowedStatusCodeRedirects s) \<longleftrightarrow>
      IsAlwaysSkipRetryStatusCode f \<and> f \<noteq> t \<and>
      (\<exists>k v. (k, v) \<in> set ms \<and> parseStatusCodeKey k = Some f \<and> parseStatusCodeMappingTarget v = Some t)) \<and>
    distinct (collectDisallowedStatusCodeRedirects s) \<and>
    set (collectNewDisallowedStatusCodeRedirects original s) =
      set (collectDisallowedStatusCodeRedirects s) - set (collectDisallowedStatusCodeRedirects original)"
proof -
  have c: "collectDisallowedStatusCodeRedirects s = sort_by str_cmp (unique (List.map_filter risky_mapping (object_entries ms)))"
    using assms(1,2) by (simp add: collectDisallowedStatusCodeRedirects_def parsed_object_def)
  have "risky_mapping (k, v) = Some (redirect_text f t) \<longleftrightarrow>
      IsAlwaysSkipRetryStatusCode f \<and> f \<noteq> t \<and> parseStatusCodeKey k = Some f \<and> parseStatusCodeMappingTarget v = Some t" for k v
    using key_bounds[of k] target_bounds[of v] assms(3,4)
    by (auto simp: risky_mapping_def redirect_text_inj IsAlwaysSkipRetryStatusCode_def
        alwaysSkipRetryStatusCodes_def NON_REDIRECTABLE_STATUS_CODES_def split: option.splits)
  then have "redirect_text f t \<in> set (collectDisallowedStatusCodeRedirects s) \<longleftrightarrow>
      IsAlwaysSkipRetryStatusCode f \<and> f \<noteq> t \<and>
      (\<exists>k v. (k, v) \<in> set ms \<and> parseStatusCodeKey k = Some f \<and> parseStatusCodeMappingTarget v = Some t)"
    unfolding c by (auto simp: set_map_filter)
  moreover have "distinct (collectDisallowedStatusCodeRedirects s)"
    unfolding c using distinct_map_sort_by[of id str_cmp] by simp
  moreover have "set (collectNewDisallowedStatusCodeRedirects original s) =
      set (collectDisallowedStatusCodeRedirects s) - set (collectDisallowedStatusCodeRedirects original)"
    by (auto simp: collectNewDisallowedStatusCodeRedirects_def Let_def)
  ultimately show ?thesis by blast
qed

definition demo_mapping :: jsstr where
  "demo_mapping = js ''{'' @ json_quote (js ''504'') @ js '': 200, '' @ json_quote (js ''400'') @ js '': '' @
     json_quote (js ''500'') @ js ''}''"

theorem risky_redirects_listed_witness:
  "redirect_text 504 200 \<in> set (collectDisallowedStatusCodeRedirects demo_mapping) \<and>
   redirect_text 400 500 \<notin> set (collectDisallowedStatusCodeRedirects demo_mapping)"
proof -
  let ?ms = "[(js ''504'', VNum (Fin 200)), (js ''400'', VStr (js ''500''))]"
  have j: "json_parse demo_mapping = Some (VObj ?ms)" "trim demo_mapping \<noteq> []" by code_simp+
  have k: "parseStatusCodeKey (js ''504'') = Some 504" "parseStatusCodeMappingTarget (VNum (Fin 200)) = Some 200"
    "IsAlwaysSkipRetryStatusCode 504" "\<not> IsAlwaysSkipRetryStatusCode 400" by code_simp+
  from risky_redirects_listed[OF j, of 504 200] risky_redirects_listed[OF j, of 400 500] k
  show ?thesis by auto
qed

text \<open>A model name as the editor keeps it: trimmed, not empty and without a comma.\<close>

definition model_name :: "jsstr \<Rightarrow> bool" where
  "model_name m \<longleftrightarrow> m \<noteq> [] \<and> trim m = m \<and> 44 \<notin> set m"

lemma trim_subset: "set (trim s) \<subseteq> set s"
proof -
  obtain a b where "s = a @ trim s @ b" using trim_decomp[of s] by (elim exE conjE)
  then have "set s = set (a @ trim s @ b)" by (rule arg_cong)
  then show ?thesis by auto
qed

lemma parsed_model_names: "list_all model_name (parseModelsString s)"
  using split_on_no_sep[of _ 44 s] trim_subset
  by (auto simp: parseModelsString_def model_name_def list_all_iff)

lemma parse_joined_models:
  assumes "list_all model_name ms"
  shows "parseModelsString (join [44] ms) = ms"
proof (cases "ms = []")
  case False
  have "split_on 44 (join [44] ms) = ms"
    using assms False by (intro split_on_join) (auto simp: list_all_iff model_name_def)
  moreover have "map trim ms = ms" "filter (\<lambda>m. m \<noteq> []) ms = ms"
    using assms by (auto simp: list_all_iff model_name_def intro!: map_idI)
  moreover have "join [44] ms \<noteq> []"
    using assms False calculation(1) by (auto simp: model_name_def)
  ultimately show ?thesis by (simp add: parseModelsString_def)
qed (simp add: parseModelsString_def)

text \<open>
  C20. The model list survives its text form. Reading back the text written for any list of model
  names gives the list without its repetitions, and for every text, reading it, writing it and
  reading it again gives the models that were read first, each once.
\<close>

theorem model_list_round_trip:
  "(list_all model_name ms \<longrightarrow> parseModelsString (formatModelsArray ms) = unique ms) \<and>
   parseModelsString (formatModelsArray (parseModelsString s)) = unique (parseModelsString s)"
proof -
  have rt: "parseModelsString (formatModelsArray xs) = unique xs" if "list_all model_name xs" for xs
    using parse_joined_models[of "unique xs"] that by (simp add: formatModelsArray_def js_Cons list_all_iff)
  from rt[OF parsed_model_names] rt show ?thesis by blast
qed

theorem model_list_round_trip_witness:
  "parseModelsString (js ''gpt-4o,o3'') = [js ''gpt-4o'', js ''o3'']"
proof -
  have m: "list_all model_name [js ''gpt-4o'', js ''o3'', js ''gpt-4o'']"
    "formatModelsArray [js ''gpt-4o'', js ''o3'', js ''gpt-4o''] = js ''gpt-4o,o3''"
    "unique [js ''gpt-4o'', js ''o3'', js ''gpt-4o''] = [js ''gpt-4o'', js ''o3'']" by code_simp+
  from model_list_round_trip[of "[js ''gpt-4o'', js ''o3'', js ''gpt-4o'']"] m show ?thesis by simp
qed

text \<open>
  C21. What the checks on a model mapping guarantee, for a text that is a JSON object without white
  space around it. It is valid exactly when all targets are strings; no model is reported missing
  exactly when every source of the mapping is in the model list; no target is reported as exposed
  exactly when no target is in that list. Names are compared without surrounding white space.
\<close>

theorem mapping_checks_exact:
  assumes "json_parse m = Some (VObj ms)" and "trim m = m" and "m \<noteq> []"
  shows "(validateModelMappingJson m = MappingValid \<longleftrightarrow> (\<forall>k v. (k, v) \<in> set ms \<longrightarrow> (\<exists>x. v = VStr x))) \<and>
    (findMissingModelsInMapping m models = [] \<longleftrightarrow>
      (\<forall>k v. (k, v) \<in> set ms \<longrightarrow> trim k = [] \<or> trim k \<in> trim ` set models)) \<and>
    (findExposedTargetModels m models = [] \<longleftrightarrow>
      (\<forall>k x. (k, VStr x) \<in> set ms \<longrightarrow> trim x = [] \<or> trim x \<notin> trim ` set models))"
proof -
  have p: "parsed_object m = Some ms" using assms(1) by (simp add: parsed_object_def)
  have str: "(case v of VStr _ \<Rightarrow> True | _ \<Rightarrow> False) \<longleftrightarrow> (\<exists>x. v = VStr x)" for v
    by (cases v) auto
  have tgt: "(case v of VStr w \<Rightarrow> if trim w = [] then None else Some (trim w) | _ \<Rightarrow> None) = Some y \<longleftrightarrow>
      (\<exists>x. v = VStr x \<and> trim x \<noteq> [] \<and> y = trim x)" for v y
    by (cases v) auto
  have "validateModelMappingJson m = MappingValid \<longleftrightarrow> (\<forall>k v. (k, v) \<in> set ms \<longrightarrow> (\<exists>x. v = VStr x))"
    using assms unfolding validateModelMappingJson_def str by (auto simp: list_all_iff) blast
  moreover have "findMissingModelsInMapping m models = [] \<longleftrightarrow>
      (\<forall>k v. (k, v) \<in> set ms \<longrightarrow> trim k = [] \<or> trim k \<in> trim ` set models)"
    using assms p by (auto simp: findMissingModelsInMapping_def normalizeModelName_def filter_empty_conv)
  moreover have x: "set (extractRedirectModels m) = {y. \<exists>k x. (k, VStr x) \<in> set ms \<and> trim x \<noteq> [] \<and> y = trim x}"
    using assms p by (auto simp: extractRedirectModels_def set_map_filter tgt Let_def) force+
  have e: "findExposedTargetModels m models = [] \<longleftrightarrow>
      (\<forall>y \<in> set (extractRedirectModels m). trim y \<notin> trim ` set models)"
    by (simp add: findExposedTargetModels_def normalizeModelName_def filter_empty_conv Let_def)
  have "findExposedTargetModels m models = [] \<longleftrightarrow>
      (\<forall>k x. (k, VStr x) \<in> set ms \<longrightarrow> trim x = [] \<or> trim x \<notin> trim ` set models)"
    unfolding e x by (simp only: Ball_def mem_Collect_eq) (metis trim_idem)
  ultimately show ?thesis by blast
qed

theorem mapping_checks_exact_witness:
  "findMissingModelsInMapping demo_mapping [js ''400''] \<noteq> [] \<and>
   findExposedTargetModels demo_mapping [js ''400''] = []"
proof -
  have j: "json_parse demo_mapping = Some (VObj [(js ''504'', VNum (Fin 200)), (js ''400'', VStr (js ''500''))])"
    "trim demo_mapping = demo_mapping" "demo_mapping \<noteq> []"
    "trim (js ''504'') = js ''504''" "trim (js ''400'') = js ''400''" "trim (js ''500'') = js ''500''"
    by code_simp+
  from mapping_checks_exact[OF j(1-3), of "[js ''400'']"] j(4-6) show ?thesis by auto
qed

end
