(* ===== verification/AuthStore.thy ===== *)
theory AuthStore
  imports JsArray
begin

text \<open>
  The authentication state of a page: the store (\<open>web/src/stores/auth-store.ts\<close>), the checks on
  what the server sends (\<open>web/src/lib/auth-session.ts\<close>), the session hint cookie
  (\<open>web/src/lib/session-hint.ts\<close>) and the events between tabs
  (\<open>web/src/lib/auth-session-sync.ts\<close>).
\<close>

section \<open>The store\<close>

text \<open>The fields of a user that the code reads; the optional ones stay as they came.\<close>

record auth_user =
  us_id :: jsnum
  us_username :: jsstr
  us_role :: jsnum
  us_optional :: "(jsstr, jsval) orec"

record login_session =
  ls_sid :: jsstr
  ls_current :: bool
  ls_login_method :: jsstr
  ls_ip :: jsstr
  ls_user_agent :: jsstr
  ls_created_at :: jsnum
  ls_last_active_at :: jsnum
  ls_expires_at :: jsnum

record auth_bundle =
  ab_access_token :: jsstr
  ab_token_type :: jsstr
  ab_access_expires_at :: jsnum
  ab_user :: auth_user
  ab_session :: login_session

datatype bootstrap_state = BootIdle | BootChecking | BootComplete

record pending_verification =
  pv_challenge :: jsval
  pv_redirectTo :: "jsstr option"

record auth_state =
  au_user :: "auth_user option"
  au_accessToken :: "jsstr option"
  au_accessExpiresAt :: "jsnum option"
  au_session :: "login_session option"
  au_pendingLoginVerification :: "pending_verification option"
  au_bootstrapState :: bootstrap_state

definition initial_auth :: auth_state where
  "initial_auth = \<lparr>au_user = None, au_accessToken = None, au_accessExpiresAt = None,
     au_session = None, au_pendingLoginVerification = None, au_bootstrapState = BootIdle\<rparr>"

definition setBundle :: "auth_bundle \<Rightarrow> auth_state \<Rightarrow> auth_state" where
  "setBundle b a = a\<lparr>au_user := Some (ab_user b), au_accessToken := Some (ab_access_token b),
     au_accessExpiresAt := Some (ab_access_expires_at b), au_session := Some (ab_session b),
     au_pendingLoginVerification := None, au_bootstrapState := BootComplete\<rparr>"

text \<open>The test \<open>state.auth.user?.id === user?.id\<close>, which holds of two missing users.\<close>

definition same_user :: "auth_user option \<Rightarrow> auth_user option \<Rightarrow> bool" where
  "same_user u v =
     (case (u, v) of
        (None, None) \<Rightarrow> True
      | (Some x, Some y) \<Rightarrow> num_eq (us_id x) (us_id y)
      | _ \<Rightarrow> False)"

definition setUser :: "auth_user option \<Rightarrow> auth_state \<Rightarrow> auth_state" where
  "setUser u a = a\<lparr>au_user := u,
     au_pendingLoginVerification := (if same_user (au_user a) u then au_pendingLoginVerification a else None)\<rparr>"

definition setPendingLoginVerification :: "pending_verification option \<Rightarrow> auth_state \<Rightarrow> auth_state" where
  "setPendingLoginVerification p a = a\<lparr>au_pendingLoginVerification := p\<rparr>"

definition setBootstrapState :: "bootstrap_state \<Rightarrow> auth_state \<Rightarrow> auth_state" where
  "setBootstrapState b a = a\<lparr>au_bootstrapState := b\<rparr>"

definition reset :: "bootstrap_state \<Rightarrow> auth_state \<Rightarrow> auth_state" where
  "reset b a = a\<lparr>au_user := None, au_accessToken := None, au_accessExpiresAt := None,
     au_session := None, au_pendingLoginVerification := None, au_bootstrapState := b\<rparr>"

text \<open>\<open>useAuthStore.getState().auth.session?.sid\<close>.\<close>

definition current_sid :: "auth_state \<Rightarrow> jsstr option" where
  "current_sid a = map_option ls_sid (au_session a)"

section \<open>Checks on data from the server\<close>

text \<open>
  \<open>value.key\<close> of a value that \<open>isRecord\<close> accepts: an array has none of the keys the code reads.
\<close>

definition field :: "jsval \<Rightarrow> string \<Rightarrow> jsval" where
  "field v k = (case v of VObj ms \<Rightarrow> (case map_of ms (js k) of Some x \<Rightarrow> x | None \<Rightarrow> VUndef) | _ \<Rightarrow> VUndef)"

definition isRecord :: "jsval \<Rightarrow> bool" where
  "isRecord v = (case v of VArr _ \<Rightarrow> True | VObj _ \<Rightarrow> True | _ \<Rightarrow> False)"

definition is_str :: "jsval \<Rightarrow> bool" where
  "is_str v = (case v of VStr _ \<Rightarrow> True | _ \<Rightarrow> False)"

definition is_num :: "jsval \<Rightarrow> bool" where
  "is_num v = (case v of VNum _ \<Rightarrow> True | _ \<Rightarrow> False)"

definition is_bool :: "jsval \<Rightarrow> bool" where
  "is_bool v = (case v of VBool _ \<Rightarrow> True | _ \<Rightarrow> False)"

definition nonempty_str :: "jsval \<Rightarrow> bool" where
  "nonempty_str v = (case v of VStr s \<Rightarrow> s \<noteq> [] | _ \<Rightarrow> False)"

definition isAuthUser :: "jsval \<Rightarrow> bool" where
  "isAuthUser v \<longleftrightarrow> isRecord v \<and>
     (case field v ''id'' of VNum x \<Rightarrow> is_integer x \<and> num_lt (Fin 0) x | _ \<Rightarrow> False) \<and>
     is_str (field v ''username'') \<and> is_num (field v ''role'')"

definition isLoginSession :: "jsval \<Rightarrow> bool" where
  "isLoginSession v \<longleftrightarrow> isRecord v \<and> nonempty_str (field v ''sid'') \<and> is_bool (field v ''current'') \<and>
     is_str (field v ''login_method'') \<and> is_str (field v ''ip'') \<and> is_str (field v ''user_agent'') \<and>
     is_num (field v ''created_at'') \<and> is_num (field v ''last_active_at'') \<and> is_num (field v ''expires_at'')"

definition hasValidTokenFields :: "jsval \<Rightarrow> bool" where
  "hasValidTokenFields v \<longleftrightarrow> nonempty_str (field v ''access_token'') \<and> nonempty_str (field v ''token_type'') \<and>
     (case field v ''access_expires_at'' of VNum x \<Rightarrow> is_finite x \<and> num_lt (Fin 0) x | _ \<Rightarrow> False)"

definition isAuthBundle :: "jsval \<Rightarrow> bool" where
  "isAuthBundle v \<longleftrightarrow> isRecord v \<and> hasValidTokenFields v \<and> isAuthUser (field v ''user'') \<and>
     isLoginSession (field v ''session'')"

definition isAuthTokenRotation :: "jsval \<Rightarrow> bool" where
  "isAuthTokenRotation v \<longleftrightarrow> isRecord v \<and> hasValidTokenFields v \<and>
     field v ''token_type'' = VStr (js ''Bearer'') \<and> isLoginSession (field v ''session'') \<and>
     field (field v ''session'') ''current'' = VBool True"

text \<open>Reading a checked value at its declared type.\<close>

definition str_of :: "jsval \<Rightarrow> jsstr" where
  "str_of v = (case v of VStr s \<Rightarrow> s | _ \<Rightarrow> [])"

definition num_of :: "jsval \<Rightarrow> jsnum" where
  "num_of v = (case v of VNum x \<Rightarrow> x | _ \<Rightarrow> NaN)"

definition user_of :: "jsval \<Rightarrow> auth_user" where
  "user_of v = \<lparr>us_id = num_of (field v ''id''), us_username = str_of (field v ''username''),
     us_role = num_of (field v ''role''),
     us_optional = (case v of VObj ms \<Rightarrow> filter (\<lambda>(k, _). k \<notin> set (map js [''id'', ''username'', ''role''])) ms | _ \<Rightarrow> [])\<rparr>"

definition session_of :: "jsval \<Rightarrow> login_session" where
  "session_of v = \<lparr>ls_sid = str_of (field v ''sid''), ls_current = (field v ''current'' = VBool True),
     ls_login_method = str_of (field v ''login_method''), ls_ip = str_of (field v ''ip''),
     ls_user_agent = str_of (field v ''user_agent''), ls_created_at = num_of (field v ''created_at''),
     ls_last_active_at = num_of (field v ''last_active_at''), ls_expires_at = num_of (field v ''expires_at'')\<rparr>"

definition bundle_of :: "jsval \<Rightarrow> auth_bundle" where
  "bundle_of v = \<lparr>ab_access_token = str_of (field v ''access_token''), ab_token_type = str_of (field v ''token_type''),
     ab_access_expires_at = num_of (field v ''access_expires_at''), ab_user = user_of (field v ''user''),
     ab_session = session_of (field v ''session'')\<rparr>"

text \<open>\<open>(value) => (isAuthBundle(value) ? value : null)\<close>.\<close>

definition parseBundle :: "jsval \<Rightarrow> auth_bundle option" where
  "parseBundle v = (if isAuthBundle v then Some (bundle_of v) else None)"

section \<open>The session hint\<close>

text \<open>\<open>part.indexOf('=')\<close> is negative exactly when the part has no \<open>=\<close>, code unit 61.\<close>

fun read_cookie_parts :: "jsstr list \<Rightarrow> jsstr \<Rightarrow> jsstr option" where
  "read_cookie_parts [] name = None"
| "read_cookie_parts (part # parts) name =
     (if 61 \<notin> set part then read_cookie_parts parts name
      else if trim (takeWhile (\<lambda>c. c \<noteq> 61) part) \<noteq> name then read_cookie_parts parts name
      else Some (trim (tl (dropWhile (\<lambda>c. c \<noteq> 61) part))))"

definition readCookie :: "jsstr \<Rightarrow> jsstr \<Rightarrow> jsstr option" where
  "readCookie cookieHeader name = read_cookie_parts (split_on 59 cookieHeader) name"

definition SESSION_HINT_COOKIE_NAME :: jsstr where
  "SESSION_HINT_COOKIE_NAME = js ''new_api_has_session''"

text \<open>The argument is \<open>document.cookie\<close>, missing where there is no document.\<close>

definition hasSessionHint :: "jsstr option \<Rightarrow> bool" where
  "hasSessionHint doc =
     (case doc of None \<Rightarrow> True | Some cookie \<Rightarrow> readCookie cookie SESSION_HINT_COOKIE_NAME \<noteq> None)"

section \<open>Events between tabs\<close>

datatype sync_kind = SyncAuthenticated | SyncSignedOut

record sync_event =
  ev_kind :: sync_kind
  ev_sid :: jsstr
  ev_source :: jsstr
  ev_nonce :: jsstr
  ev_timestamp :: jsnum

definition kind_text :: "sync_kind \<Rightarrow> jsstr" where
  "kind_text k = (case k of SyncAuthenticated \<Rightarrow> js ''authenticated'' | SyncSignedOut \<Rightarrow> js ''signed_out'')"

definition event_value :: "sync_event \<Rightarrow> jsval" where
  "event_value e = VObj [(js ''kind'', VStr (kind_text (ev_kind e))), (js ''sid'', VStr (ev_sid e)),
     (js ''source'', VStr (ev_source e)), (js ''nonce'', VStr (ev_nonce e)),
     (js ''timestamp'', VNum (ev_timestamp e))]"

definition isAuthSessionSyncEvent :: "jsval \<Rightarrow> bool" where
  "isAuthSessionSyncEvent v \<longleftrightarrow> isRecord v \<and>
     (field v ''kind'' = VStr (js ''authenticated'') \<or> field v ''kind'' = VStr (js ''signed_out'')) \<and>
     nonempty_str (field v ''sid'') \<and> is_str (field v ''source'') \<and> is_str (field v ''nonce'') \<and>
     is_num (field v ''timestamp'')"

definition event_of :: "jsval \<Rightarrow> sync_event" where
  "event_of v = \<lparr>ev_kind = (if field v ''kind'' = VStr (js ''authenticated'') then SyncAuthenticated else SyncSignedOut),
     ev_sid = str_of (field v ''sid''), ev_source = str_of (field v ''source''),
     ev_nonce = str_of (field v ''nonce''), ev_timestamp = num_of (field v ''timestamp'')\<rparr>"

text \<open>
  What a tab is: whether it has a window and a \<open>BroadcastChannel\<close>, and its random source name. A
  message posted on the channel is a copy of the event; a storage message is its JSON text, set
  and at once removed.
\<close>

record tab =
  tab_window :: bool
  tab_channel :: bool
  tab_source :: jsstr

datatype sync_effect = PostMessage jsval | StorageSet jsval | StorageRemove

definition publishAuthSessionEvent ::
  "tab \<Rightarrow> jsstr \<Rightarrow> jsnum \<Rightarrow> sync_kind \<Rightarrow> jsstr \<Rightarrow> sync_effect list" where
  "publishAuthSessionEvent tb nonce now kind sid =
     (if \<not> tab_window tb \<or> sid = [] then []
      else
        let event = event_value \<lparr>ev_kind = kind, ev_sid = sid, ev_source = tab_source tb,
          ev_nonce = nonce, ev_timestamp = now\<rparr> in
        if tab_channel tb then [PostMessage event] else [StorageSet event, StorageRemove])"

text \<open>The event a listener gets from a delivered value, if it gets one.\<close>

definition deliver :: "tab \<Rightarrow> jsnum \<Rightarrow> jsval \<Rightarrow> sync_event option" where
  "deliver tb now v =
     (if isAuthSessionSyncEvent v \<and> ev_source (event_of v) \<noteq> tab_source tb \<and>
         num_lt (num_abs (num_sub now (ev_timestamp (event_of v)))) (Fin 60000)
      then Some (event_of v) else None)"

end
