(* ===== verification/AuthSession.thy ===== *)
theory AuthSession
  imports AuthStore
begin

text \<open>
  The login session of a page (\<open>web/src/lib/auth-session.ts\<close>). An asynchronous function is split
  at its \<open>await\<close>s: what runs between two of them is one function on the state, and a control point
  says what the function waits for. Between two resumptions any other code of the page may run,
  which is the relation \<open>refresh_step\<close>.
\<close>

section \<open>The session of a page\<close>

text \<open>
  The store, the counter \<open>authEpoch\<close> and the calls of \<open>publishAuthSessionEvent\<close> so far.
\<close>

record client =
  cl_auth :: auth_state
  cl_epoch :: int
  cl_published :: "(sync_kind \<times> jsstr) list"

definition initial_client :: client where
  "initial_client = \<lparr>cl_auth = initial_auth, cl_epoch = 0, cl_published = []\<rparr>"

definition update_auth :: "(auth_state \<Rightarrow> auth_state) \<Rightarrow> client \<Rightarrow> client" where
  "update_auth f c = c\<lparr>cl_auth := f (cl_auth c)\<rparr>"

definition publish :: "sync_kind \<Rightarrow> jsstr \<Rightarrow> client \<Rightarrow> client" where
  "publish kind sid c = c\<lparr>cl_published := cl_published c @ [(kind, sid)]\<rparr>"

definition applyAuthBundle :: "auth_bundle \<Rightarrow> bool \<Rightarrow> client \<Rightarrow> client" where
  "applyAuthBundle b synchronizeTabs c =
     (let previousSID = current_sid (cl_auth c);
          c' = update_auth (setBundle b) (c\<lparr>cl_epoch := cl_epoch c + 1\<rparr>) in
      if synchronizeTabs \<and> previousSID \<noteq> Some (ls_sid (ab_session b))
      then publish SyncAuthenticated (ls_sid (ab_session b)) c' else c')"

datatype rotation_error = InvalidRotation | NoActiveSession | RotationMismatch

definition applyAuthRotation :: "jsval \<Rightarrow> client \<Rightarrow> rotation_error + client" where
  "applyAuthRotation v c =
     (if \<not> isAuthTokenRotation v then Inl InvalidRotation
      else case (au_user (cl_auth c), au_session (cl_auth c)) of
        (Some u, Some ses) \<Rightarrow>
          if ls_sid (session_of (field v ''session'')) \<noteq> ls_sid ses then Inl RotationMismatch
          else Inr (applyAuthBundle
            \<lparr>ab_access_token = str_of (field v ''access_token''), ab_token_type = str_of (field v ''token_type''),
             ab_access_expires_at = num_of (field v ''access_expires_at''), ab_user = u,
             ab_session = session_of (field v ''session'')\<rparr> False c)
      | _ \<Rightarrow> Inl NoActiveSession)"

text \<open>\<open>clearAuthentication\<close>; a session always has a sid, and an empty one is not announced.\<close>

definition clearAuthentication :: "bool \<Rightarrow> bootstrap_state \<Rightarrow> client \<Rightarrow> client" where
  "clearAuthentication synchronizeTabs boot c =
     (let c' = update_auth (reset boot) (c\<lparr>cl_epoch := cl_epoch c + 1\<rparr>) in
      case current_sid (cl_auth c) of
        Some sid \<Rightarrow> if synchronizeTabs \<and> sid \<noteq> [] then publish SyncSignedOut sid c' else c'
      | None \<Rightarrow> c')"

section \<open>The refresh runner\<close>

datatype refresh_error = RefreshSuperseded | RefreshFailure jsval

datatype refresh_outcome =
    Authenticated auth_bundle
  | Anonymous
  | TransientError refresh_error
  | OutOfSync "jsstr option"

text \<open>\<open>AuthRefreshHTTPResponse\<close>: status 0 stands for no response.\<close>

record refresh_response =
  rr_status :: int
  rr_data :: jsval
  rr_error :: jsval

text \<open>
  \<open>AuthRefreshRuntime\<close> without its two asynchronous members \<open>request\<close> and \<open>wait\<close>: these are
  the points where the runner is suspended.
\<close>

record 's runtime =
  rt_getExpectedSID :: "'s \<Rightarrow> jsstr option"
  rt_parseBundle :: "jsval \<Rightarrow> auth_bundle option"
  rt_acceptBundle :: "auth_bundle \<Rightarrow> 's \<Rightarrow> 's"
  rt_clear :: "bool \<Rightarrow> bootstrap_state option \<Rightarrow> 's \<Rightarrow> 's"
  rt_markTransient :: "'s \<Rightarrow> 's"
  rt_isCurrent :: "'s \<Rightarrow> bool"

definition refreshRaceDelays :: "int list" where
  "refreshRaceDelays = [80, 200, 500]"

text \<open>
  Where a run of the runner is: awaiting the response to a request with an expected sid, awaiting
  a timer before the next attempt, or finished.
\<close>

datatype run_pc =
    Requesting nat bool "jsstr option"
  | Waiting int nat bool
  | Settled refresh_outcome

definition superseded :: refresh_outcome where
  "superseded = TransientError RefreshSuperseded"

definition run_enter :: "'s runtime \<Rightarrow> nat \<Rightarrow> bool \<Rightarrow> 's \<Rightarrow> run_pc \<times> 's" where
  "run_enter rt raceAttempt allowMismatchRetry s =
     (if \<not> rt_isCurrent rt s then (Settled superseded, s)
      else (Requesting raceAttempt allowMismatchRetry (rt_getExpectedSID rt s), s))"

definition response_code :: "jsval \<Rightarrow> jsstr option" where
  "response_code d = (if isRecord d then (case field d ''code'' of VStr s \<Rightarrow> Some s | _ \<Rightarrow> None) else None)"

definition response_bundle :: "'s runtime \<Rightarrow> jsval \<Rightarrow> auth_bundle option" where
  "response_bundle rt d = rt_parseBundle rt (if isRecord d then field d ''data'' else VUndef)"

definition response_success :: "jsval \<Rightarrow> bool" where
  "response_success d \<longleftrightarrow> isRecord d \<and> field d ''success'' = VBool True"

text \<open>The rest of \<open>run\<close> once the response is there and the run is still current.\<close>

definition run_verdict :: "'s runtime \<Rightarrow> nat \<Rightarrow> bool \<Rightarrow> refresh_response \<Rightarrow> 's \<Rightarrow> run_pc \<times> 's" where
  "run_verdict rt raceAttempt allowMismatchRetry response s =
     (let code = response_code (rr_data response);
          failure = (if is_nullish (rr_error response) then rr_data response else rr_error response) in
      case (if response_success (rr_data response) then response_bundle rt (rr_data response) else None) of
        Some bundle \<Rightarrow> (Settled (Authenticated bundle), rt_acceptBundle rt bundle s)
      | None \<Rightarrow>
          if rr_status response = 409 \<and> code = Some (js ''AUTH_REFRESH_RACE'') then
            (if raceAttempt < length refreshRaceDelays
             then (Waiting (refreshRaceDelays ! raceAttempt) (raceAttempt + 1) allowMismatchRetry, s)
             else (Settled (OutOfSync code), rt_clear rt False None s))
          else if rr_status response = 409 \<and> code = Some (js ''AUTH_SESSION_MISMATCH'') then
            (if allowMismatchRetry then run_enter rt 0 False (rt_clear rt False (Some BootIdle) s)
             else (Settled (OutOfSync code), rt_clear rt False None s))
          else if rr_status response = 401 then (Settled Anonymous, rt_clear rt True None s)
          else if rr_status response = 0 \<or> 500 \<le> rr_status response \<or> rr_status response = 429 then
            (Settled (TransientError (RefreshFailure failure)), rt_markTransient rt s)
          else (Settled (OutOfSync (Some (case code of Some x \<Rightarrow> x | None \<Rightarrow> js ''AUTH_INVALID_REFRESH_RESPONSE''))),
                rt_clear rt False None s))"

definition run_response :: "'s runtime \<Rightarrow> nat \<Rightarrow> bool \<Rightarrow> refresh_response \<Rightarrow> 's \<Rightarrow> run_pc \<times> 's" where
  "run_response rt raceAttempt allowMismatchRetry response s =
     (if \<not> rt_isCurrent rt s then (Settled superseded, s)
      else run_verdict rt raceAttempt allowMismatchRetry response s)"

definition createRefreshRunner :: "'s runtime \<Rightarrow> 's \<Rightarrow> run_pc \<times> 's" where
  "createRefreshRunner rt s = run_enter rt 0 True s"

text \<open>The runtime of \<open>runRefresh\<close>: only the clearing that precedes a retry keeps the epoch.\<close>

definition refresh_runtime :: "int \<Rightarrow> client runtime" where
  "refresh_runtime refreshEpoch =
     \<lparr>rt_getExpectedSID = (\<lambda>c. current_sid (cl_auth c)),
      rt_parseBundle = parseBundle,
      rt_acceptBundle = (\<lambda>b c. applyAuthBundle b False c),
      rt_clear = (\<lambda>synchronizeTabs boot c.
        if \<not> synchronizeTabs \<and> boot = Some BootIdle then update_auth (reset BootIdle) c
        else clearAuthentication synchronizeTabs (case boot of Some b \<Rightarrow> b | None \<Rightarrow> BootComplete) c),
      rt_markTransient = (\<lambda>c. update_auth (setBootstrapState BootIdle) c),
      rt_isCurrent = (\<lambda>c. cl_epoch c = refreshEpoch)\<rparr>"

definition runRefresh :: "int \<Rightarrow> client \<Rightarrow> run_pc \<times> client" where
  "runRefresh refreshEpoch c = createRefreshRunner (refresh_runtime refreshEpoch) c"

section \<open>Runs among other operations\<close>

text \<open>What the rest of the page does to the session while a refresh is suspended.\<close>

datatype client_op =
    ApplyBundle auth_bundle bool
  | ApplyRotation jsval
  | ClearAuth bool bootstrap_state
  | SetUser "auth_user option"
  | SetPending "pending_verification option"
  | SetBootstrap bootstrap_state

fun apply_op :: "client_op \<Rightarrow> client \<Rightarrow> client" where
  "apply_op (ApplyBundle b sync) c = applyAuthBundle b sync c"
| "apply_op (ApplyRotation v) c = (case applyAuthRotation v c of Inl _ \<Rightarrow> c | Inr c' \<Rightarrow> c')"
| "apply_op (ClearAuth sync boot) c = clearAuthentication sync boot c"
| "apply_op (SetUser u) c = update_auth (setUser u) c"
| "apply_op (SetPending p) c = update_auth (setPendingLoginVerification p) c"
| "apply_op (SetBootstrap b) c = update_auth (setBootstrapState b) c"

datatype refresh_label = Other client_op | Reply refresh_response | Timer int

inductive refresh_step :: "int \<Rightarrow> run_pc \<times> client \<Rightarrow> refresh_label \<Rightarrow> run_pc \<times> client \<Rightarrow> bool" for e where
  other: "refresh_step e (pc, c) (Other op) (pc, apply_op op c)"
| reply: "refresh_step e (Requesting n allow sid, c) (Reply resp) (run_response (refresh_runtime e) n allow resp c)"
| timer: "refresh_step e (Waiting d n allow, c) (Timer d) (run_enter (refresh_runtime e) n allow c)"

inductive refresh_steps :: "int \<Rightarrow> run_pc \<times> client \<Rightarrow> refresh_label list \<Rightarrow> run_pc \<times> client \<Rightarrow> bool" for e where
  none: "refresh_steps e s [] s"
| more: "refresh_steps e s ls s' \<Longrightarrow> refresh_step e s' l s'' \<Longrightarrow> refresh_steps e s (ls @ [l]) s''"

inductive_cases refresh_stepE: "refresh_step e (pc, c) l s'"

section \<open>One refresh at a time\<close>

text \<open>
  The shared promise \<open>refreshPromise\<close>: waiting for the browser lock, in a run, or settled. A
  rejection is \<open>Inl\<close>. The callback of \<open>finally\<close> clears the variable before any waiter resumes, so
  settling and clearing are one step.
\<close>

datatype flight =
    LockWait int
  | InRun int run_pc
  | Finished "jsval + refresh_outcome"

record page =
  pg_client :: client
  pg_refresh :: "flight option"

text \<open>
  What \<open>navigator.locks\<close> does when asked: there is none, the request is queued, or the call throws.
  The \<open>try\<close> block returns the promise of the lock without awaiting it, so the \<open>catch\<close> sees only
  the throw; a rejection of that promise later on is the step \<open>lock_rejected\<close>.
\<close>

datatype lock_call = NoLocks | LockQueued | LockThrew jsval

definition performRefreshWithBrowserLock :: "lock_call \<Rightarrow> int \<Rightarrow> client \<Rightarrow> flight \<times> client" where
  "performRefreshWithBrowserLock lk refreshEpoch c =
     (case lk of
        NoLocks \<Rightarrow> (let (pc, c') = runRefresh refreshEpoch c in (InRun refreshEpoch pc, c'))
      | LockQueued \<Rightarrow> (LockWait refreshEpoch, c)
      | LockThrew err \<Rightarrow>
          (Finished (Inr (TransientError (RefreshFailure err))), update_auth (setBootstrapState BootIdle) c))"

definition refreshAuthentication :: "lock_call \<Rightarrow> page \<Rightarrow> page" where
  "refreshAuthentication lk p =
     (case pg_refresh p of
        Some _ \<Rightarrow> p
      | None \<Rightarrow>
          let (f, c) = performRefreshWithBrowserLock lk (cl_epoch (pg_client p)) (pg_client p)
          in \<lparr>pg_client = c, pg_refresh = Some f\<rparr>)"

definition lock_granted :: "page \<Rightarrow> page" where
  "lock_granted p =
     (case pg_refresh p of
        Some (LockWait e) \<Rightarrow>
          (let (pc, c) = runRefresh e (pg_client p) in \<lparr>pg_client = c, pg_refresh = Some (InRun e pc)\<rparr>)
      | _ \<Rightarrow> p)"

definition lock_rejected :: "jsval \<Rightarrow> page \<Rightarrow> page" where
  "lock_rejected err p =
     (case pg_refresh p of
        Some (LockWait e) \<Rightarrow> p\<lparr>pg_refresh := Some (Finished (Inl err))\<rparr>
      | _ \<Rightarrow> p)"

definition flight_reply :: "refresh_response \<Rightarrow> page \<Rightarrow> page" where
  "flight_reply resp p =
     (case pg_refresh p of
        Some (InRun e (Requesting n allow sid)) \<Rightarrow>
          (let (pc, c) = run_response (refresh_runtime e) n allow resp (pg_client p)
           in \<lparr>pg_client = c, pg_refresh = Some (InRun e pc)\<rparr>)
      | _ \<Rightarrow> p)"

definition flight_timer :: "page \<Rightarrow> page" where
  "flight_timer p =
     (case pg_refresh p of
        Some (InRun e (Waiting d n allow)) \<Rightarrow>
          (let (pc, c) = run_enter (refresh_runtime e) n allow (pg_client p)
           in \<lparr>pg_client = c, pg_refresh = Some (InRun e pc)\<rparr>)
      | _ \<Rightarrow> p)"

definition flight_result :: "flight \<Rightarrow> (jsval + refresh_outcome) option" where
  "flight_result f = (case f of InRun _ (Settled oc) \<Rightarrow> Some (Inr oc) | Finished r \<Rightarrow> Some r | _ \<Rightarrow> None)"

text \<open>The promise settles: its waiters get the result and the next call starts a new refresh.\<close>

definition flight_settle :: "page \<Rightarrow> ((jsval + refresh_outcome) \<times> page) option" where
  "flight_settle p =
     (case pg_refresh p of
        None \<Rightarrow> None
      | Some f \<Rightarrow> map_option (\<lambda>r. (r, p\<lparr>pg_refresh := None\<rparr>)) (flight_result f))"

section \<open>Answers from memory\<close>

definition seconds :: "jsnum \<Rightarrow> jsnum" where
  "seconds now = num_floor (num_div now (Fin 1000))"

definition truthy_str :: "jsstr option \<Rightarrow> bool" where
  "truthy_str s = (case s of Some x \<Rightarrow> x \<noteq> [] | None \<Rightarrow> False)"

definition truthy_num :: "jsnum option \<Rightarrow> bool" where
  "truthy_num x = (case x of Some y \<Rightarrow> y \<noteq> NaN \<and> \<not> is_zero y | None \<Rightarrow> False)"

definition currentValidAuthBundle :: "jsnum \<Rightarrow> client \<Rightarrow> auth_bundle option" where
  "currentValidAuthBundle now c =
     (let a = cl_auth c in
      case (au_user a, au_accessToken a, au_accessExpiresAt a, au_session a) of
        (Some u, Some tok, Some expires, Some ses) \<Rightarrow>
          if tok = [] \<or> \<not> truthy_num (Some expires) \<or> num_le expires (seconds now) then None
          else Some \<lparr>ab_access_token = tok, ab_token_type = js ''Bearer'', ab_access_expires_at = expires,
                     ab_user = u, ab_session = ses\<rparr>
      | _ \<Rightarrow> None)"

text \<open>The result \<open>None\<close> stands for the promise of the refresh that is now under way.\<close>

definition resolveAuthentication :: "lock_call \<Rightarrow> jsnum \<Rightarrow> page \<Rightarrow> refresh_outcome option \<times> page" where
  "resolveAuthentication lk now p =
     (let c = pg_client p; a = cl_auth c in
      case currentValidAuthBundle now c of
        Some b \<Rightarrow> (Some (Authenticated b), p\<lparr>pg_client := update_auth (setBootstrapState BootComplete) c\<rparr>)
      | None \<Rightarrow>
          if au_bootstrapState a = BootComplete \<and> \<not> (au_user a \<noteq> None \<and> au_session a \<noteq> None)
          then (Some Anonymous, p)
          else (None, refreshAuthentication lk (p\<lparr>pg_client := update_auth (setBootstrapState BootChecking) c\<rparr>)))"

definition bootstrapAuthentication ::
  "lock_call \<Rightarrow> jsstr option \<Rightarrow> jsnum \<Rightarrow> page \<Rightarrow> refresh_outcome option \<times> page" where
  "bootstrapAuthentication lk doc now p =
     (let a = cl_auth (pg_client p) in
      if currentValidAuthBundle now (pg_client p) = None \<and> \<not> hasSessionHint doc \<and>
         au_user a = None \<and> au_session a = None
      then (Some Anonymous, p)
      else resolveAuthentication lk now p)"

section \<open>Headers of a request\<close>

definition getCommonHeaders :: "client \<Rightarrow> (jsstr, jsstr) orec" where
  "getCommonHeaders c =
     (let headers = [(js ''Content-Type'', js ''application/json'')] in
      case au_accessToken (cl_auth c) of
        Some tok \<Rightarrow> if tok \<noteq> [] then headers @ [(js ''Authorization'', js ''Bearer '' @ tok)] else headers
      | None \<Rightarrow> headers)"

text \<open>Whether the token in memory is still valid at a time given in seconds.\<close>

definition token_valid_after :: "jsnum \<Rightarrow> client \<Rightarrow> bool" where
  "token_valid_after limit c =
     (let a = cl_auth c in
      truthy_str (au_accessToken a) \<and> truthy_num (au_accessExpiresAt a) \<and>
      (case au_accessExpiresAt a of Some x \<Rightarrow> num_lt limit x | None \<Rightarrow> False))"

datatype headers_error = RequestFailed refresh_error | SessionExpired | RefreshRejected jsval

text \<open>\<open>getFreshAuthHeaders\<close> up to its \<open>await\<close> and after it; the times are read at each point.\<close>

definition fresh_headers_start ::
  "lock_call \<Rightarrow> jsnum \<Rightarrow> page \<Rightarrow> (jsstr, jsstr) orec option \<times> page" where
  "fresh_headers_start lk now p =
     (if token_valid_after (num_add (seconds now) (Fin 60)) (pg_client p)
      then (Some (getCommonHeaders (pg_client p)), p)
      else (None, refreshAuthentication lk p))"

definition fresh_headers_finish ::
  "(jsval + refresh_outcome) \<Rightarrow> jsnum \<Rightarrow> client \<Rightarrow> headers_error + (jsstr, jsstr) orec" where
  "fresh_headers_finish result now c =
     (case result of
        Inl err \<Rightarrow> Inl (RefreshRejected err)
      | Inr (Authenticated _) \<Rightarrow> Inr (getCommonHeaders c)
      | Inr outcome \<Rightarrow>
          if token_valid_after (seconds now) c then Inr (getCommonHeaders c)
          else case outcome of
                 TransientError err \<Rightarrow> Inl (RequestFailed err)
               | _ \<Rightarrow> Inl SessionExpired)"

end
