(* ===== verification/AuthFacts.thy ===== *)
theory AuthFacts
  imports AuthSession
begin

text \<open>
  Facts on login sessions: a refresh that other operations overtook changes nothing, a run of the
  runner ends after a bounded number of requests, the outcome of a run tells what the store holds,
  and the states a page can reach keep their credentials consistent.
\<close>

named_theorems session_defs \<open>definitions of the operations on a session\<close>

declare update_auth_def [session_defs] publish_def [session_defs] applyAuthBundle_def [session_defs]
  clearAuthentication_def [session_defs] setBundle_def [session_defs] reset_def [session_defs]
  setUser_def [session_defs] setPendingLoginVerification_def [session_defs]
  setBootstrapState_def [session_defs] Let_def [session_defs]

section \<open>Overtaken runs\<close>

lemma refresh_runtime_simps [simp]:
  "rt_isCurrent (refresh_runtime e) c \<longleftrightarrow> cl_epoch c = e"
  "rt_parseBundle (refresh_runtime e) = parseBundle"
  "rt_acceptBundle (refresh_runtime e) b c = applyAuthBundle b False c"
  "rt_getExpectedSID (refresh_runtime e) c = current_sid (cl_auth c)"
  "rt_clear (refresh_runtime e) False (Some BootIdle) c = update_auth (reset BootIdle) c"
  "rt_clear (refresh_runtime e) sync None c = clearAuthentication sync BootComplete c"
  "rt_markTransient (refresh_runtime e) c = update_auth (setBootstrapState BootIdle) c"
  by (simp_all add: refresh_runtime_def)

lemma epoch_simps [simp]:
  "cl_epoch (update_auth f c) = cl_epoch c" "cl_epoch (publish k sid c) = cl_epoch c"
  "cl_epoch (applyAuthBundle b sync c) = cl_epoch c + 1"
  "cl_epoch (clearAuthentication sync boot c) = cl_epoch c + 1"
  by (auto simp: session_defs split: option.splits)

lemma epoch_apply_op: "cl_epoch c \<le> cl_epoch (apply_op op c)"
  by (cases op) (auto simp: applyAuthRotation_def split: sum.splits if_splits option.splits)

definition run_ops :: "client_op list \<Rightarrow> client \<Rightarrow> client" where
  "run_ops ops c = foldl (\<lambda>c op. apply_op op c) c ops"

lemma run_ops_append: "run_ops (a @ b) c = run_ops b (run_ops a c)"
  by (simp add: run_ops_def)

fun ops_of :: "refresh_label list \<Rightarrow> client_op list" where
  "ops_of [] = []"
| "ops_of (Other op # ls) = op # ops_of ls"
| "ops_of (_ # ls) = ops_of ls"

lemma ops_of_append [simp]: "ops_of (a @ b) = ops_of a @ ops_of b"
  by (induction a rule: ops_of.induct) auto

lemma stale_step:
  assumes "refresh_step e (pc, c) l (pc', c')" and "e < cl_epoch c"
  shows "c' = run_ops (ops_of [l]) c" and "e < cl_epoch c'" and "pc' = pc \<or> pc' = Settled superseded"
proof -
  have "e < cl_epoch (apply_op op c)" for op using epoch_apply_op[of c op] assms(2) by simp
  with assms show "c' = run_ops (ops_of [l]) c" and "e < cl_epoch c'" and "pc' = pc \<or> pc' = Settled superseded"
    by (auto simp: run_ops_def run_response_def run_enter_def elim!: refresh_stepE)
qed

lemma stale_steps:
  assumes "refresh_steps e (pc, c) ls s'" and "e < cl_epoch c"
  shows "snd s' = run_ops (ops_of ls) c \<and> e < cl_epoch (snd s') \<and> (fst s' = pc \<or> fst s' = Settled superseded)"
  using assms(1)
proof (induction "(pc, c)" ls s')
  case none
  then show ?case using assms(2) by (simp add: run_ops_def)
next
  case (more ls s' l s'')
  obtain pc1 c1 where s1: "s' = (pc1, c1)" by (cases s')
  obtain pc2 c2 where s2: "s'' = (pc2, c2)" by (cases s'')
  show ?case using stale_step[of e pc1 c1 l pc2 c2] more s1 s2 by (auto simp: run_ops_append)
qed

text \<open>
  C10. A refresh that another operation overtook is inert. From the moment a login, a sign-out or a
  token rotation has moved the epoch on, the session is what the other operations of the page make
  of it, whatever responses and timers the old run still gets; that run either stays suspended or
  ends as superseded.
\<close>

theorem stale_refresh_inert:
  assumes "refresh_steps e (pc, c) ls (pc', c')" and "e < cl_epoch c"
  shows "c' = run_ops (ops_of ls) c \<and> (pc' = pc \<or> pc' = Settled superseded)"
  using stale_steps[OF assms] by simp

text \<open>A user that signs in while a refresh is under way.\<close>

definition demo_bundle :: auth_bundle where
  "demo_bundle =
     \<lparr>ab_access_token = js ''access-token'', ab_token_type = js ''Bearer'', ab_access_expires_at = Fin 1000,
      ab_user = \<lparr>us_id = Fin 42, us_username = js ''test-user'', us_role = Fin 1, us_optional = []\<rparr>,
      ab_session = \<lparr>ls_sid = js ''session-a'', ls_current = True, ls_login_method = js ''password'',
        ls_ip = js ''127.0.0.1'', ls_user_agent = js ''test'', ls_created_at = Fin 100,
        ls_last_active_at = Fin 100, ls_expires_at = Fin 1000\<rparr>\<rparr>"

definition demo_rejected :: refresh_response where
  "demo_rejected = \<lparr>rr_status = 401, rr_data = VUndef, rr_error = VUndef\<rparr>"

theorem stale_refresh_inert_witness:
  "snd (run_response (refresh_runtime 0) 0 True demo_rejected (applyAuthBundle demo_bundle True initial_client)) =
     applyAuthBundle demo_bundle True initial_client"
proof -
  let ?c = "applyAuthBundle demo_bundle True initial_client"
  let ?s = "run_response (refresh_runtime 0) 0 True demo_rejected ?c"
  have "refresh_steps 0 (Requesting 0 True None, ?c) ([] @ [Reply demo_rejected]) (fst ?s, snd ?s)"
    unfolding prod.collapse by (rule refresh_steps.more[OF refresh_steps.none refresh_step.reply])
  from stale_refresh_inert[OF this] show ?thesis
    by (simp add: run_ops_def initial_client_def)
qed

section \<open>Runs end\<close>

text \<open>Requests and waiting time a run can still use, and the attempts it can be at.\<close>

fun requests_left :: "run_pc \<Rightarrow> nat" where
  "requests_left (Requesting n allow sid) = (4 - n) + (if allow then 4 else 0)"
| "requests_left (Waiting d n allow) = (4 - n) + (if allow then 4 else 0)"
| "requests_left (Settled oc) = 0"

fun delay_left :: "run_pc \<Rightarrow> int" where
  "delay_left (Requesting n allow sid) = sum_list (drop n refreshRaceDelays) + (if allow then 780 else 0)"
| "delay_left (Waiting d n allow) = d + sum_list (drop n refreshRaceDelays) + (if allow then 780 else 0)"
| "delay_left (Settled oc) = 0"

fun attempt_ok :: "run_pc \<Rightarrow> bool" where
  "attempt_ok (Requesting n allow sid) \<longleftrightarrow> n \<le> 3"
| "attempt_ok (Waiting d n allow) \<longleftrightarrow> n \<le> 3 \<and> 0 \<le> d"
| "attempt_ok (Settled oc) \<longleftrightarrow> True"

fun replies :: "refresh_label list \<Rightarrow> nat" where
  "replies [] = 0"
| "replies (Reply resp # ls) = Suc (replies ls)"
| "replies (_ # ls) = replies ls"

fun waited :: "refresh_label list \<Rightarrow> int" where
  "waited [] = 0"
| "waited (Timer d # ls) = d + waited ls"
| "waited (_ # ls) = waited ls"

lemma counts_append [simp]: "replies (a @ b) = replies a + replies b" "waited (a @ b) = waited a + waited b"
  by (induction a rule: replies.induct) auto

lemma sum_drop_nonneg: "0 \<le> sum_list (drop n refreshRaceDelays)"
  by (rule sum_list_nonneg) (auto simp: refreshRaceDelays_def dest!: in_set_dropD)

lemma delay_left_nonneg: "attempt_ok pc \<Longrightarrow> 0 \<le> delay_left pc"
  using sum_drop_nonneg by (cases pc) auto

lemma enter_bounds:
  assumes "run_enter rt n allow s = (pc, s')"
  shows "requests_left pc \<le> (4 - n) + (if allow then 4 else 0)"
    and "delay_left pc \<le> sum_list (drop n refreshRaceDelays) + (if allow then 780 else 0)"
    and "n \<le> 3 \<Longrightarrow> attempt_ok pc"
  using assms sum_drop_nonneg[of n] by (auto simp: run_enter_def split: if_splits)

lemma verdict_cases:
  assumes "run_verdict rt n allow resp s = (pc, s')"
  obtains (settled) oc where "pc = Settled oc"
  | (wait) "n < 3" "pc = Waiting (refreshRaceDelays ! n) (n + 1) allow" "s' = s"
  | (retry) "allow" "run_enter rt 0 False (rt_clear rt False (Some BootIdle) s) = (pc, s')"
  using assms by (auto simp: run_verdict_def refreshRaceDelays_def Let_def split: option.splits if_splits)

lemma delay_step: "n < 3 \<Longrightarrow> sum_list (drop n refreshRaceDelays) = refreshRaceDelays ! n + sum_list (drop (n + 1) refreshRaceDelays)"
  by (simp add: Cons_nth_drop_Suc[symmetric] refreshRaceDelays_def)

lemma response_bounds:
  assumes "run_response rt n allow resp s = (pc, s')" and "n \<le> 3"
  shows "requests_left pc < requests_left (Requesting n allow sid)"
    and "delay_left pc \<le> delay_left (Requesting n allow sid)" and "attempt_ok pc"
proof -
  have "requests_left pc < requests_left (Requesting n allow sid) \<and>
      delay_left pc \<le> delay_left (Requesting n allow sid) \<and> attempt_ok pc"
  proof (cases "rt_isCurrent rt s")
    case True
    with assms(1) have "run_verdict rt n allow resp s = (pc, s')" by (simp add: run_response_def)
    then show ?thesis
    proof (cases rule: verdict_cases)
      case (settled oc)
      then show ?thesis using assms(2) sum_drop_nonneg[of n] by simp
    next
      case wait
      then have "0 \<le> refreshRaceDelays ! n" by (auto simp: refreshRaceDelays_def nth_Cons split: nat.splits)
      then show ?thesis using wait delay_step[of n] by auto
    next
      case retry
      show ?thesis using enter_bounds[OF retry(2)] retry(1) assms(2) sum_drop_nonneg[of n]
        by (simp add: refreshRaceDelays_def)
    qed
  next
    case False
    with assms sum_drop_nonneg[of n] show ?thesis by (auto simp: run_response_def)
  qed
  then show "requests_left pc < requests_left (Requesting n allow sid)"
    and "delay_left pc \<le> delay_left (Requesting n allow sid)" and "attempt_ok pc" by blast+
qed

lemma step_bounds:
  assumes "refresh_step e (pc, c) l (pc', c')" and "attempt_ok pc"
  shows "attempt_ok pc' \<and> replies [l] + requests_left pc' \<le> requests_left pc \<and>
    waited [l] + delay_left pc' \<le> delay_left pc"
  using assms(1)
proof (cases rule: refresh_step.cases)
  case (reply n allow sid resp)
  with assms(2) response_bounds(1,2)[of "refresh_runtime e" n allow resp c pc' c' sid]
    response_bounds(3)[of "refresh_runtime e" n allow resp c pc' c'] show ?thesis by simp
next
  case (timer d n allow)
  with assms(2) enter_bounds[of "refresh_runtime e" n allow c pc' c'] show ?thesis by simp
qed (use assms(2) in auto)

lemma steps_bounds:
  assumes "refresh_steps e s ls s'" and "attempt_ok (fst s)"
  shows "attempt_ok (fst s') \<and> replies ls + requests_left (fst s') \<le> requests_left (fst s) \<and>
    waited ls + delay_left (fst s') \<le> delay_left (fst s)"
  using assms
proof (induction s ls s')
  case (more s ls s' l s'')
  then show ?case using step_bounds[of e "fst s'" "snd s'" l "fst s''" "snd s''"] by auto
qed auto

lemma unsettled: "attempt_ok pc \<Longrightarrow> requests_left pc = 0 \<Longrightarrow> \<exists>oc. pc = Settled oc"
  by (cases pc) auto

text \<open>
  C11. A refresh run ends. Whatever the server answers and whatever else the page does meanwhile, a
  run sends at most eight requests and sleeps at most 1560 ms in total; after the eighth answer it
  has settled, and as long as it has not settled the next answer or timer moves it on.
\<close>

theorem refresh_run_ends:
  assumes "refresh_steps e (runRefresh e c) ls (pc', c')"
  shows "replies ls \<le> 8 \<and> waited ls \<le> 1560 \<and> (replies ls = 8 \<longrightarrow> (\<exists>oc. pc' = Settled oc)) \<and>
    ((\<exists>oc. pc' = Settled oc) \<or>
     (\<forall>resp. \<exists>l s. (l = Reply resp \<or> (\<exists>d. l = Timer d)) \<and> refresh_step e (pc', c') l s))"
proof -
  obtain pc0 c0 where r: "runRefresh e c = (pc0, c0)" by (cases "runRefresh e c")
  have en: "attempt_ok pc0" "requests_left pc0 \<le> 8" "delay_left pc0 \<le> 1560"
    using enter_bounds[of "refresh_runtime e" 0 True c pc0 c0] r
    by (simp_all add: runRefresh_def createRefreshRunner_def refreshRaceDelays_def)
  have b: "attempt_ok pc'" "replies ls + requests_left pc' \<le> 8" "waited ls + delay_left pc' \<le> 1560"
    using steps_bounds[OF assms] en r by auto
  have "(\<exists>oc. pc' = Settled oc) \<or>
     (\<forall>resp. \<exists>l s. (l = Reply resp \<or> (\<exists>d. l = Timer d)) \<and> refresh_step e (pc', c') l s)"
    by (cases pc') (blast intro: refresh_step.intros)+
  with b delay_left_nonneg[OF b(1)] unsettled[OF b(1)] show ?thesis by auto
qed

definition demo_race :: refresh_response where
  "demo_race = \<lparr>rr_status = 409, rr_data = VObj [(js ''code'', VStr (js ''AUTH_REFRESH_RACE''))], rr_error = VUndef\<rparr>"

theorem refresh_run_ends_witness:
  "\<exists>pc c. refresh_steps 0 (runRefresh 0 initial_client) [Reply demo_race, Timer 80] (pc, c) \<and>
     replies [Reply demo_race, Timer 80] \<le> 8 \<and> waited [Reply demo_race, Timer 80] \<le> 1560"
proof -
  have r: "runRefresh 0 initial_client = (Requesting 0 True None, initial_client)"
    "run_response (refresh_runtime 0) 0 True demo_race initial_client = (Waiting 80 1 True, initial_client)"
    by code_simp+
  have "refresh_steps 0 (runRefresh 0 initial_client) ([] @ [Reply demo_race]) (Waiting 80 1 True, initial_client)"
    unfolding r(1) using refresh_steps.more[OF refresh_steps.none refresh_step.reply] r(2) by metis
  then have "refresh_steps 0 (runRefresh 0 initial_client) (([] @ [Reply demo_race]) @ [Timer 80])
      (run_enter (refresh_runtime 0) 1 True initial_client)"
    by (rule refresh_steps.more) (rule refresh_step.timer)
  then have s: "refresh_steps 0 (runRefresh 0 initial_client) [Reply demo_race, Timer 80]
      (fst (run_enter (refresh_runtime 0) 1 True initial_client), snd (run_enter (refresh_runtime 0) 1 True initial_client))"
    by simp
  from refresh_run_ends[OF this] s show ?thesis by blast
qed

section \<open>Outcomes and the store\<close>

lemma auth_simps [simp]:
  "cl_auth (update_auth f c) = f (cl_auth c)" "cl_auth (publish k sid c) = cl_auth c"
  "cl_auth (applyAuthBundle b sync c) = setBundle b (cl_auth c)"
  "cl_auth (clearAuthentication sync boot c) = reset boot (cl_auth c)"
  by (auto simp: update_auth_def publish_def applyAuthBundle_def clearAuthentication_def Let_def split: option.splits)

lemma published_simps [simp]:
  "cl_published (update_auth f c) = cl_published c" "cl_published (applyAuthBundle b False c) = cl_published c"
  "cl_published (clearAuthentication False boot c) = cl_published c"
  "cl_published (clearAuthentication True boot c) = cl_published c @
     (case current_sid (cl_auth c) of Some sid \<Rightarrow> if sid = [] then [] else [(SyncSignedOut, sid)] | None \<Rightarrow> [])"
  by (auto simp: session_defs current_sid_def split: option.splits)

definition holds :: "auth_bundle \<Rightarrow> auth_state \<Rightarrow> bool" where
  "holds b a \<longleftrightarrow> au_user a = Some (ab_user b) \<and> au_accessToken a = Some (ab_access_token b) \<and>
     au_accessExpiresAt a = Some (ab_access_expires_at b) \<and> au_session a = Some (ab_session b)"

definition signed_out :: "auth_state \<Rightarrow> bool" where
  "signed_out a \<longleftrightarrow> au_user a = None \<and> au_accessToken a = None \<and> au_accessExpiresAt a = None \<and> au_session a = None"

definition same_session :: "auth_state \<Rightarrow> auth_state \<Rightarrow> bool" where
  "same_session a b \<longleftrightarrow> au_accessToken a = au_accessToken b \<and>
     au_accessExpiresAt a = au_accessExpiresAt b \<and> au_session a = au_session b"

definition no_session :: "auth_state \<Rightarrow> bool" where
  "no_session a \<longleftrightarrow> au_accessToken a = None \<and> au_accessExpiresAt a = None \<and> au_session a = None"

text \<open>An answer that the session of the page is not the one of the cookie.\<close>

fun mismatch_label :: "refresh_label \<Rightarrow> bool" where
  "mismatch_label (Reply resp) \<longleftrightarrow> rr_status resp = 409 \<and>
     response_code (rr_data resp) = Some (js ''AUTH_SESSION_MISMATCH'') \<and>
     (if response_success (rr_data resp) then response_bundle (refresh_runtime 0) (rr_data resp) else None) = None"
| "mismatch_label _ \<longleftrightarrow> False"

text \<open>
  What the session is after a run from \<open>c\<close> on that saw the given labels, while it is current. The
  user is known when no other operation came between.
\<close>

definition session_after :: "refresh_label list \<Rightarrow> client \<Rightarrow> client \<Rightarrow> bool" where
  "session_after ls c c' \<longleftrightarrow> cl_epoch c' = cl_epoch c \<and> cl_published c' = cl_published c \<and>
     (if list_ex mismatch_label ls then no_session (cl_auth c') else same_session (cl_auth c) (cl_auth c')) \<and>
     (ops_of ls = [] \<longrightarrow> au_user (cl_auth c') = (if list_ex mismatch_label ls then None else au_user (cl_auth c)))"

definition run_outcome :: "refresh_label list \<Rightarrow> refresh_outcome \<Rightarrow> client \<Rightarrow> client \<Rightarrow> bool" where
  "run_outcome ls oc c c' =
     (case oc of
        Authenticated b \<Rightarrow>
          holds b (cl_auth c') \<and> au_bootstrapState (cl_auth c') = BootComplete \<and> cl_published c' = cl_published c
      | Anonymous \<Rightarrow>
          signed_out (cl_auth c') \<and> au_bootstrapState (cl_auth c') = BootComplete \<and>
          cl_published c' = cl_published c @
            (case current_sid (cl_auth c) of
               Some sid \<Rightarrow> if sid = [] \<or> list_ex mismatch_label ls then [] else [(SyncSignedOut, sid)] | None \<Rightarrow> [])
      | OutOfSync _ \<Rightarrow>
          signed_out (cl_auth c') \<and> au_bootstrapState (cl_auth c') = BootComplete \<and> cl_published c' = cl_published c
      | TransientError RefreshSuperseded \<Rightarrow> cl_epoch c < cl_epoch c'
      | TransientError (RefreshFailure _) \<Rightarrow>
          session_after ls c c' \<and> au_bootstrapState (cl_auth c') = BootIdle)"

lemmas outcome_defs =
  run_outcome_def session_after_def holds_def signed_out_def no_session_def same_session_def current_sid_def session_defs

fun may_retry :: "run_pc \<Rightarrow> bool option" where
  "may_retry (Requesting n allow sid) = Some allow"
| "may_retry (Waiting d n allow) = Some allow"
| "may_retry (Settled oc) = None"

lemma op_keeps_session:
  assumes "cl_epoch (apply_op op c) = cl_epoch c"
  shows "same_session (cl_auth c) (cl_auth (apply_op op c)) \<and> cl_published (apply_op op c) = cl_published c"
  using assms
  by (cases op)
    (auto simp: same_session_def update_auth_def setUser_def setPendingLoginVerification_def setBootstrapState_def
      applyAuthRotation_def split: sum.splits if_splits option.splits)

lemma op_session_after:
  assumes "session_after ls c c1" and "cl_epoch (apply_op op c1) = cl_epoch c1"
  shows "session_after (ls @ [Other op]) c (apply_op op c1)"
  using assms op_keeps_session[OF assms(2)] by (auto simp: session_after_def same_session_def no_session_def)

lemma mismatch_verdict:
  assumes "run_verdict (refresh_runtime e) n allow resp c = (pc, c')"
  shows "mismatch_label (Reply resp) \<Longrightarrow> allow \<Longrightarrow>
      run_enter (refresh_runtime e) 0 False (update_auth (reset BootIdle) c) = (pc, c')"
    and "mismatch_label (Reply resp) \<Longrightarrow> \<not> allow \<Longrightarrow> \<exists>x. pc = Settled (OutOfSync x) \<and> c' = clearAuthentication False BootComplete c"
    and "\<not> mismatch_label (Reply resp) \<Longrightarrow> may_retry pc \<noteq> None \<Longrightarrow> may_retry pc = Some allow \<and> c' = c"
  using assms
  by (auto simp: run_verdict_def response_bundle_def js_Cons Let_def split: option.splits if_splits)

text \<open>As long as a run is under way and current, it can retry exactly when no mismatch was answered.\<close>

definition under_way :: "int \<Rightarrow> refresh_label list \<Rightarrow> client \<Rightarrow> run_pc \<times> client \<Rightarrow> bool" where
  "under_way e ls c s \<longleftrightarrow> e \<le> cl_epoch (snd s) \<and>
     (may_retry (fst s) \<noteq> None \<longrightarrow> cl_epoch (snd s) = e \<longrightarrow>
        session_after ls c (snd s) \<and> may_retry (fst s) = Some (\<not> list_ex mismatch_label ls))"

lemma session_after_label: "session_after ls c c1 \<Longrightarrow> \<not> mismatch_label l \<Longrightarrow> ops_of [l] = [] \<Longrightarrow> session_after (ls @ [l]) c c1"
  by (simp add: session_after_def)

lemma response_epoch: "run_response (refresh_runtime e) n allow resp c = (pc, c') \<Longrightarrow> cl_epoch c \<le> cl_epoch c'"
  by (auto simp: run_response_def run_verdict_def run_enter_def Let_def split: option.splits if_splits)

lemma under_way_step:
  assumes "refresh_step e s l s'" and "under_way e ls c s"
  shows "under_way e (ls @ [l]) c s'"
  using assms(1)
proof (cases rule: refresh_step.cases)
  case (other pc c1 op)
  have "session_after (ls @ [Other op]) c (apply_op op c1) \<and> may_retry pc = Some (\<not> list_ex mismatch_label ls)"
    if "may_retry pc \<noteq> None" "cl_epoch (apply_op op c1) = e"
    using that assms(2) other epoch_apply_op[of c1 op] op_session_after[of ls c c1 op] by (simp add: under_way_def)
  with other assms(2) epoch_apply_op[of c1 op] show ?thesis by (simp add: under_way_def)
next
  case (reply n allow sid c1 resp)
  obtain pc' c' where s': "run_response (refresh_runtime e) n allow resp c1 = (pc', c')" by fastforce
  have up: "e \<le> cl_epoch c'" using response_epoch[OF s'] assms(2) reply by (simp add: under_way_def)
  have "session_after (ls @ [l]) c c' \<and> may_retry pc' = Some (\<not> list_ex mismatch_label (ls @ [l]))"
    if go: "may_retry pc' \<noteq> None" "cl_epoch c' = e"
  proof -
    have cur: "cl_epoch c1 = e" and v: "run_verdict (refresh_runtime e) n allow resp c1 = (pc', c')"
      using s' go(1) by (auto simp: run_response_def split: if_splits)
    with assms(2) reply have IH: "session_after ls c c1" "allow = (\<not> list_ex mismatch_label ls)"
      by (simp_all add: under_way_def)
    show ?thesis
    proof (cases "mismatch_label l")
      case True
      with mismatch_verdict(2)[OF v] go(1) reply(2) have allow by (metis may_retry.simps(3))
      with mismatch_verdict(1)[OF v] True reply(2)
      have "run_enter (refresh_runtime e) 0 False (update_auth (reset BootIdle) c1) = (pc', c')" by simp
      then have "c' = update_auth (reset BootIdle) c1" "may_retry pc' = Some False"
        using cur by (auto simp: run_enter_def)
      with True IH show ?thesis by (simp add: session_after_def no_session_def session_defs)
    next
      case False
      with mismatch_verdict(3)[OF v] go(1) reply(2) have "may_retry pc' = Some allow" "c' = c1" by auto
      with False IH session_after_label[OF IH(1) False] reply(2) show ?thesis by simp
    qed
  qed
  with up s' reply show ?thesis by (simp add: under_way_def)
next
  case (timer d n allow c1)
  with assms(2) show ?thesis by (auto simp: under_way_def run_enter_def session_after_def)
qed

lemma under_way_steps:
  "refresh_steps e s ls s' \<Longrightarrow> under_way e [] c s \<Longrightarrow> under_way e ls c s'"
  by (induction s ls s' rule: refresh_steps.induct) (auto intro: under_way_step)

lemma settled_outcomes:
  assumes "session_after ls c c1" and "ops_of [l] = []"
  shows "run_outcome (ls @ [l]) (OutOfSync x) c (clearAuthentication False BootComplete c1)"
    and "run_outcome (ls @ [l]) (Authenticated b) c (applyAuthBundle b False c1)"
    and "\<not> mismatch_label l \<Longrightarrow> run_outcome (ls @ [l]) Anonymous c (clearAuthentication True BootComplete c1)"
    and "\<not> mismatch_label l \<Longrightarrow> run_outcome (ls @ [l]) (TransientError (RefreshFailure err)) c (update_auth (setBootstrapState BootIdle) c1)"
  using assms
  by (auto simp: run_outcome_def session_after_def holds_def signed_out_def no_session_def same_session_def current_sid_def
      reset_def setBundle_def setBootstrapState_def simp del: mismatch_label.simps split: option.splits if_splits)

lemma verdict_settles:
  assumes "run_verdict (refresh_runtime e) n allow resp c = (Settled oc, c')" and "cl_epoch c = e"
  obtains (out) x where "oc = OutOfSync x" "c' = clearAuthentication False BootComplete c"
  | (authenticated) b where "oc = Authenticated b" "c' = applyAuthBundle b False c"
  | (anonymous) "oc = Anonymous" "c' = clearAuthentication True BootComplete c" "\<not> mismatch_label (Reply resp)"
  | (failure) err where "oc = TransientError (RefreshFailure err)" "c' = update_auth (setBootstrapState BootIdle) c"
      "\<not> mismatch_label (Reply resp)"
proof -
  have "run_enter (refresh_runtime e) 0 False (update_auth (reset BootIdle) c) \<noteq> (Settled oc, c')"
    using assms(2) by (simp add: run_enter_def)
  with assms(1) show thesis
    by (auto simp: run_verdict_def Let_def split: option.splits if_splits intro: that)
qed

text \<open>
  C12. The outcome of a whole refresh run tells what the session is, whatever the page did between.
  When a run settles, an authenticated outcome means the store holds exactly the bundle it carries,
  an anonymous or out-of-sync outcome means the credentials are gone, and a superseded one that
  another operation moved the epoch on. A failed request leaves the session as it was at the start
  of the run, unless the server answered before that the session of the page is not the one of the
  cookie: then the session is gone although the failure is reported as temporary. Only the
  anonymous outcome announces a sign-out to the other tabs, for the session the run started with.
\<close>

theorem refresh_outcome_in_store:
  assumes "refresh_steps e (runRefresh e c) ls (pc, c1)" and "cl_epoch c = e"
    and "refresh_step e (pc, c1) l (Settled oc, c')" and "ops_of [l] = []"
  shows "run_outcome (ls @ [l]) oc c c'"
proof -
  have "under_way e [] c (runRefresh e c)"
    using assms(2) by (simp add: runRefresh_def createRefreshRunner_def run_enter_def under_way_def session_after_def same_session_def)
  from under_way_steps[OF assms(1) this] have u: "under_way e ls c (pc, c1)" .
  have stale: "run_outcome (ls @ [l]) superseded c c1" if "cl_epoch c1 \<noteq> e"
    using that u assms(2) by (simp add: under_way_def run_outcome_def superseded_def)
  from assms(3) show ?thesis
  proof (cases rule: refresh_step.cases)
    case (reply n allow sid resp)
    show ?thesis
    proof (cases "cl_epoch c1 = e")
      case True
      with u reply have s: "session_after ls c c1" by (simp add: under_way_def)
      from reply True have "run_verdict (refresh_runtime e) n allow resp c1 = (Settled oc, c')" by (simp add: run_response_def)
      from this True show ?thesis
        by (cases rule: verdict_settles) (use settled_outcomes[OF s assms(4)] reply in auto)
    next
      case False
      with reply stale show ?thesis by (simp add: run_response_def)
    qed
  next
    case (timer d n allow)
    with stale show ?thesis by (auto simp: run_enter_def split: if_splits)
  qed (use assms(4) in simp)
qed

definition demo_mismatch :: refresh_response where
  "demo_mismatch = \<lparr>rr_status = 409, rr_data = VObj [(js ''code'', VStr (js ''AUTH_SESSION_MISMATCH''))], rr_error = VUndef\<rparr>"

definition demo_unavailable :: refresh_response where
  "demo_unavailable = \<lparr>rr_status = 503, rr_data = VUndef, rr_error = VUndef\<rparr>"

text \<open>A signed-in page whose refresh is answered with a mismatch and then fails for a moment.\<close>

theorem refresh_outcome_in_store_witness:
  "\<exists>c'. refresh_steps 1 (runRefresh 1 (applyAuthBundle demo_bundle True initial_client))
       [Reply demo_mismatch, Reply demo_unavailable] (Settled (TransientError (RefreshFailure VUndef)), c') \<and>
     no_session (cl_auth c')"
proof -
  let ?c = "applyAuthBundle demo_bundle True initial_client" and ?c1 = "update_auth (reset BootIdle) (applyAuthBundle demo_bundle True initial_client)"
  let ?c2 = "update_auth (setBootstrapState BootIdle) ?c1"
  have r: "runRefresh 1 ?c = (Requesting 0 True (Some (js ''session-a'')), ?c)"
    "run_response (refresh_runtime 1) 0 True demo_mismatch ?c = (Requesting 0 False None, ?c1)"
    "run_response (refresh_runtime 1) 0 False demo_unavailable ?c1 = (Settled (TransientError (RefreshFailure VUndef)), ?c2)"
    "cl_epoch ?c = 1" "list_ex mismatch_label ([Reply demo_mismatch] @ [Reply demo_unavailable])"
    by code_simp+
  have s1: "refresh_steps 1 (runRefresh 1 ?c) ([] @ [Reply demo_mismatch]) (Requesting 0 False None, ?c1)"
    unfolding r(1) r(2)[symmetric] by (rule refresh_steps.more[OF refresh_steps.none refresh_step.reply])
  have s2: "refresh_step 1 (Requesting 0 False None, ?c1) (Reply demo_unavailable) (Settled (TransientError (RefreshFailure VUndef)), ?c2)"
    unfolding r(3)[symmetric] by (rule refresh_step.reply)
  have "run_outcome ([Reply demo_mismatch] @ [Reply demo_unavailable]) (TransientError (RefreshFailure VUndef)) ?c ?c2"
    using refresh_outcome_in_store[OF s1 r(4) s2] by simp
  then have "no_session (cl_auth ?c2)" using r(5) by (simp add: run_outcome_def session_after_def del: append.simps)
  with refresh_steps.more[OF s1 s2] show ?thesis by auto
qed

section \<open>Reachable pages\<close>

definition bundle_ok :: "auth_bundle \<Rightarrow> bool" where
  "bundle_ok b \<longleftrightarrow> ab_access_token b \<noteq> [] \<and> ls_sid (ab_session b) \<noteq> [] \<and>
     is_finite (ab_access_expires_at b) \<and> num_lt (Fin 0) (ab_access_expires_at b)"

text \<open>Every caller of \<open>applyAuthBundle\<close> has checked the bundle with \<open>isAuthBundle\<close>.\<close>

fun op_ok :: "client_op \<Rightarrow> bool" where
  "op_ok (ApplyBundle b sync) = bundle_ok b"
| "op_ok _ = True"

inductive page_step :: "page \<Rightarrow> page \<Rightarrow> bool" where
  op: "op_ok op \<Longrightarrow> page_step p (p\<lparr>pg_client := apply_op op (pg_client p)\<rparr>)"
| refresh: "page_step p (refreshAuthentication lk p)"
| resolve: "page_step p (snd (resolveAuthentication lk now p))"
| bootstrap: "page_step p (snd (bootstrapAuthentication lk doc now p))"
| fresh: "page_step p (snd (fresh_headers_start lk now p))"
| granted: "page_step p (lock_granted p)"
| rejected: "page_step p (lock_rejected err p)"
| reply: "page_step p (flight_reply resp p)"
| timer: "page_step p (flight_timer p)"
| settle: "flight_settle p = Some (r, p') \<Longrightarrow> page_step p p'"

inductive reachable_page :: "page \<Rightarrow> bool" where
  start: "reachable_page \<lparr>pg_client = initial_client, pg_refresh = None\<rparr>"
| step: "reachable_page p \<Longrightarrow> page_step p p' \<Longrightarrow> reachable_page p'"

text \<open>Token, expiry and session come and go together, and the token is usable as a header.\<close>

definition session_ok :: "auth_state \<Rightarrow> bool" where
  "session_ok a =
     (case (au_accessToken a, au_accessExpiresAt a, au_session a) of
        (None, None, None) \<Rightarrow> True
      | (Some tok, Some x, Some ses) \<Rightarrow> tok \<noteq> [] \<and> ls_sid ses \<noteq> [] \<and> is_finite x \<and> num_lt (Fin 0) x
      | _ \<Rightarrow> False)"

definition flight_epoch_ok :: "flight option \<Rightarrow> int \<Rightarrow> bool" where
  "flight_epoch_ok f e = (case f of Some (LockWait e0) \<Rightarrow> e0 \<le> e | Some (InRun e0 pc) \<Rightarrow> e0 \<le> e \<and> attempt_ok pc | _ \<Rightarrow> True)"

definition page_ok :: "page \<Rightarrow> bool" where
  "page_ok p \<longleftrightarrow> session_ok (cl_auth (pg_client p)) \<and> flight_epoch_ok (pg_refresh p) (cl_epoch (pg_client p))"

lemma nonempty_str_of: "nonempty_str v \<Longrightarrow> str_of v \<noteq> []"
  by (auto simp: nonempty_str_def str_of_def split: jsval.splits)

lemma token_fields_ok:
  assumes "hasValidTokenFields v"
  shows "str_of (field v ''access_token'') \<noteq> []" "is_finite (num_of (field v ''access_expires_at''))"
    "num_lt (Fin 0) (num_of (field v ''access_expires_at''))"
  using assms nonempty_str_of by (auto simp: hasValidTokenFields_def num_of_def split: jsval.splits)

lemma session_sid_ok: "isLoginSession v \<Longrightarrow> ls_sid (session_of v) \<noteq> []"
  using nonempty_str_of by (simp add: isLoginSession_def session_of_def)

lemma parsed_bundle_ok: "parseBundle v = Some b \<Longrightarrow> bundle_ok b"
  using token_fields_ok[of v] session_sid_ok
  by (auto simp: parseBundle_def isAuthBundle_def bundle_ok_def bundle_of_def split: if_splits)

lemma session_ok_simps [simp]:
  "session_ok (setBootstrapState b a) = session_ok a" "session_ok (setUser u a) = session_ok a"
  "session_ok (setPendingLoginVerification q a) = session_ok a" "session_ok (reset b a)"
  by (simp_all add: session_ok_def session_defs)

lemma session_ok_setBundle: "bundle_ok b \<Longrightarrow> session_ok (setBundle b a)"
  by (simp add: session_ok_def setBundle_def bundle_ok_def)

lemma rotation_ok: "applyAuthRotation v c = Inr c' \<Longrightarrow> session_ok (cl_auth c')"
  using token_fields_ok[of v] session_sid_ok[of "field v ''session''"]
  by (auto simp: applyAuthRotation_def isAuthTokenRotation_def bundle_ok_def intro!: session_ok_setBundle
      split: if_splits option.splits)

lemma op_session_ok: "op_ok op \<Longrightarrow> session_ok (cl_auth c) \<Longrightarrow> session_ok (cl_auth (apply_op op c))"
  using rotation_ok by (cases op) (auto simp: session_ok_setBundle split: sum.splits)

lemma verdict_session_ok:
  assumes "run_verdict (refresh_runtime e) n allow resp c = (pc, c')" and "session_ok (cl_auth c)"
  shows "session_ok (cl_auth c') \<and> cl_epoch c \<le> cl_epoch c'"
  using assms parsed_bundle_ok
  by (auto simp: run_verdict_def response_bundle_def run_enter_def Let_def session_ok_setBundle
      split: option.splits if_splits)

lemma response_session_ok:
  assumes "run_response (refresh_runtime e) n allow resp c = (pc, c')" and "session_ok (cl_auth c)"
  shows "session_ok (cl_auth c') \<and> cl_epoch c \<le> cl_epoch c'"
  using assms verdict_session_ok[of e n allow resp c pc c'] by (auto simp: run_response_def split: if_splits)

lemma enter_client: "run_enter rt n allow c = (pc, c') \<Longrightarrow> c' = c"
  by (auto simp: run_enter_def split: if_splits)

lemma flight_epoch_mono: "flight_epoch_ok f e \<Longrightarrow> e \<le> e' \<Longrightarrow> flight_epoch_ok f e'"
  by (auto simp: flight_epoch_ok_def split: option.splits flight.splits)

lemma refresh_page_ok: "page_ok p \<Longrightarrow> page_ok (refreshAuthentication lk p)"
  using enter_bounds(3)[of "refresh_runtime (cl_epoch (pg_client p))" 0 True "pg_client p"]
  by (auto simp: refreshAuthentication_def performRefreshWithBrowserLock_def page_ok_def flight_epoch_ok_def
      runRefresh_def createRefreshRunner_def dest: enter_client split: option.splits lock_call.splits prod.splits)

lemma boot_page_ok: "page_ok (p\<lparr>pg_client := update_auth (setBootstrapState b) (pg_client p)\<rparr>) = page_ok p"
  by (simp add: page_ok_def)

lemma resolve_page_ok: "page_ok p \<Longrightarrow> page_ok (snd (resolveAuthentication lk now p))"
  using refresh_page_ok boot_page_ok
  by (auto simp: resolveAuthentication_def Let_def split: option.splits)

lemma page_step_ok: "page_step p p' \<Longrightarrow> page_ok p \<Longrightarrow> page_ok p'"
proof (induction p p' rule: page_step.induct)
  case (op op p)
  then show ?case
    using op_session_ok[of op "pg_client p"] flight_epoch_mono epoch_apply_op[of "pg_client p" op]
    by (auto simp: page_ok_def)
next
  case (bootstrap p lk doc now)
  then show ?case using resolve_page_ok by (simp add: bootstrapAuthentication_def Let_def)
next
  case (fresh p lk now)
  then show ?case using refresh_page_ok by (simp add: fresh_headers_start_def)
next
  case (refresh p lk)
  then show ?case by (rule refresh_page_ok)
next
  case (resolve p lk now)
  then show ?case by (rule resolve_page_ok)
next
  case (granted p)
  then show ?case
    using enter_bounds(3)[of _ 0 True "pg_client p"]
    by (auto simp: lock_granted_def page_ok_def flight_epoch_ok_def runRefresh_def createRefreshRunner_def
        dest: enter_client split: option.splits flight.splits prod.splits)
next
  case (reply p resp)
  then show ?case
    using response_session_ok response_bounds(3)
    by (fastforce simp: flight_reply_def page_ok_def flight_epoch_ok_def
        split: option.splits flight.splits run_pc.splits prod.splits)
next
  case (timer p)
  then show ?case
    using enter_bounds(3)
    by (fastforce simp: flight_timer_def page_ok_def flight_epoch_ok_def
        dest: enter_client split: option.splits flight.splits run_pc.splits prod.splits)
qed (auto simp: lock_rejected_def flight_settle_def page_ok_def flight_epoch_ok_def
    split: option.splits flight.splits)

lemma reachable_page_ok: "reachable_page p \<Longrightarrow> page_ok p"
proof (induction rule: reachable_page.induct)
  case start
  then show ?case by (simp add: page_ok_def session_ok_def flight_epoch_ok_def initial_client_def initial_auth_def)
qed (rule page_step_ok)

text \<open>
  C14. Credentials stay consistent. In every state a page can reach by logins, rotations, sign-outs,
  refreshes and their answers in any order, the access token, its expiry and the session are all
  present or all absent, a request carries an \<open>Authorization\<close> header exactly when there is a
  session, and the refresh under way, if any, belongs to this or an earlier epoch.
\<close>

theorem reachable_credentials_consistent:
  assumes "reachable_page p"
  shows "session_ok (cl_auth (pg_client p)) \<and> flight_epoch_ok (pg_refresh p) (cl_epoch (pg_client p)) \<and>
    (orec_has (getCommonHeaders (pg_client p)) (js ''Authorization'') \<longleftrightarrow> au_session (cl_auth (pg_client p)) \<noteq> None)"
  using reachable_page_ok[OF assms]
  by (auto simp: page_ok_def session_ok_def getCommonHeaders_def orec_has_def Let_def split: option.splits)

theorem reachable_credentials_consistent_witness:
  "orec_has (getCommonHeaders (applyAuthBundle demo_bundle True initial_client)) (js ''Authorization'')"
proof -
  let ?p = "\<lparr>pg_client = initial_client, pg_refresh = None\<rparr>"
  have "op_ok (ApplyBundle demo_bundle True)" by code_simp
  from reachable_page.step[OF reachable_page.start page_step.op[OF this]]
  have "reachable_page (?p\<lparr>pg_client := apply_op (ApplyBundle demo_bundle True) (pg_client ?p)\<rparr>)" .
  from reachable_credentials_consistent[OF this] show ?thesis by (simp add: setBundle_def)
qed

end
