(* ===== verification/TenantStorage.thy ===== *)
theory TenantStorage
  imports Prelude
begin

text \<open>
  The storage facade of a workspace (\<open>web/src/lib/tenant.ts\<close>): every key is prefixed with the host
  of the page, and enumeration and clearing see only the keys with that prefix. The contract of a
  storage is the locale \<open>item_store\<close>; the browser's storage and the facade over it both satisfy it.
\<close>

section \<open>The browser's storage\<close>

text \<open>
  A \<open>Storage\<close> of the browser keeps its items in an order; writing an existing key keeps its place.
  Its quota is not part of the model.
\<close>

type_synonym web_storage = "(jsstr, jsstr) orec"

definition storage_get :: "web_storage \<Rightarrow> jsstr \<Rightarrow> jsstr option" where
  "storage_get s k = map_of s k"

definition storage_remove :: "jsstr \<Rightarrow> web_storage \<Rightarrow> web_storage" where
  "storage_remove k s = filter (\<lambda>(k', _). k' \<noteq> k) s"

definition storage_wf :: "web_storage \<Rightarrow> bool" where
  "storage_wf s \<longleftrightarrow> distinct (map fst s)"

section \<open>The facade\<close>

text \<open>The state is missing where \<open>globalThis.localStorage\<close> is missing or throws.\<close>

definition scoped_keys :: "jsstr \<Rightarrow> web_storage option \<Rightarrow> jsstr list" where
  "scoped_keys prefix st =
     (case st of None \<Rightarrow> [] | Some current \<Rightarrow> filter (starts_with prefix) (orec_keys current))"

definition scoped_length :: "jsstr \<Rightarrow> web_storage option \<Rightarrow> int" where
  "scoped_length prefix st = slen (scoped_keys prefix st)"

definition scoped_key :: "jsstr \<Rightarrow> web_storage option \<Rightarrow> int \<Rightarrow> jsstr option" where
  "scoped_key prefix st index =
     (if 0 \<le> index \<and> index < slen (scoped_keys prefix st)
      then Some (idrop (slen prefix) (scoped_keys prefix st ! nat index)) else None)"

definition scoped_getItem :: "jsstr \<Rightarrow> web_storage option \<Rightarrow> jsstr \<Rightarrow> jsstr option" where
  "scoped_getItem prefix st k = (case st of None \<Rightarrow> None | Some s \<Rightarrow> storage_get s (prefix @ k))"

definition scoped_setItem :: "jsstr \<Rightarrow> jsstr \<Rightarrow> jsstr \<Rightarrow> web_storage option \<Rightarrow> web_storage option" where
  "scoped_setItem prefix k v st = map_option (orec_set (prefix @ k) v) st"

definition scoped_removeItem :: "jsstr \<Rightarrow> jsstr \<Rightarrow> web_storage option \<Rightarrow> web_storage option" where
  "scoped_removeItem prefix k st = map_option (storage_remove (prefix @ k)) st"

definition scoped_clear :: "jsstr \<Rightarrow> web_storage option \<Rightarrow> web_storage option" where
  "scoped_clear prefix st = foldl (\<lambda>st k. map_option (storage_remove k) st) st (scoped_keys prefix st)"

definition tenantStorageHost :: "jsstr option \<Rightarrow> jsstr" where
  "tenantStorageHost window_host =
     (case window_host of Some h \<Rightarrow> if h = [] then js ''platform'' else h | None \<Rightarrow> js ''platform'')"

definition tenantKey :: "jsstr option \<Rightarrow> jsstr \<Rightarrow> jsstr" where
  "tenantKey window_host key = js ''new-api:'' @ tenantStorageHost window_host @ js '':'' @ key"

text \<open>One operation through \<open>tenantStorage\<close> of a page.\<close>

datatype storage_op = SetItem jsstr jsstr | RemoveItem jsstr | ClearItems

fun tenant_op :: "jsstr option \<Rightarrow> storage_op \<Rightarrow> web_storage option \<Rightarrow> web_storage option" where
  "tenant_op h (SetItem k v) st = scoped_setItem (tenantKey h []) k v st"
| "tenant_op h (RemoveItem k) st = scoped_removeItem (tenantKey h []) k st"
| "tenant_op h ClearItems st = scoped_clear (tenantKey h []) st"

section \<open>The contract\<close>

locale item_store =
  fixes wf :: "'s \<Rightarrow> bool"
    and get :: "'s \<Rightarrow> jsstr \<Rightarrow> jsstr option"
    and set_item :: "jsstr \<Rightarrow> jsstr \<Rightarrow> 's \<Rightarrow> 's"
    and remove :: "jsstr \<Rightarrow> 's \<Rightarrow> 's"
    and keys :: "'s \<Rightarrow> jsstr list"
  assumes wf_set: "wf s \<Longrightarrow> wf (set_item k v s)"
    and wf_remove: "wf s \<Longrightarrow> wf (remove k s)"
    and get_set: "wf s \<Longrightarrow> get (set_item k v s) k' = (if k' = k then Some v else get s k')"
    and get_remove: "wf s \<Longrightarrow> get (remove k s) k' = (if k' = k then None else get s k')"
    and keys_get: "wf s \<Longrightarrow> k \<in> set (keys s) \<longleftrightarrow> get s k \<noteq> None"
    and keys_distinct: "wf s \<Longrightarrow> distinct (keys s)"
begin

lemma wf_remove_all: "wf s \<Longrightarrow> wf (foldl (\<lambda>s k. remove k s) s ks)"
  by (induction ks arbitrary: s) (auto simp: wf_remove)

lemma get_remove_all:
  "wf s \<Longrightarrow> get (foldl (\<lambda>s k. remove k s) s ks) k = (if k \<in> set ks then None else get s k)"
  by (induction ks arbitrary: s) (auto simp: wf_remove get_remove)

lemma keys_set_length:
  assumes "wf s"
  shows "length (keys (set_item k v s)) = (if get s k = None then Suc (length (keys s)) else length (keys s))"
proof -
  have "set (keys (set_item k v s)) = insert k (set (keys s))"
    using assms wf_set by (auto simp: keys_get get_set split: if_splits)
  then have "card (set (keys (set_item k v s))) = card (insert k (set (keys s)))" by simp
  then show ?thesis
    using assms wf_set keys_get[of s k] by (simp add: distinct_card keys_distinct card_insert_if)
qed

end

lemma map_of_filter_key: "map_of (filter (\<lambda>(k', _). k' \<noteq> k) s) k' = (if k' = k then None else map_of s k')"
  by (induction s) auto

interpretation browser: item_store storage_wf storage_get orec_set storage_remove orec_keys
proof
  fix s :: web_storage and k k' v
  show "storage_wf s \<Longrightarrow> storage_wf (orec_set k v s)" by (simp add: storage_wf_def distinct_orec_set)
  show "storage_wf s \<Longrightarrow> storage_wf (storage_remove k s)"
    by (simp add: storage_wf_def storage_remove_def distinct_map_filter)
  show "storage_get (orec_set k v s) k' = (if k' = k then Some v else storage_get s k')"
    by (simp add: storage_get_def map_of_orec_set)
  show "storage_get (storage_remove k s) k' = (if k' = k then None else storage_get s k')"
    by (simp add: storage_get_def storage_remove_def map_of_filter_key)
  show "k \<in> set (orec_keys s) \<longleftrightarrow> storage_get s k \<noteq> None"
    by (simp add: orec_keys_def storage_get_def map_of_eq_None_iff)
  show "storage_wf s \<Longrightarrow> distinct (orec_keys s)" by (simp add: storage_wf_def orec_keys_def)
qed

section \<open>The facade satisfies the contract\<close>

definition scoped_wf :: "web_storage option \<Rightarrow> bool" where
  "scoped_wf st = (case st of None \<Rightarrow> False | Some s \<Rightarrow> storage_wf s)"

text \<open>The keys a page sees: \<open>key(0)\<close>, \<open>key(1)\<close> and so on.\<close>

definition scoped_names :: "jsstr \<Rightarrow> web_storage option \<Rightarrow> jsstr list" where
  "scoped_names prefix st = map (idrop (slen prefix)) (scoped_keys prefix st)"

lemma scoped_wfE:
  assumes "scoped_wf st"
  obtains s where "st = Some s" "storage_wf s"
  using assms by (auto simp: scoped_wf_def split: option.splits)

lemma scoped_names_mem:
  assumes "storage_wf s"
  shows "k \<in> set (scoped_names p (Some s)) \<longleftrightarrow> p @ k \<in> set (orec_keys s)"
  by (force simp: scoped_names_def scoped_keys_def starts_with_iff idrop_drop slen_length)

lemma scoped_names_distinct: "storage_wf s \<Longrightarrow> distinct (scoped_names p (Some s))"
  by (auto simp: scoped_names_def scoped_keys_def distinct_map inj_on_def starts_with_iff idrop_drop slen_length
      browser.keys_distinct)

interpretation scoped: item_store scoped_wf "scoped_getItem p" "scoped_setItem p" "scoped_removeItem p" "scoped_names p"
  for p
proof
  fix st k k' v
  assume "scoped_wf st"
  then obtain s where s: "st = Some s" "storage_wf s" by (rule scoped_wfE)
  show "scoped_wf (scoped_setItem p k v st)" "scoped_wf (scoped_removeItem p k st)"
    using s browser.wf_set browser.wf_remove by (simp_all add: scoped_wf_def scoped_setItem_def scoped_removeItem_def)
  show "scoped_getItem p (scoped_setItem p k v st) k' = (if k' = k then Some v else scoped_getItem p st k')"
    using s by (simp add: scoped_getItem_def scoped_setItem_def browser.get_set)
  show "scoped_getItem p (scoped_removeItem p k st) k' = (if k' = k then None else scoped_getItem p st k')"
    using s by (simp add: scoped_getItem_def scoped_removeItem_def browser.get_remove)
  show "k \<in> set (scoped_names p st) \<longleftrightarrow> scoped_getItem p st k \<noteq> None"
    using s scoped_names_mem[OF s(2)] by (simp add: scoped_getItem_def browser.keys_get)
  show "distinct (scoped_names p st)" using s scoped_names_distinct by simp
qed

lemma scoped_key_name:
  "scoped_key p st i = (if 0 \<le> i \<and> i < scoped_length p st then Some (scoped_names p st ! nat i) else None)"
  by (auto simp: scoped_key_def scoped_length_def scoped_names_def slen_length nth_map)

lemma scoped_key_mem: "(\<exists>i. scoped_key p st i = Some k) \<longleftrightarrow> k \<in> set (scoped_names p st)"
proof -
  have n: "scoped_length p st = int (length (scoped_names p st))"
    by (simp add: scoped_length_def scoped_names_def slen_length)
  show ?thesis
  proof
    assume "\<exists>i. scoped_key p st i = Some k"
    then show "k \<in> set (scoped_names p st)" by (auto simp: scoped_key_name n split: if_splits)
  next
    assume "k \<in> set (scoped_names p st)"
    then obtain j where "j < length (scoped_names p st)" "scoped_names p st ! j = k" by (auto simp: in_set_conv_nth)
    then have "scoped_key p st (int j) = Some k" by (simp add: scoped_key_name n)
    then show "\<exists>i. scoped_key p st i = Some k" ..
  qed
qed

lemma foldl_map_option: "foldl (\<lambda>st k. map_option (f k) st) (Some s) ks = Some (foldl (\<lambda>s k. f k s) s ks)"
  by (induction ks arbitrary: s) auto

lemma scoped_clear_Some:
  "scoped_clear p (Some s) = Some (foldl (\<lambda>s k. storage_remove k s) s (filter (starts_with p) (orec_keys s)))"
  by (simp add: scoped_clear_def scoped_keys_def foldl_map_option)

lemma scoped_clear_wf: "scoped_wf st \<Longrightarrow> scoped_wf (scoped_clear p st)"
  by (erule scoped_wfE) (simp add: scoped_clear_Some scoped_wf_def browser.wf_remove_all)

lemma clear_get:
  assumes "storage_wf s"
  shows "storage_get (foldl (\<lambda>s k. storage_remove k s) s (filter (starts_with p) (orec_keys s))) k =
    (if starts_with p k then None else storage_get s k)"
  using browser.get_remove_all[OF assms] browser.keys_get[OF assms, of k] by auto

section \<open>Workspaces apart\<close>

lemma tenant_op_wf: "scoped_wf st \<Longrightarrow> scoped_wf (tenant_op h op st)"
  by (cases op) (simp_all add: scoped.wf_set scoped.wf_remove scoped_clear_wf)

text \<open>An operation through one prefix leaves the keys outside it alone.\<close>

lemma tenant_op_frame:
  assumes "scoped_wf st" and "\<not> starts_with (tenantKey h []) key"
  shows "scoped_getItem [] (tenant_op h op st) key = scoped_getItem [] st key"
proof -
  obtain s where s: "st = Some s" "storage_wf s" using assms(1) by (rule scoped_wfE)
  have ne: "key \<noteq> tenantKey h [] @ k" for k using assms(2) by auto
  show ?thesis
    using s ne assms(2)
    by (cases op)
      (simp_all add: scoped_getItem_def scoped_setItem_def scoped_removeItem_def scoped_clear_Some
        browser.get_set browser.get_remove clear_get)
qed

lemma tenant_ops_frame:
  assumes "scoped_wf st" and "\<not> starts_with (tenantKey h []) key"
  shows "scoped_getItem [] (foldl (\<lambda>st op. tenant_op h op st) st ops) key = scoped_getItem [] st key"
  using assms by (induction ops arbitrary: st) (simp_all add: tenant_op_frame tenant_op_wf)

text \<open>Two prefixes have a key in common exactly when one of them starts with the other.\<close>

lemma tenantKey_append: "tenantKey h k = tenantKey h [] @ k"
  by (simp add: tenantKey_def)

lemma tenant_prefix_iff:
  "starts_with (tenantKey h []) (tenantKey h' []) \<longleftrightarrow>
   starts_with (tenantStorageHost h @ js '':'') (tenantStorageHost h' @ js '':'')"
  by (simp add: tenantKey_def starts_with_iff)

lemma tenant_keys_apart:
  assumes "\<not> starts_with (tenantKey h []) (tenantKey h' [])" and "\<not> starts_with (tenantKey h' []) (tenantKey h [])"
  shows "\<not> starts_with (tenantKey h []) (tenantKey h' k)"
proof
  assume "starts_with (tenantKey h []) (tenantKey h' k)"
  then obtain r where "tenantKey h' [] @ k = tenantKey h [] @ r" using tenantKey_append[of h' k] by (auto simp: starts_with_iff)
  then obtain us where "tenantKey h' [] = tenantKey h [] @ us \<or> tenantKey h' [] @ us = tenantKey h []"
    unfolding append_eq_append_conv2 by blast
  with assms show False unfolding starts_with_iff by metis
qed

lemma tenant_shared_key:
  assumes "starts_with (tenantKey h []) (tenantKey h' []) \<or> starts_with (tenantKey h' []) (tenantKey h [])"
  obtains k k' where "tenantKey h k = tenantKey h' k'"
proof -
  from assms obtain r where "tenantKey h' [] = tenantKey h [] @ r \<or> tenantKey h [] = tenantKey h' [] @ r"
    by (auto simp: starts_with_iff)
  then have "tenantKey h r = tenantKey h' [] \<or> tenantKey h [] = tenantKey h' r"
    using tenantKey_append[of h r] tenantKey_append[of h' r] by auto
  then show thesis using that by blast
qed

text \<open>
  C23. When workspaces share one browser storage, no sequence of writes, removals and clears through
  the facade of one host changes what the facade of another host reads, exactly when neither host
  is the other one or the other one followed by a colon. So two host names, and two hosts with
  different ports, are isolated from each other, but a host without a port and the same host with
  a port are not.
\<close>

theorem tenant_storage_isolated:
  "(\<forall>st ops k. scoped_wf st \<longrightarrow>
      scoped_getItem (tenantKey h' []) (foldl (\<lambda>st op. tenant_op h op st) st ops) k = scoped_getItem (tenantKey h' []) st k) \<longleftrightarrow>
   \<not> starts_with (tenantStorageHost h @ js '':'') (tenantStorageHost h' @ js '':'') \<and>
   \<not> starts_with (tenantStorageHost h' @ js '':'') (tenantStorageHost h @ js '':'')"
  (is "?isolated \<longleftrightarrow> ?apart")
proof
  have read: "scoped_getItem (tenantKey h' []) st k = scoped_getItem [] st (tenantKey h' k)" for st k
    unfolding scoped_getItem_def tenantKey_append[of h' k] append.append_Nil by (rule refl)
  show ?isolated if ?apart
    using tenant_ops_frame[OF _ tenant_keys_apart] that unfolding read tenant_prefix_iff by blast
  show ?apart if iso: ?isolated
  proof (rule ccontr)
    assume "\<not> ?apart"
    then obtain k k' where k: "tenantKey h k = tenantKey h' k'"
      using tenant_shared_key[of h h'] unfolding tenant_prefix_iff by blast
    have "scoped_wf (Some [])" by (simp add: scoped_wf_def storage_wf_def)
    from iso[rule_format, OF this, of "[SetItem k []]" k'] k tenantKey_append[of h k] show False
      unfolding read by (simp add: scoped_getItem_def scoped_setItem_def storage_get_def)
  qed
qed

definition demo_storage :: web_storage where
  "demo_storage = [(tenantKey (Some (js ''a.example'')) (js ''theme''), js ''dark''),
     (tenantKey (Some (js ''b.example'')) (js ''theme''), js ''light'')]"

theorem tenant_storage_isolated_witness:
  "scoped_getItem (tenantKey (Some (js ''b.example'')) [])
     (tenant_op (Some (js ''a.example'')) ClearItems (Some demo_storage)) (js ''theme'') = Some (js ''light'') \<and>
   \<not> (\<forall>st ops k. scoped_wf st \<longrightarrow>
      scoped_getItem (tenantKey (Some (js ''localhost:3000'')) []) (foldl (\<lambda>st op. tenant_op (Some (js ''localhost'')) op st) st ops) k =
      scoped_getItem (tenantKey (Some (js ''localhost:3000'')) []) st k)"
proof -
  have w: "scoped_wf (Some demo_storage)" by code_simp
  have r: "scoped_getItem (tenantKey (Some (js ''b.example'')) []) (Some demo_storage) (js ''theme'') = Some (js ''light'')"
    by code_simp
  have "\<not> starts_with (tenantStorageHost (Some (js ''a.example'')) @ js '':'') (tenantStorageHost (Some (js ''b.example'')) @ js '':'') \<and>
    \<not> starts_with (tenantStorageHost (Some (js ''b.example'')) @ js '':'') (tenantStorageHost (Some (js ''a.example'')) @ js '':'')"
    by code_simp
  from tenant_storage_isolated[THEN iffD2, OF this, rule_format, OF w, of "[ClearItems]" "js ''theme''"] r
  have "scoped_getItem (tenantKey (Some (js ''b.example'')) [])
     (tenant_op (Some (js ''a.example'')) ClearItems (Some demo_storage)) (js ''theme'') = Some (js ''light'')"
    by (simp del: tenant_op.simps)
  moreover have "starts_with (tenantStorageHost (Some (js ''localhost'')) @ js '':'') (tenantStorageHost (Some (js ''localhost:3000'')) @ js '':'')"
    by code_simp
  ultimately show ?thesis using tenant_storage_isolated[of "Some (js ''localhost:3000'')" "Some (js ''localhost'')"] by blast
qed

text \<open>
  C24. The facade is a storage of its own. After clearing it nothing of the workspace is left and the
  keys of everyone else are as before, and on any well-formed storage a key is enumerated exactly
  when it can be read, without its prefix.
\<close>

theorem tenant_clear_exact:
  assumes "scoped_wf st"
  shows "scoped_length p (scoped_clear p st) = 0 \<and> scoped_getItem p (scoped_clear p st) k = None \<and>
    (starts_with p key \<or> scoped_getItem [] (scoped_clear p st) key = scoped_getItem [] st key) \<and>
    ((\<exists>i. scoped_key p st i = Some k) \<longleftrightarrow> scoped_getItem p st k \<noteq> None)"
proof -
  obtain s where s: "st = Some s" "storage_wf s" using assms by (rule scoped_wfE)
  have g: "scoped_getItem p (scoped_clear p st) k = None" for k
    using s by (simp add: scoped_clear_Some scoped_getItem_def clear_get)
  then have "scoped_names p (scoped_clear p st) = []"
    using scoped.keys_get[OF scoped_clear_wf[OF assms], of _ p] by (metis list.set_intros(1) neq_Nil_conv)
  then have "scoped_length p (scoped_clear p st) = 0" by (simp add: scoped_length_def scoped_names_def)
  moreover have "starts_with p key \<or> scoped_getItem [] (scoped_clear p st) key = scoped_getItem [] st key"
    using s by (simp add: scoped_clear_Some scoped_getItem_def clear_get)
  moreover have "(\<exists>i. scoped_key p st i = Some k) \<longleftrightarrow> k \<in> set (scoped_names p st)"
    using scoped_key_mem[of p st k] by simp
  ultimately show ?thesis using g scoped.keys_get[OF assms, of k p] by simp
qed

theorem tenant_clear_exact_witness:
  "scoped_getItem (tenantKey (Some (js ''a.example'')) [])
     (scoped_clear (tenantKey (Some (js ''a.example'')) []) (Some demo_storage)) (js ''theme'') = None"
proof -
  have w: "scoped_wf (Some demo_storage)" by code_simp
  show ?thesis using tenant_clear_exact[OF w] by blast
qed

end
