(* ===== verification/HttpFacts.thy ===== *)
theory HttpFacts
  imports HttpClient
begin

text \<open>
  Facts on requests and tabs: how often a request is sent, what the deduplication of GET requests
  keeps apart, how URLs stay on the host of the page, and how a sign-out reaches the other tabs.
\<close>

section \<open>A request among other events\<close>

datatype exchange_label = Send | PageMoves | Answer

inductive exchange_step :: "exchange \<times> page \<Rightarrow> exchange_label \<Rightarrow> exchange \<times> page \<Rightarrow> bool" where
  page: "page_step p p' \<Longrightarrow> exchange_step (x, p) PageMoves (x, p')"
| prepared: "request_interceptor lk now cfg p = (OnWire cfg', p') \<Longrightarrow> exchange_step (Preparing cfg, p) Send (OnWire cfg', p')"
| held: "request_interceptor lk now cfg p = (FreshWait cfg', p') \<Longrightarrow> exchange_step (Preparing cfg, p) PageMoves (FreshWait cfg', p')"
| fresh: "fresh_resume r now cfg (pg_client p) = OnWire cfg' \<Longrightarrow> exchange_step (FreshWait cfg, p) Send (OnWire cfg', p)"
| stale: "fresh_resume r now cfg (pg_client p) = Failed f \<Longrightarrow> exchange_step (FreshWait cfg, p) PageMoves (Failed f, p)"
| received: "response_received cfg body (pg_client p) = (x', c') \<Longrightarrow>
    exchange_step (OnWire cfg, p) Answer (x', p\<lparr>pg_client := c'\<rparr>)"
| failed: "response_failed path lk cfg status p = (x', p', fx) \<Longrightarrow> exchange_step (OnWire cfg, p) Answer (x', p')"
| refreshed: "refresh_resume path r cfg (pg_client p) = (x', fx) \<Longrightarrow> exchange_step (RefreshWait cfg, p) PageMoves (x', p)"

inductive exchange_steps :: "exchange \<times> page \<Rightarrow> exchange_label list \<Rightarrow> exchange \<times> page \<Rightarrow> bool" where
  none: "exchange_steps s [] s"
| more: "exchange_steps s ls s' \<Longrightarrow> exchange_step s' l s'' \<Longrightarrow> exchange_steps s (ls @ [l]) s''"

definition replayable :: "request_config \<Rightarrow> bool" where
  "replayable cfg \<longleftrightarrow> \<not> cf_skipAuthRefresh cfg \<and> \<not> cf_authRetry cfg \<and>
     \<not> cf_singleUseAuthorization cfg \<and> cf_securityProof cfg = None"

text \<open>How often a request can still be sent.\<close>

fun sends_left :: "exchange \<Rightarrow> nat" where
  "sends_left (Preparing cfg) = (if replayable cfg then 2 else 1)"
| "sends_left (FreshWait cfg) = (if cf_skipAuthRefresh cfg \<or> cf_authRetry cfg then 1 else 2)"
| "sends_left (OnWire cfg) = (if cf_skipAuthRefresh cfg \<or> cf_authRetry cfg then 0 else 1)"
| "sends_left (RefreshWait cfg) = (if cf_authRetry cfg then 1 else 2)"
| "sends_left _ = 0"

abbreviation sends :: "exchange_label list \<Rightarrow> nat" where
  "sends ls \<equiv> length (filter (\<lambda>l. l = Send) ls)"

lemma tenant_url_flags [simp]:
  "cf_skipAuthRefresh (applyTenantRequestURL cfg) = cf_skipAuthRefresh cfg"
  "cf_authRetry (applyTenantRequestURL cfg) = cf_authRetry cfg"
  "cf_singleUseAuthorization (applyTenantRequestURL cfg) = cf_singleUseAuthorization cfg"
  "cf_securityProof (applyTenantRequestURL cfg) = cf_securityProof cfg"
  by (simp_all add: applyTenantRequestURL_def Let_def)

lemma header_flags [simp]:
  "cf_skipAuthRefresh (set_headers hs cfg) = cf_skipAuthRefresh cfg"
  "cf_authRetry (set_headers hs cfg) = cf_authRetry cfg"
  "cf_skipAuthRefresh (bearer c cfg) = cf_skipAuthRefresh cfg"
  "cf_authRetry (bearer c cfg) = cf_authRetry cfg"
  by (simp_all add: set_headers_def bearer_def split: option.splits)

lemma interceptor_sends:
  assumes "request_interceptor lk now cfg p = (x, p')"
  shows "(case x of OnWire _ \<Rightarrow> Suc (sends_left x) | _ \<Rightarrow> sends_left x) \<le> sends_left (Preparing cfg)"
  using assms by (auto simp: request_interceptor_def replayable_def Let_def split: if_splits option.splits prod.splits)

lemma exchange_step_sends:
  assumes "exchange_step (x, p) l (x', p')"
  shows "sends [l] + sends_left x' \<le> sends_left x"
  using assms
proof (cases rule: exchange_step.cases)
  case (prepared lk now cfg cfg')
  then show ?thesis using interceptor_sends[of lk now cfg p "OnWire cfg'" p'] by simp
next
  case (held lk now cfg cfg')
  then show ?thesis using interceptor_sends[of lk now cfg p "FreshWait cfg'" p'] by simp
next
  case fresh
  then show ?thesis by (auto simp: fresh_resume_def split: sum.splits)
next
  case received
  then show ?thesis by (auto simp: response_received_def split: if_splits sum.splits)
next
  case failed
  then show ?thesis by (auto simp: response_failed_def Let_def split: if_splits)
next
  case refreshed
  then show ?thesis
    by (auto simp: refresh_resume_def replayable_def Let_def split: sum.splits refresh_outcome.splits)
qed auto

lemma exchange_steps_sends:
  "exchange_steps s ls s' \<Longrightarrow> sends ls + sends_left (fst s') \<le> sends_left (fst s)"
proof (induction rule: exchange_steps.induct)
  case (more s ls s' l s'')
  then show ?case using exchange_step_sends[of "fst s'" "snd s'" l "fst s''" "snd s''"] by (auto split: if_splits)
qed simp

text \<open>
  C13. A request is sent at most twice, and one that spends a single-use authorisation at most once.
  Whatever answers come, however the session of the page changes meanwhile and however the
  refreshes end, only an ordinary request is replayed after a 401, once; a request marked single
  use or carrying a security proof is never replayed.
\<close>

theorem request_send_bound:
  assumes "exchange_steps (Preparing cfg, p) ls (x, p')"
  shows "sends ls \<le> 2 \<and>
    (cf_singleUseAuthorization cfg \<or> cf_securityProof cfg \<noteq> None \<or> cf_skipAuthRefresh cfg \<longrightarrow> sends ls \<le> 1)"
  using exchange_steps_sends[OF assms] by (auto simp: replayable_def split: if_splits)

definition demo_single :: request_config where
  "demo_single = \<lparr>cf_url = Some (js ''/api/user/2fa/disable''), cf_baseURL = None, cf_authorization = None,
     cf_contentType = None, cf_securityProof = Some (js ''proof''), cf_skipErrorHandler = False,
     cf_skipAuthRefresh = False, cf_authRetry = False, cf_acceptAuthRotation = True, cf_singleUseAuthorization = True\<rparr>"

definition demo_page :: page where
  "demo_page = \<lparr>pg_client = applyAuthBundle demo_bundle True initial_client, pg_refresh = None\<rparr>"

definition demo_sent :: request_config where
  "demo_sent = set_headers (getCommonHeaders (pg_client demo_page))
     ((applyTenantRequestURL demo_single)\<lparr>cf_skipAuthRefresh := True\<rparr>)"

theorem request_send_bound_witness:
  "\<exists>x p. exchange_steps (Preparing demo_single, demo_page) [Send, Answer] (x, p) \<and> sends [Send, Answer] \<le> 1"
proof -
  have r: "request_interceptor NoLocks (Fin 0) demo_single demo_page = (OnWire demo_sent, demo_page)"
    by code_simp
  obtain x p fx where f: "response_failed None NoLocks demo_sent 401 demo_page = (x, p, fx)"
    by (cases "response_failed None NoLocks demo_sent 401 demo_page")
  have "exchange_steps (Preparing demo_single, demo_page) (([] @ [Send]) @ [Answer]) (x, p)"
    by (rule exchange_steps.more[OF exchange_steps.more[OF exchange_steps.none
            exchange_step.prepared[OF r]] exchange_step.failed[OF f]])
  then have s: "exchange_steps (Preparing demo_single, demo_page) [Send, Answer] (x, p)" by simp
  have "cf_singleUseAuthorization demo_single" by (simp add: demo_single_def)
  with request_send_bound[OF s] s show ?thesis by blast
qed

section \<open>Shared GET requests\<close>

inductive reachable_gets :: "get_state \<Rightarrow> bool" where
  start: "reachable_gets \<lparr>gs_inFlight = [], gs_sent = 0\<rparr>"
| get: "reachable_gets st \<Longrightarrow> api_get dup sid url params st = (r, st') \<Longrightarrow> reachable_gets st'"
| finished: "reachable_gets st \<Longrightarrow> reachable_gets (get_finished key st)"

definition gets_ok :: "get_state \<Rightarrow> bool" where
  "gets_ok st \<longleftrightarrow> distinct (map fst (gs_inFlight st)) \<and> distinct (map snd (gs_inFlight st)) \<and>
     (\<forall>r \<in> snd ` set (gs_inFlight st). r < gs_sent st)"

lemma api_get_ok: "gets_ok st \<Longrightarrow> api_get dup sid url params st = (r, st') \<Longrightarrow> gets_ok st'"
  by (fastforce simp: api_get_def gets_ok_def orec_set_new map_of_eq_None_iff Let_def split: if_splits option.splits)

lemma reachable_gets_ok: "reachable_gets st \<Longrightarrow> gets_ok st"
proof (induction rule: reachable_gets.induct)
  case (get st dup sid url params r st')
  then show ?case using api_get_ok by blast
next
  case (finished st key)
  then show ?case by (auto simp: gets_ok_def get_finished_def distinct_map_filter)
qed (simp add: gets_ok_def)

lemma map_of_snd_inj:
  "distinct (map snd xs) \<Longrightarrow> map_of xs k = Some r \<Longrightarrow> map_of xs k' = Some r \<Longrightarrow> k = k'"
  by (drule map_of_SomeD)+ (force simp: distinct_map inj_on_def)

text \<open>The request a deduplicated call gets is in flight under its key afterwards.\<close>

lemma api_get_in_flight:
  assumes "api_get False sid url params st = (r, st')"
  shows "map_of (gs_inFlight st') (get_key sid url params) = Some r"
  using assms by (auto simp: api_get_def map_of_orec_set Let_def split: option.splits)

lemma get_key_sid:
  assumes "get_key (Some s) url params = get_key (Some s') url' params'"
    and "s \<noteq> []" "s' \<noteq> []" "58 \<notin> set s" "58 \<notin> set s'"
  shows "s = s'"
  using assms append_sep_inj[of s 58 _ s'] by (simp add: get_key_def js_Cons)

text \<open>
  C22. Sharing of GET requests never crosses sessions: while the request a session got for a URL is
  under way, a call from another session gets a different request, for every pair of URLs and
  parameters and in every state the deduplication can reach. A session identifier has no colon.
\<close>

theorem get_sharing_within_session:
  assumes "reachable_gets st" and "api_get False (Some s) url params st = (r, st1)"
    and "api_get False (Some s') url' params' st1 = (r', st2)"
    and "s \<noteq> s'" and "s \<noteq> []" "s' \<noteq> []" "58 \<notin> set s" "58 \<notin> set s'"
  shows "r \<noteq> r'"
proof
  assume eq: "r = r'"
  have ok: "gets_ok st2" using assms(1-3) reachable_gets_ok reachable_gets.get by metis
  have r1: "map_of (gs_inFlight st1) (get_key (Some s) url params) = Some r"
    by (rule api_get_in_flight[OF assms(2)])
  have ne: "get_key (Some s) url params \<noteq> get_key (Some s') url' params'"
    using get_key_sid assms(4-8) by blast
  have "map_of (gs_inFlight st2) (get_key (Some s) url params) = Some r"
    using assms(3) r1 ne by (auto simp: api_get_def map_of_orec_set Let_def split: option.splits)
  with api_get_in_flight[OF assms(3)] eq ne show False
    using map_of_snd_inj[of "gs_inFlight st2"] ok by (auto simp: gets_ok_def)
qed

theorem get_sharing_within_session_witness:
  "fst (api_get False (Some (js ''session-a'')) (js ''/api/user/self'') None \<lparr>gs_inFlight = [], gs_sent = 0\<rparr>) \<noteq>
   fst (api_get False (Some (js ''session-b'')) (js ''/api/user/self'') None
     (snd (api_get False (Some (js ''session-a'')) (js ''/api/user/self'') None \<lparr>gs_inFlight = [], gs_sent = 0\<rparr>)))"
  by (rule get_sharing_within_session[OF reachable_gets.start prod.collapse[symmetric] prod.collapse[symmetric]])
    (simp_all add: js_Cons)

section \<open>URLs\<close>

lemma slash_not_absolute: "starts_with (js ''/'') u \<Longrightarrow> \<not> starts_with (js ''//'') u \<Longrightarrow> \<not> absolute_url u"
  by (cases u) (auto simp: absolute_url_def js_Cons is_alpha_def)

text \<open>
  C25. A relative URL stays on the host of the page: unless the URL or the base URL it came with is
  absolute, the rewritten request has the root as its base and a path that starts with one slash
  and is not absolute, and rewriting it once more, as a replay does, changes nothing.
\<close>

theorem relative_url_stays_on_host:
  assumes "cf_url cfg = Some u" and "u \<noteq> []" and "\<not> absolute_url u"
    and "cf_baseURL cfg = None \<or> (\<exists>b. cf_baseURL cfg = Some b \<and> \<not> absolute_url b)"
  shows "(\<exists>v. cf_url (applyTenantRequestURL cfg) = Some v \<and> starts_with (js ''/'') v \<and> \<not> absolute_url v) \<and>
    cf_baseURL (applyTenantRequestURL cfg) = Some (js ''/'') \<and>
    applyTenantRequestURL (applyTenantRequestURL cfg) = applyTenantRequestURL cfg"
proof -
  define v where "v = (if starts_with (js ''/'') u then u else js ''/'' @ u)"
  have nd: "\<not> starts_with (js ''//'') u" using assms(3) by (auto simp: absolute_url_def)
  have v: "starts_with (js ''/'') v" "v \<noteq> []" by (auto simp: v_def js_Cons)
  have "\<not> starts_with (js ''//'') v"
    using nd assms(2) by (cases u) (auto simp: v_def js_Cons split: if_splits)
  then have va: "\<not> absolute_url v" by (rule slash_not_absolute[OF v(1)])
  have e: "applyTenantRequestURL cfg = cfg\<lparr>cf_url := Some v, cf_baseURL := Some (js ''/'')\<rparr>"
    using assms by (auto simp: applyTenantRequestURL_def v_def)
  have "\<not> absolute_url (js ''/'')" by (rule slash_not_absolute) (simp_all add: js_Cons)
  then have "applyTenantRequestURL (cfg\<lparr>cf_url := Some v, cf_baseURL := Some (js ''/'')\<rparr>) =
      cfg\<lparr>cf_url := Some v, cf_baseURL := Some (js ''/'')\<rparr>"
    using v va by (simp add: applyTenantRequestURL_def)
  with e v va show ?thesis by simp
qed

theorem relative_url_stays_on_host_witness:
  "cf_baseURL (applyTenantRequestURL demo_single) = Some (js ''/'')"
proof -
  have "cf_url demo_single = Some (js ''/api/user/2fa/disable'')" "cf_baseURL demo_single = None"
    by (simp_all add: demo_single_def)
  moreover have "\<not> absolute_url (js ''/api/user/2fa/disable'')" by code_simp
  ultimately show ?thesis using relative_url_stays_on_host[of demo_single] by simp
qed

section \<open>Sign-out across tabs\<close>

lemma field_event [simp]:
  "field (event_value e) ''kind'' = VStr (kind_text (ev_kind e))"
  "field (event_value e) ''sid'' = VStr (ev_sid e)"
  "field (event_value e) ''source'' = VStr (ev_source e)"
  "field (event_value e) ''nonce'' = VStr (ev_nonce e)"
  "field (event_value e) ''timestamp'' = VNum (ev_timestamp e)"
  by (simp_all add: field_def event_value_def)

lemma event_round_trip: "event_of (event_value e) = e"
  by (cases e) (simp add: event_of_def str_of_def num_of_def kind_text_def split: sync_kind.splits)

lemma event_record [simp]: "isRecord (event_value e)"
  by (simp add: isRecord_def event_value_def)

lemma event_accepted: "ev_sid e \<noteq> [] \<Longrightarrow> isAuthSessionSyncEvent (event_value e)"
  by (simp add: isAuthSessionSyncEvent_def nonempty_str_def is_str_def is_num_def kind_text_def split: sync_kind.splits)

lemma deliver_event:
  assumes "ev_sid e \<noteq> []"
  shows "deliver tb now (event_value e) =
    (if ev_source e \<noteq> tab_source tb \<and> num_lt (num_abs (num_sub now (ev_timestamp e))) (Fin 60000) then Some e else None)"
  using event_accepted[OF assms] by (simp add: deliver_def event_round_trip)

lemma handler_silent: "cl_published (fst (handle_sync_event ev c)) = cl_published c"
  by (auto simp: handle_sync_event_def session_defs split: sync_kind.splits option.splits)

text \<open>
  C15. A sign-out reaches the other tabs and stops there. When a tab with a session clears it with
  synchronisation, it posts one message; a tab that receives it within a minute and has the same
  session loses its credentials and goes to the sign-in page, a tab with another session or none
  is left as it was, and no receiver posts a message of its own.
\<close>

theorem sign_out_reaches_tabs:
  assumes "current_sid (cl_auth a) = Some sid" and "sid \<noteq> []"
    and "tab_window ta" and "tab_channel ta" and "tab_source tb \<noteq> tab_source ta"
    and "num_lt (num_abs (num_sub later now)) (Fin 60000)"
  shows "cl_published (clearAuthentication True boot a) = cl_published a @ [(SyncSignedOut, sid)] \<and>
    (\<exists>v. publishAuthSessionEvent ta nonce now SyncSignedOut sid = [PostMessage v] \<and>
      (\<forall>c. cl_published (fst (receive tb later v c)) = cl_published c \<and>
        (current_sid (cl_auth c) = Some sid \<longrightarrow>
          signed_out (cl_auth (fst (receive tb later v c))) \<and> snd (receive tb later v c) = [ClearQueries, NavigateToSignIn]) \<and>
        (current_sid (cl_auth c) \<noteq> Some sid \<longrightarrow> receive tb later v c = (c, []))))"
proof -
  let ?e = "\<lparr>ev_kind = SyncSignedOut, ev_sid = sid, ev_source = tab_source ta, ev_nonce = nonce, ev_timestamp = now\<rparr>"
  have p: "publishAuthSessionEvent ta nonce now SyncSignedOut sid = [PostMessage (event_value ?e)]"
    using assms by (simp add: publishAuthSessionEvent_def)
  have r: "receive tb later (event_value ?e) c = handle_sync_event ?e c" for c
    using assms deliver_event[of ?e tb later] by (auto simp: receive_def)
  have "cl_published (clearAuthentication True boot a) = cl_published a @ [(SyncSignedOut, sid)]"
    using assms(1,2) by (simp add: clearAuthentication_def update_auth_def publish_def Let_def)
  moreover have "current_sid (cl_auth c) = Some sid \<longrightarrow>
      signed_out (cl_auth (fst (handle_sync_event ?e c))) \<and> snd (handle_sync_event ?e c) = [ClearQueries, NavigateToSignIn]" for c
    using assms(2) by (auto simp: handle_sync_event_def truthy_str_def signed_out_def reset_def Let_def)
  moreover have "current_sid (cl_auth c) \<noteq> Some sid \<longrightarrow> handle_sync_event ?e c = (c, [])" for c
    by (simp add: handle_sync_event_def Let_def)
  ultimately show ?thesis using p r handler_silent[of ?e] by auto
qed

definition demo_tab :: "string \<Rightarrow> tab" where
  "demo_tab src = \<lparr>tab_window = True, tab_channel = True, tab_source = js src\<rparr>"

theorem sign_out_reaches_tabs_witness:
  "cl_published (clearAuthentication True BootComplete (pg_client demo_page)) =
     cl_published (pg_client demo_page) @ [(SyncSignedOut, js ''session-a'')]"
proof -
  have h: "current_sid (cl_auth (pg_client demo_page)) = Some (js ''session-a'')"
    by (simp add: demo_page_def current_sid_def setBundle_def demo_bundle_def)
  have t: "tab_window (demo_tab ''a'')" "tab_channel (demo_tab ''a'')" "tab_source (demo_tab ''b'') \<noteq> tab_source (demo_tab ''a'')"
    by (simp_all add: demo_tab_def)
  have n: "num_lt (num_abs (num_sub (Fin 5) (Fin 0))) (Fin 60000)" by code_simp
  show ?thesis using sign_out_reaches_tabs[OF h _ t n, of BootComplete] by simp
qed

end
