(* ===== verification/Spec2Isabelle.thy ===== *)
theory Spec2Isabelle
  imports Language TaskFacts TierFacts ConditionFacts RuleTrip EvalFacts ChannelRules HttpFacts
begin

text \<open>
  This library verifies parts of an API gateway with a web console. Paths below are relative to
  \<open>src/\<close>; the pricing library is \<open>web/src/features/pricing/lib\<close>, written \<open>lib\<close> here.

  \<^bold>\<open>The program.\<close> The gateway charges each request by a billing expression, a small language over token
  counts, request data and the clock. The console compiles and evaluates these expressions
  (\<open>lib/billing-expression\<close>), shows them as tables and summaries, and edits them as text, as a
  visual document, as token tiers (\<open>lib/tier-expr.ts\<close>), as task matrices (\<open>lib/task-expr.ts\<close>) and
  as request rules (\<open>lib/billing-expr.ts\<close>). It keeps a login session per page and across tabs,
  sends its requests through one HTTP client, and edits settings such as status code rules and
  model mappings, which the server parses again.

  \<^bold>\<open>The language and its library.\<close>
  \<^item> \<open>Prelude\<close>: strings as lists of UTF-16 code units, results \<open>Inl\<close> (thrown) and \<open>Inr\<close> (returned),
    ordered records, and the string functions the sources call.
  \<^item> \<open>JsNumber\<close>, \<open>JsText\<close>, \<open>JsValue\<close>: binary64 numbers as rationals with rounding, numbers as text
    and JSON string literals, values of type \<open>unknown\<close>, UTC dates.
  \<^item> \<open>Regex\<close>, \<open>Json\<close>, \<open>JsArray\<close>: backtracking regular expressions, \<open>JSON.parse\<close>, stable sorting
    under the locale \<open>comparison\<close>.

  \<^bold>\<open>Billing expressions.\<close>
  \<^item> \<open>ExprTypes\<close> (\<open>types.ts\<close>): syntax trees and the explicit-stack traversal with its depth limit.
  \<^item> \<open>Lexer\<close>, \<open>Parser\<close>, \<open>Compile\<close> (\<open>parser.ts\<close>): the class \<open>BillingParser\<close> as functions on a parser
    state, the type check, and \<open>compileBillingExpression\<close> with its cache of 128 entries.
  \<^item> \<open>Runtime\<close> (\<open>runtime.ts\<close>): the evaluator with its state of tiers, units, fixed prices and rule
    traces; time zones and lower-casing are the argument \<open>host\<close>.
  \<^item> \<open>Structure\<close> (\<open>structure.ts\<close>), \<open>Display\<close> (\<open>display.ts\<close>), \<open>Visual\<close> (\<open>visual.ts\<close>),
    \<open>ConditionDisplay\<close> (\<open>condition-display.ts\<close>): text-level helpers, summaries, the editor document
    and its patches, descriptions of conditions.
  \<^item> \<open>Memo\<close>, \<open>CompileFacts\<close>, \<open>RuntimeFacts\<close>, \<open>TypeFacts\<close>, \<open>VisualFacts\<close>, \<open>Language\<close>: the cache is
    transparent (locale of memo tables, interpreted on the compile cache), parsed trees are well
    formed, static types describe values but for sums of untyped operands, costs are finite and not
    negative, an unedited visual document is written back as it was read, splitting ends and loses
    nothing, unwrapping removes exactly the enclosing parentheses.
  \<^item> \<open>Semantics\<close>, \<open>EvalFacts\<close>: an inductive semantics without state which the evaluator refines, the
    inputs an evaluation can depend on, and the errors it can report.
  \<^item> \<open>ConditionFacts\<close>: a described time range holds exactly the values that satisfy its comparisons.

  \<^bold>\<open>Editors.\<close>
  \<^item> \<open>BillingExpr\<close> (\<open>billing-expr.ts\<close>) with \<open>SplitFacts\<close>, \<open>RuleFacts\<close>, \<open>RuleText\<close>, \<open>RuleConj\<close>,
    \<open>RuleTrip\<close>: request rules with readable conditions are read back from the text written for
    them; rules that compare a request parameter are not, which is proved as well.
  \<^item> \<open>TaskExpr\<close> (\<open>task-expr.ts\<close>) with \<open>TaskFacts\<close>: enum combinations are the full product, a price
    matrix is recovered from its tiers. \<open>localeCompare\<close> is an argument about which nothing is assumed.
  \<^item> \<open>TierExpr\<close> (\<open>tier-expr.ts\<close>) with \<open>TierFacts\<close>: normalising is idempotent and keeps the written
    expression, the estimator reads the token counts of the form.

  \<^bold>\<open>Sessions and requests.\<close>
  \<^item> \<open>AuthStore\<close> (\<open>web/src/stores/auth-store.ts\<close>, \<open>session-hint.ts\<close>, \<open>auth-session-sync.ts\<close> and the
    checks of \<open>auth-session.ts\<close> in \<open>web/src/lib\<close>): the store, its setters, the events between tabs.
  \<^item> \<open>AuthSession\<close> (\<open>auth-session.ts\<close>): each asynchronous function is cut at its \<open>await\<close>s. The runner
    of a refresh is a control point (\<open>run_pc\<close>) and functions from one \<open>await\<close> to the next;
    \<open>refresh_step\<close> interleaves them with every other operation on the session; the shared promise is
    \<open>pg_refresh\<close> of a page.
  \<^item> \<open>AuthFacts\<close>: an overtaken refresh is inert, a run settles within eight requests and 1560 ms of
    waiting, the outcome of a whole run tells what the store holds, and credentials are consistent
    in every reachable page.
  \<^item> \<open>TenantStorage\<close>, \<open>HttpClient\<close>, \<open>HttpFacts\<close> (\<open>tenant.ts\<close>, \<open>http-client.ts\<close>, the listener of
    \<open>web/src/routes/__root.tsx\<close>): the storage facade satisfies the contract \<open>item_store\<close> of a storage
    and keeps hosts apart whose prefixes do not extend each other, a request is sent at most twice and a single-use one once, shared GET
    requests stay within a session, relative URLs stay on the host, and a sign-out reaches the other
    tabs without an echo.

  \<^bold>\<open>Settings.\<close>
  \<^item> \<open>StatusCodes\<close>, \<open>StatusFacts\<close> (\<open>web/src/lib/http-status-code-rules.ts\<close> and the server's
    \<open>setting/operation_setting/status_code_ranges.go\<close>): both sides agree on normalised rules, the
    normal form is canonical, and the matcher decides membership.
  \<^item> \<open>ChannelRules\<close> (\<open>status-code-risk-guard.ts\<close>, \<open>model-mapping-validation.ts\<close> in
    \<open>web/src/features/channels/lib\<close>): the guard lists exactly the dangerous redirects, the checks on
    model mappings are exact, model lists survive their text form.

  \<^bold>\<open>Bounds and termination.\<close> Loops recurse on the text, the tree or the number of attempts that remain; none
  uses fuel. The one loop of the sources that may not end, splitting at an empty operator, is a
  partial function into \<open>option\<close>, which is proved to return on every source for any other operator.
  All other functions are total. The
  limits on length, tokens and depth and the cache size 128 are those of the code. Status codes are
  kept as integers, because every code outside 100 to 599 is rejected before rounding could matter.

  \<^bold>\<open>Arguments of the model.\<close> Time zones, lower-casing, collation, the clock, random names, the responses
  of the server, the browser lock and the cookie text are arguments of the definitions or labels of
  the step relations; no theorem assumes more of them than its statement says.

  \<^bold>\<open>Not modelled.\<close> The Go services around the database, Redis and the HTTP framework, the relay
  adaptors and the database models: their behaviour is mostly that of the libraries and the systems
  they call. The React components and hooks, the generated route tree and the desktop shell:
  rendering and operating-system calls. Of the modelled files, the network call of
  \<open>requestRefresh\<close>, the registration of browser listeners, the query cache (only when it is cleared
  for another tab's event), the lookup of the workspace on the server and the quota of the browser's
  storage are left out. Objects list their properties in insertion order, except where a check on
  settings enumerates a parsed object, where array indices come first as in the language.
\<close>

end
